(* ===== verification/GoPrelude.thy ===== *)
theory GoPrelude
  imports Main "HOL-Library.Word" "HOL-Library.Sublist"
begin

text \<open>
  Shared ground of the development: the collections the component theories extend, the type
  synonyms for Go's machine types, and generic facts on lists and options.

  \<^item> \<open>step_simps\<close> collects the defining equations of a component's atomic steps, so that
    an invariant proof opens them all with one \<open>simp add\<close>;
  \<^item> \<open>go_net\<close> collects evaluation rules of the Go networking helpers.
\<close>

named_theorems step_simps
named_theorems go_net

type_synonym byte = "8 word"
type_synonym bytes = "8 word list"
type_synonym int64 = "64 word"

text \<open>
  A Go call that returns \<open>(T, error)\<close> is a value of \<open>'e + 'a\<close>: \<open>Inl\<close> is the error
  branch. \<open>try_bind\<close> is the early return \<open>if err != nil { return ..., err }\<close>.
\<close>

definition try_bind :: "'e + 'a \<Rightarrow> ('a \<Rightarrow> 'e + 'b) \<Rightarrow> 'e + 'b" where
  "try_bind r f = (case r of Inl e \<Rightarrow> Inl e | Inr x \<Rightarrow> f x)"

lemma try_bind_simps [simp]:
  "try_bind (Inl e) f = Inl e"
  "try_bind (Inr x) f = f x"
  by (simp_all add: try_bind_def)

lemma try_bind_eq_Inr:
  "try_bind r f = Inr y \<longleftrightarrow> (\<exists>x. r = Inr x \<and> f x = Inr y)"
  by (cases r) simp_all

lemma try_bind_eq_Inl:
  "try_bind r f = Inl e \<longleftrightarrow> r = Inl e \<or> (\<exists>x. r = Inr x \<and> f x = Inl e)"
  by (cases r) auto

text \<open>\<open>of_option e\<close> turns a missing value into the error \<open>e\<close>.\<close>

definition of_option :: "'e \<Rightarrow> 'a option \<Rightarrow> 'e + 'a" where
  "of_option e v = (case v of None \<Rightarrow> Inl e | Some x \<Rightarrow> Inr x)"

lemma of_option_simps [simp]:
  "of_option e None = Inl e"
  "of_option e (Some x) = Inr x"
  by (simp_all add: of_option_def)

lemma of_option_eq_Inr [simp]: "of_option e v = Inr x \<longleftrightarrow> v = Some x"
  by (cases v) simp_all

lemma of_option_eq_Inl [simp]: "of_option e v = Inl d \<longleftrightarrow> v = None \<and> e = d"
  by (cases v) auto

lemma sum_not_Inl: "(\<nexists>e. r = Inl e) \<longleftrightarrow> (\<exists>x. r = Inr x)"
  by (cases r) auto

text \<open>The last element of a non-empty list by index, as Go writes \<open>xs[len(xs)-1]\<close>.\<close>

lemma nth_length_append1 [simp]: "(xs @ [x]) ! (length (xs @ [x]) - 1) = x"
  by simp

lemma take_length_append1 [simp]: "take (length (xs @ [x]) - 1) (xs @ [x]) = xs"
  by simp

end
