(* ===== verification/GoStrings.thy ===== *)
theory GoStrings
  imports GoPrelude
begin

text \<open>
  The parts of Go's \<open>strings\<close>, \<open>strconv\<close> and \<open>encoding/hex\<close> packages that the program
  calls, as functions on char lists: \<open>Split\<close>, \<open>Join\<close>, \<open>HasPrefix\<close>, \<open>HasSuffix\<close>,
  \<open>CutPrefix\<close>, \<open>CutSuffix\<close>, \<open>LastIndex\<close>, \<open>Contains\<close>, \<open>Atoi\<close>,
  \<open>AppendUint\<close> and \<open>hex.DecodeString\<close> / \<open>hex.EncodeToString\<close>, with their algebraic
  laws and round trips. They model the standard library, so the manifest maps none of them.
\<close>

subsection \<open>Prefixes and suffixes\<close>

definition has_prefix :: "string \<Rightarrow> string \<Rightarrow> bool" where
  "has_prefix s p \<longleftrightarrow> take (length p) s = p"

definition has_suffix :: "string \<Rightarrow> string \<Rightarrow> bool" where
  "has_suffix s p \<longleftrightarrow> length p \<le> length s \<and> drop (length s - length p) s = p"

definition cut_prefix :: "string \<Rightarrow> string \<Rightarrow> string" where
  "cut_prefix s p = (if has_prefix s p then drop (length p) s else s)"

definition cut_suffix :: "string \<Rightarrow> string \<Rightarrow> string" where
  "cut_suffix s p = (if has_suffix s p then take (length s - length p) s else s)"

lemma has_prefix_append [simp]: "has_prefix (p @ s) p"
  by (simp add: has_prefix_def)

lemma has_suffix_append [simp]: "has_suffix (s @ p) p"
  by (simp add: has_suffix_def)

lemma has_suffix_conv: "has_suffix s p \<longleftrightarrow> (\<exists>r. s = r @ p)"
  by (auto simp: has_suffix_def) (metis append_take_drop_id)

lemma has_prefix_conv: "has_prefix s p \<longleftrightarrow> (\<exists>r. s = p @ r)"
  by (auto simp: has_prefix_def) (metis append_take_drop_id)

lemma has_prefix_Nil [simp]: "has_prefix [] [c] = False"
  by (simp add: has_prefix_def)

lemma has_prefix_Cons [simp]: "has_prefix (x # xs) [c] \<longleftrightarrow> x = c"
  by (simp add: has_prefix_def)

lemma has_suffix_Nil [simp]: "has_suffix [] [c] = False"
  by (simp add: has_suffix_def)

lemma has_suffix_snoc [simp]: "has_suffix (xs @ [x]) [c] \<longleftrightarrow> x = c"
  by (simp add: has_suffix_def)

lemma has_suffix_last: "s \<noteq> [] \<Longrightarrow> has_suffix s [c] \<longleftrightarrow> last s = c"
  by (metis append_butlast_last_id has_suffix_snoc)

lemma has_suffix_singleton_mem: "has_suffix s [c] \<Longrightarrow> c \<in> set s"
  by (auto simp: has_suffix_conv)

lemma cut_prefix_append [simp]: "cut_prefix (p @ s) p = s"
  by (simp add: cut_prefix_def)

lemma cut_prefix_Cons [simp]: "cut_prefix (c # s) [c] = s"
  by (simp add: cut_prefix_def)

lemma cut_suffix_append [simp]: "cut_suffix (s @ p) p = s"
  by (simp add: cut_suffix_def)

subsection \<open>Split and Join\<close>

fun go_split :: "char \<Rightarrow> string \<Rightarrow> string list" where
  "go_split c [] = [[]]"
| "go_split c (x # xs) =
     (if x = c then [] # go_split c xs
      else (case go_split c xs of [] \<Rightarrow> [[x]] | t # ts \<Rightarrow> (x # t) # ts))"

fun go_join :: "string \<Rightarrow> string list \<Rightarrow> string" where
  "go_join sep [] = []"
| "go_join sep [t] = t"
| "go_join sep (t # u # ts) = t @ sep @ go_join sep (u # ts)"

lemma go_split_not_Nil [simp]: "go_split c s \<noteq> []"
  by (induction s) (auto split: list.splits)

lemma go_split_no_sep: "c \<notin> set t \<Longrightarrow> go_split c t = [t]"
  by (induction t) auto

lemma go_split_append: "c \<notin> set t \<Longrightarrow> go_split c (t @ c # s) = t # go_split c s"
  by (induction t) auto

lemma go_split_elems: "t \<in> set (go_split c s) \<Longrightarrow> c \<notin> set t"
  by (induction s arbitrary: t) (auto split: list.splits if_splits)

lemma go_join_Cons: "ts \<noteq> [] \<Longrightarrow> go_join sep (t # ts) = t @ sep @ go_join sep ts"
  by (cases ts) simp_all

lemma go_join_split: "go_join [c] (go_split c s) = s"
proof (induction s)
  case Nil
  show ?case by simp
next
  case (Cons x xs)
  obtain t ts where ts: "go_split c xs = t # ts"
    by (cases "go_split c xs") auto
  with Cons.IH show ?case
    by (cases ts) auto
qed

lemma go_split_join:
  "ts \<noteq> [] \<Longrightarrow> (\<And>t. t \<in> set ts \<Longrightarrow> c \<notin> set t) \<Longrightarrow> go_split c (go_join [c] ts) = ts"
proof (induction ts)
  case Nil
  then show ?case by simp
next
  case (Cons t ts)
  show ?case
  proof (cases ts)
    case Nil
    with Cons.prems show ?thesis by (simp add: go_split_no_sep)
  next
    case (Cons u us)
    with Cons.prems Cons.IH show ?thesis
      by (simp add: go_split_append)
  qed
qed

lemma go_join_append:
  "ts \<noteq> [] \<Longrightarrow> us \<noteq> [] \<Longrightarrow> go_join sep (ts @ us) = go_join sep ts @ sep @ go_join sep us"
proof (induction ts)
  case (Cons t ts)
  then show ?case by (cases "ts = []") (auto simp: go_join_Cons)
qed simp

text \<open>Splitting a concatenation at a separator splits the two halves separately.\<close>

lemma go_split_append_sep: "go_split c (s @ c # r) = go_split c s @ go_split c r"
  by (induction s) (auto split: list.splits)

lemma go_split_snoc:
  "x \<noteq> c \<Longrightarrow> go_split c (s @ [x]) = butlast (go_split c s) @ [last (go_split c s) @ [x]]"
  by (induction s) (auto split: list.splits)

lemma go_split_subset: "t \<in> set (go_split c s) \<Longrightarrow> set t \<subseteq> set s"
proof (induction s arbitrary: t)
  case (Cons x xs)
  then show ?case by (cases "go_split c xs") (force split: if_splits)+
qed simp

lemma length_go_split: "length (go_split c s) = Suc (count_list s c)"
  by (induction s) (auto split: list.splits)

subsection \<open>LastIndex and Contains\<close>

text \<open>\<open>after_last c s\<close> is \<open>s[strings.LastIndex(s, c)+1:]\<close>, or \<open>s\<close> when \<open>c\<close> does not occur.\<close>

definition after_last :: "char \<Rightarrow> string \<Rightarrow> string" where
  "after_last c s = rev (takeWhile (\<lambda>x. x \<noteq> c) (rev s))"

lemma takeWhile_not_mem: "c \<notin> set s \<Longrightarrow> takeWhile (\<lambda>x. x \<noteq> c) s = s"
  by (induction s) auto

lemma after_last_no_sep: "c \<notin> set s \<Longrightarrow> after_last c s = s"
  by (simp add: after_last_def takeWhile_not_mem)

lemma after_last_append: "c \<notin> set t \<Longrightarrow> after_last c (s @ c # t) = t"
  by (auto simp: after_last_def takeWhile_append)

lemma after_last_not_mem: "c \<notin> set (after_last c s)"
  by (auto simp: after_last_def dest: set_takeWhileD)

fun index_of :: "char \<Rightarrow> string \<Rightarrow> nat option" where
  "index_of c [] = None"
| "index_of c (x # xs) = (if x = c then Some 0 else map_option Suc (index_of c xs))"

lemma index_of_None [simp]: "index_of c s = None \<longleftrightarrow> c \<notin> set s"
  by (induction s) auto

lemma index_of_append: "c \<notin> set t \<Longrightarrow> index_of c (t @ c # s) = Some (length t)"
  by (induction t) auto

fun last_index_of :: "char \<Rightarrow> string \<Rightarrow> nat option" where
  "last_index_of c [] = None"
| "last_index_of c (x # xs) =
     (case last_index_of c xs of
        Some i \<Rightarrow> Some (Suc i)
      | None \<Rightarrow> if x = c then Some 0 else None)"

lemma last_index_of_None [simp]: "last_index_of c s = None \<longleftrightarrow> c \<notin> set s"
  by (induction s) (auto split: option.splits)

lemma last_index_of_append: "c \<notin> set t \<Longrightarrow> last_index_of c (s @ c # t) = Some (length s)"
proof (induction s)
  case Nil
  then have "last_index_of c t = None" by (simp only: last_index_of_None not_False_eq_True)
  then show ?case by (simp del: last_index_of_None)
qed simp

subsection \<open>Decimal numbers\<close>

definition is_digit :: "char \<Rightarrow> bool" where
  "is_digit c \<longleftrightarrow> 48 \<le> (of_char c :: nat) \<and> (of_char c :: nat) \<le> 57"

definition digit_val :: "char \<Rightarrow> nat" where
  "digit_val c = of_char c - 48"

fun dec_val :: "nat \<Rightarrow> string \<Rightarrow> nat" where
  "dec_val acc [] = acc"
| "dec_val acc (c # cs) = dec_val (10 * acc + digit_val c) cs"

text \<open>
  \<open>strconv.Atoi\<close> on a platform whose \<open>int\<close> has 64 bits: an optional sign, then decimal
  digits only, and a range error outside the signed 64-bit range. Every caller of the program
  only asks whether the error is nil.
\<close>

definition sign_split :: "string \<Rightarrow> bool \<times> string" where
  "sign_split s = (case s of
     [] \<Rightarrow> (False, [])
   | c # cs \<Rightarrow> if c = CHR ''-'' then (True, cs) else if c = CHR ''+'' then (False, cs) else (False, s))"

definition go_atoi :: "string \<Rightarrow> int option" where
  "go_atoi s = (case sign_split s of (neg, d) \<Rightarrow>
     if d = [] \<or> \<not> list_all is_digit d then None
     else let n = int (dec_val 0 d); v = (if neg then - n else n)
          in if - (2 ^ 63) \<le> v \<and> v < 2 ^ 63 then Some v else None)"

text \<open>\<open>strconv.AppendUint(buf, n, 10)\<close>: the decimal digits of \<open>n\<close>.\<close>

definition dec_digit :: "nat \<Rightarrow> char" where
  "dec_digit n = ''0123456789'' ! n"

fun dec_str :: "nat \<Rightarrow> string" where
  "dec_str n = (if n < 10 then [dec_digit n] else dec_str (n div 10) @ [dec_digit (n mod 10)])"

declare dec_str.simps [simp del]

lemma is_digit_dec_digit: "n < 10 \<Longrightarrow> is_digit (dec_digit n)"
  by (simp add: is_digit_def dec_digit_def less_Suc_eq numeral_eq_Suc) (elim disjE; simp)

lemma digit_val_dec_digit: "n < 10 \<Longrightarrow> digit_val (dec_digit n) = n"
  by (simp add: digit_val_def dec_digit_def less_Suc_eq numeral_eq_Suc) (elim disjE; simp)

lemma dec_val_append: "dec_val acc (xs @ ys) = dec_val (dec_val acc xs) ys"
  by (induction xs arbitrary: acc) auto

lemma dec_str_digits: "list_all is_digit (dec_str n)"
proof (induction n rule: dec_str.induct)
  case (1 n)
  then show ?case
    by (cases "n < 10") (simp_all add: dec_str.simps [of n] is_digit_dec_digit)
qed

lemma dec_str_not_Nil [simp]: "dec_str n \<noteq> []"
  by (simp add: dec_str.simps [of n])

lemma dec_val_dec_str: "dec_val 0 (dec_str n) = n"
proof (induction n rule: dec_str.induct)
  case (1 n)
  then show ?case
    by (cases "n < 10") (simp_all add: dec_str.simps [of n] dec_val_append digit_val_dec_digit)
qed

lemma dec_str_inj: "dec_str m = dec_str n \<longleftrightarrow> m = n"
  by (metis dec_val_dec_str)

lemma not_digit_notin: "\<not> is_digit c \<Longrightarrow> c \<notin> set (dec_str n)"
  using dec_str_digits [of n] by (auto simp: list_all_iff)

lemma not_digit_chars:
  "\<not> is_digit CHR ''-''" "\<not> is_digit CHR ''+''" "\<not> is_digit CHR '':''"
  "\<not> is_digit CHR ''[''" "\<not> is_digit CHR '']''" "\<not> is_digit CHR ''.''"
  by (simp_all add: is_digit_def)

lemma dec_str_no_special [simp]:
  "CHR ''-'' \<notin> set (dec_str n)" "CHR ''+'' \<notin> set (dec_str n)" "CHR '':'' \<notin> set (dec_str n)"
  "CHR ''['' \<notin> set (dec_str n)" "CHR '']'' \<notin> set (dec_str n)" "CHR ''.'' \<notin> set (dec_str n)"
  by (simp_all add: not_digit_notin not_digit_chars)

lemma sign_split_digits:
  assumes "list_all is_digit d" shows "sign_split d = (False, d)"
  using assms not_digit_chars by (cases d) (auto simp: sign_split_def)

lemma go_atoi_dec_str: "n < 2 ^ 63 \<Longrightarrow> go_atoi (dec_str n) = Some (int n)"
  by (simp add: go_atoi_def sign_split_digits dec_str_digits dec_val_dec_str Let_def)

lemma go_atoi_range: "go_atoi s = Some v \<Longrightarrow> - (2 ^ 63) \<le> v \<and> v < 2 ^ 63"
  by (auto simp: go_atoi_def Let_def split: prod.splits if_splits)

lemma go_atoi_bad_char:
  assumes "c \<in> set s" "\<not> is_digit c" "c \<noteq> CHR ''-''" "c \<noteq> CHR ''+''"
  shows "go_atoi s = None"
  using assms by (cases s) (auto simp: go_atoi_def sign_split_def list_all_iff)

lemma go_atoi_Nil [simp]: "go_atoi [] = None"
  by (simp add: go_atoi_def sign_split_def)

subsection \<open>Hexadecimal\<close>

definition hex_digit :: "nat \<Rightarrow> char" where
  "hex_digit n = ''0123456789abcdef'' ! n"

text \<open>\<open>reverseHexTable\<close>: both cases of the letters are accepted.\<close>

definition hex_val :: "char \<Rightarrow> nat option" where
  "hex_val c = (let n = of_char c in
     if 48 \<le> n \<and> n \<le> 57 then Some (n - 48)
     else if 97 \<le> n \<and> n \<le> 102 then Some (n - 87)
     else if 65 \<le> n \<and> n \<le> 70 then Some (n - 55)
     else None)"

datatype hex_error = InvalidByteError char | ErrLength

fun hex_encode :: "bytes \<Rightarrow> string" where
  "hex_encode [] = []"
| "hex_encode (b # bs) = hex_digit (unat b div 16) # hex_digit (unat b mod 16) # hex_encode bs"

fun hex_decode :: "string \<Rightarrow> hex_error + bytes" where
  "hex_decode [] = Inr []"
| "hex_decode [p] = (if hex_val p = None then Inl (InvalidByteError p) else Inl ErrLength)"
| "hex_decode (p # q # s) =
     (case hex_val p of None \<Rightarrow> Inl (InvalidByteError p)
      | Some a \<Rightarrow> (case hex_val q of None \<Rightarrow> Inl (InvalidByteError q)
         | Some b \<Rightarrow> try_bind (hex_decode s) (\<lambda>bs. Inr (of_nat (16 * a + b) # bs))))"

lemma hex_val_hex_digit: "n < 16 \<Longrightarrow> hex_val (hex_digit n) = Some n"
  by (simp add: hex_val_def hex_digit_def Let_def less_Suc_eq numeral_eq_Suc) (elim disjE; simp)

lemma unat_byte_less: "unat (b :: byte) < 256"
  using unsigned_less [of b] by simp

theorem hex_decode_encode: "hex_decode (hex_encode bs) = Inr bs"
proof (induction bs)
  case (Cons b bs)
  have "unat b div 16 < 16" "unat b mod 16 < 16"
    using unat_byte_less [of b] by (simp_all add: less_mult_imp_div_less)
  then show ?case
    using Cons by (simp add: hex_val_hex_digit)
qed simp

lemma hex_digit_no_dot: "n < 16 \<Longrightarrow> CHR ''.'' \<noteq> hex_digit n"
  by (simp add: hex_digit_def less_Suc_eq numeral_eq_Suc) (elim disjE; simp)

lemma hex_encode_no_dot: "CHR ''.'' \<notin> set (hex_encode bs)"
proof (induction bs)
  case (Cons b bs)
  have "unat b div 16 < 16" "unat b mod 16 < 16"
    using unat_byte_less [of b] by (simp_all add: less_mult_imp_div_less)
  then show ?case
    using Cons by (simp add: hex_digit_no_dot)
qed simp

lemma length_hex_encode [simp]: "length (hex_encode bs) = 2 * length bs"
  by (induction bs) auto

lemma hex_decode_length: "hex_decode s = Inr bs \<Longrightarrow> length s = 2 * length bs"
  by (induction s arbitrary: bs rule: hex_decode.induct)
     (auto simp: try_bind_eq_Inr split: option.splits if_splits)

end
