(* ===== verification/GoNet.thy ===== *)
theory GoNet
  imports GoStrings
begin

text \<open>
  The parts of Go's \<open>net\<close> package the program calls, as executable functions:
  \<open>SplitHostPort\<close>, \<open>JoinHostPort\<close>, \<open>ParseIP\<close> (with the \<open>netip\<close> scanner for dotted IPv4
  and for IPv6 with an ellipsis or an embedded IPv4 tail), \<open>IP.To4\<close>, \<open>IP.To16\<close>, and the
  constant \<open>IPv6loopback\<close>. A nil \<open>net.IP\<close> is \<open>None\<close>, any other is \<open>Some\<close> of its
  bytes. These model the standard library and have no entry in the manifest's map.
\<close>

subsection \<open>Host and port\<close>

datatype addr_error =
    MissingPort
  | TooManyColons
  | MissingBracket
  | UnexpectedOpen
  | UnexpectedClose

text \<open>
  \<open>split_host_port\<close> follows the library's scan: the last colon, the bracketed form when the text
  starts with \<open>[\<close>, and the rejection of stray brackets after position \<open>j\<close> resp. \<open>k\<close>.
\<close>

definition shp_finish :: "string \<Rightarrow> nat \<Rightarrow> string \<Rightarrow> nat \<Rightarrow> nat \<Rightarrow> addr_error + string \<times> string" where
  "shp_finish s i host j k =
     (if CHR ''['' \<in> set (drop j s) then Inl UnexpectedOpen
      else if CHR '']'' \<in> set (drop k s) then Inl UnexpectedClose
      else Inr (host, drop (i + 1) s))"

definition split_host_port :: "string \<Rightarrow> addr_error + string \<times> string" where
  "split_host_port s =
     (case last_index_of CHR '':'' s of
        None \<Rightarrow> Inl MissingPort
      | Some i \<Rightarrow>
          if s ! 0 = CHR ''['' then
            (case index_of CHR '']'' s of
               None \<Rightarrow> Inl MissingBracket
             | Some e \<Rightarrow>
                 if e + 1 = length s then Inl MissingPort
                 else if e + 1 = i then shp_finish s i (take (e - 1) (drop 1 s)) 1 (e + 1)
                 else if s ! (e + 1) = CHR '':'' then Inl TooManyColons
                 else Inl MissingPort)
          else if CHR '':'' \<in> set (take i s) then Inl TooManyColons
          else shp_finish s i (take i s) 0 0)"

definition join_host_port :: "string \<Rightarrow> string \<Rightarrow> string" where
  "join_host_port h p =
     (if CHR '':'' \<in> set h then ''['' @ h @ '']:'' @ p else h @ '':'' @ p)"

lemma split_host_port_plain:
  assumes "CHR '':'' \<notin> set h" "CHR ''['' \<notin> set h" "CHR '']'' \<notin> set h"
    and "CHR '':'' \<notin> set p" "CHR ''['' \<notin> set p" "CHR '']'' \<notin> set p"
  shows "split_host_port (h @ CHR '':'' # p) = Inr (h, p)"
proof -
  have "(h @ CHR '':'' # p) ! 0 \<noteq> CHR ''[''"
    using assms(2) by (cases h) auto
  then show ?thesis
    using assms by (simp add: split_host_port_def shp_finish_def last_index_of_append)
qed

lemma split_host_port_bracketed:
  assumes "CHR ''['' \<notin> set h" "CHR '']'' \<notin> set h"
    and "CHR '':'' \<notin> set p" "CHR ''['' \<notin> set p" "CHR '']'' \<notin> set p"
  shows "split_host_port (CHR ''['' # h @ CHR '']'' # CHR '':'' # p) = Inr (h, p)"
proof -
  let ?s = "CHR ''['' # h @ CHR '']'' # CHR '':'' # p"
  have l: "last_index_of CHR '':'' (h @ CHR '']'' # CHR '':'' # p) = Some (length h + 1)"
    using assms(3) last_index_of_append [of "CHR '':''" p "h @ [CHR '']'']"] by simp
  have i: "index_of CHR '']'' (h @ CHR '']'' # CHR '':'' # p) = Some (length h)"
    using assms(2) by (simp add: index_of_append)
  show ?thesis
    using assms by (simp add: split_host_port_def l i shp_finish_def)
qed

theorem split_join_host_port:
  assumes "CHR ''['' \<notin> set h" "CHR '']'' \<notin> set h"
    and "CHR '':'' \<notin> set p" "CHR ''['' \<notin> set p" "CHR '']'' \<notin> set p"
  shows "split_host_port (join_host_port h p) = Inr (h, p)"
  using assms split_host_port_bracketed [of h p] split_host_port_plain [of h p]
  by (simp add: join_host_port_def)

lemma split_host_port_no_colon:
  "CHR '':'' \<notin> set s \<Longrightarrow> split_host_port s = Inl MissingPort"
  by (simp add: split_host_port_def last_index_of_None [THEN iffD2])

subsection \<open>Addresses\<close>

type_synonym ip = bytes

definition ipv6_loopback :: ip where
  "ipv6_loopback = replicate 15 0 @ [1]"

definition v4_in_v6 :: "bytes \<Rightarrow> ip" where
  "v4_in_v6 v4 = replicate 10 0 @ [255, 255] @ v4"

definition to4 :: "ip option \<Rightarrow> ip option" where
  "to4 a = (case a of None \<Rightarrow> None | Some b \<Rightarrow>
     if length b = 4 then Some b
     else if length b = 16 \<and> take 12 b = replicate 10 0 @ [255, 255] then Some (drop 12 b)
     else None)"

definition to16 :: "ip option \<Rightarrow> ip option" where
  "to16 a = (case a of None \<Rightarrow> None | Some b \<Rightarrow>
     if length b = 4 then Some (v4_in_v6 b)
     else if length b = 16 then Some b
     else None)"

fun ipv4_fields :: "nat list \<Rightarrow> nat \<Rightarrow> nat \<Rightarrow> string \<Rightarrow> nat list option" where
  "ipv4_fields fs v n [] = (if length fs < 3 then None else Some (fs @ [v]))"
| "ipv4_fields fs v n (c # cs) =
     (if is_digit c then
        if n = 1 \<and> v = 0 then None
        else if 255 < 10 * v + digit_val c then None
        else ipv4_fields fs (10 * v + digit_val c) (n + 1) cs
      else if c = CHR ''.'' then
        if n = 0 \<or> cs = [] then None
        else if length fs = 3 then None
        else ipv4_fields (fs @ [v]) 0 0 cs
      else None)"

definition hex_run :: "string \<Rightarrow> string" where
  "hex_run s = takeWhile (\<lambda>c. hex_val c \<noteq> None) s"

fun hex_num :: "nat \<Rightarrow> string \<Rightarrow> nat" where
  "hex_num acc [] = acc"
| "hex_num acc (c # cs) = hex_num (16 * acc + the (hex_val c)) cs"

definition hextet_bytes :: "nat \<Rightarrow> bytes" where
  "hextet_bytes n = [of_nat (n div 256), of_nat (n mod 256)]"

lemma drop_hex_run_shorter:
  "drop (length (hex_run s)) s = c # r \<Longrightarrow> length r < length s"
  by (metis length_drop diff_le_self less_le_trans length_Cons lessI)

text \<open>
  The loop of \<open>parseIPv6\<close>: the bytes so far, the position of the ellipsis, the rest of the text.
  Each turn drops at least one hex digit, so the text shrinks.
\<close>

function ipv6_loop :: "bytes \<Rightarrow> nat option \<Rightarrow> string \<Rightarrow> (bytes \<times> nat option \<times> string) option" where
  "ipv6_loop ip ell s =
     (if 16 \<le> length ip then Some (ip, ell, s)
      else if hex_run s = [] \<or> 4 < length (hex_run s) then None
      else (case drop (length (hex_run s)) s of
          [] \<Rightarrow> Some (ip @ hextet_bytes (hex_num 0 (hex_run s)), ell, [])
        | c # r \<Rightarrow>
            if c = CHR ''.'' then
              if (ell = None \<and> length ip \<noteq> 12) \<or> 16 < length ip + 4 then None
              else (case ipv4_fields [] 0 0 s of
                      None \<Rightarrow> None
                    | Some fs \<Rightarrow> Some (ip @ map of_nat fs, ell, []))
            else if c \<noteq> CHR '':'' \<or> r = [] then None
            else if hd r \<noteq> CHR '':'' then ipv6_loop (ip @ hextet_bytes (hex_num 0 (hex_run s))) ell r
            else if ell \<noteq> None then None
            else if tl r = [] then Some (ip @ hextet_bytes (hex_num 0 (hex_run s)), Some (length ip + 2), [])
            else ipv6_loop (ip @ hextet_bytes (hex_num 0 (hex_run s))) (Some (length ip + 2)) (tl r)))"
  by pat_completeness auto

termination
  by (relation "measure (\<lambda>(ip, ell, s). length s)")
     (auto dest: drop_hex_run_shorter simp: less_imp_diff_less)

declare ipv6_loop.simps [simp del]

definition ipv6_expand :: "bytes \<times> nat option \<times> string \<Rightarrow> ip option" where
  "ipv6_expand r = (case r of (ip, ell, s) \<Rightarrow>
     if s \<noteq> [] then None
     else if length ip < 16 then
       (case ell of None \<Rightarrow> None
        | Some e \<Rightarrow> Some (take e ip @ replicate (16 - length ip) 0 @ drop e ip))
     else if ell \<noteq> None then None
     else Some ip)"

definition parse_ipv6 :: "string \<Rightarrow> ip option" where
  "parse_ipv6 s =
     (if take 2 s = ''::'' then
        if drop 2 s = [] then Some (replicate 16 0)
        else Option.bind (ipv6_loop [] (Some 0) (drop 2 s)) ipv6_expand
      else Option.bind (ipv6_loop [] None s) ipv6_expand)"

text \<open>
  \<open>net.ParseIP\<close> dispatches on the first of \<open>.\<close>, \<open>:\<close> and \<open>%\<close>; it rejects every text
  with a zone, so a percent sign anywhere makes it nil. An IPv4 address is returned in its 16-byte form.
\<close>

definition parse_ip :: "string \<Rightarrow> ip option" where
  "parse_ip s =
     (if CHR ''%'' \<in> set s then None
      else (case List.find (\<lambda>c. c = CHR ''.'' \<or> c = CHR '':'') s of
              None \<Rightarrow> None
            | Some c \<Rightarrow>
                if c = CHR ''.'' then map_option (\<lambda>fs. v4_in_v6 (map of_nat fs)) (ipv4_fields [] 0 0 s)
                else parse_ipv6 s))"

lemma ipv4_fields_length: "ipv4_fields fs v n s = Some r \<Longrightarrow> length fs \<le> 3 \<Longrightarrow> length r = 4"
  by (induction fs v n s rule: ipv4_fields.induct) (auto split: if_splits)

lemma hextet_bytes_length [simp]: "length (hextet_bytes n) = 2"
  by (simp add: hextet_bytes_def)

definition ell_le :: "nat option \<Rightarrow> nat \<Rightarrow> bool" where
  "ell_le ell n \<longleftrightarrow> (\<forall>e. ell = Some e \<longrightarrow> e \<le> n)"

lemma ell_le_simps [simp]: "ell_le None n" "ell_le (Some e) n \<longleftrightarrow> e \<le> n"
  by (simp_all add: ell_le_def)

lemma ell_le_mono: "ell_le ell n \<Longrightarrow> n \<le> m \<Longrightarrow> ell_le ell m"
  by (auto simp: ell_le_def)

lemma ipv6_loop_length:
  "ipv6_loop ip ell s = Some (ip', ell', s') \<Longrightarrow> even (length ip) \<Longrightarrow> length ip \<le> 16 \<Longrightarrow>
     ell_le ell (length ip) \<Longrightarrow> length ip' \<le> 16 \<and> ell_le ell' (length ip')"
proof (induction ip ell s rule: ipv6_loop.induct)
  case (1 ip ell s)
  note prem = 1(3) [unfolded ipv6_loop.simps [of ip ell s]]
  show ?case
  proof (cases "16 \<le> length ip")
    case True
    with prem 1(4-6) show ?thesis by auto
  next
    case False
    with 1(4) have le: "length ip + 2 \<le> 16" by presburger
    have ell: "ell_le ell (Suc (Suc (length ip)))" "ell_le ell (length ip + 4)"
      using ell_le_mono [OF 1(6)] by simp_all
    show ?thesis
      using prem False le ell 1(1-2) 1(4)
      by (auto split: if_splits list.splits option.splits dest!: ipv4_fields_length)
  qed
qed

lemma ipv6_expand_length:
  "ipv6_expand (ip, ell, s) = Some r \<Longrightarrow> length ip \<le> 16 \<Longrightarrow> ell_le ell (length ip) \<Longrightarrow> length r = 16"
  by (auto simp: ipv6_expand_def split: if_splits option.splits)

lemma ipv6_text_length:
  assumes "Option.bind (ipv6_loop [] ell s) ipv6_expand = Some r" "ell_le ell 0"
  shows "length r = 16"
proof -
  obtain ip e t where l: "ipv6_loop [] ell s = Some (ip, e, t)" and x: "ipv6_expand (ip, e, t) = Some r"
    using assms(1) by (auto simp: bind_eq_Some_conv)
  from ipv6_loop_length [OF l] assms(2) have "length ip \<le> 16" "ell_le e (length ip)" by auto
  with x show ?thesis by (rule ipv6_expand_length)
qed

lemma parse_ipv6_length: "parse_ipv6 s = Some r \<Longrightarrow> length r = 16"
  by (auto simp: parse_ipv6_def split: if_splits dest: ipv6_text_length)

lemma parse_ip_length: "parse_ip s = Some r \<Longrightarrow> length r = 16"
  by (auto simp: parse_ip_def v4_in_v6_def split: if_splits option.splits
      dest: parse_ipv6_length ipv4_fields_length)

subsection \<open>Dotted IPv4 text\<close>

definition dotted :: "byte \<Rightarrow> byte \<Rightarrow> byte \<Rightarrow> byte \<Rightarrow> string" where
  "dotted a b c d = dec_str (unat a) @ ''.'' @ dec_str (unat b) @ ''.'' @ dec_str (unat c) @ ''.'' @ dec_str (unat d)"

lemma ipv4_fields_dec:
  "v < 256 \<Longrightarrow> ipv4_fields fs 0 0 (dec_str v @ rest) = ipv4_fields fs v (length (dec_str v)) rest"
proof (induction v arbitrary: rest rule: dec_str.induct)
  case (1 v)
  show ?case
  proof (cases "v < 10")
    case True
    then show ?thesis
      by (simp add: dec_str.simps [of v] is_digit_dec_digit digit_val_dec_digit)
  next
    case False
    let ?d = "dec_digit (v mod 10)"
    have "ipv4_fields fs 0 0 (dec_str (v div 10) @ ?d # rest) =
        ipv4_fields fs (v div 10) (length (dec_str (v div 10))) (?d # rest)"
      using 1 False by simp
    moreover have "v div 10 \<noteq> 0"
      using False by (simp add: div_eq_0_iff)
    ultimately show ?thesis
      using False 1(2) by (simp add: dec_str.simps [of v] is_digit_dec_digit digit_val_dec_digit)
  qed
qed

lemma ipv4_fields_dot:
  "0 < n \<Longrightarrow> length fs < 3 \<Longrightarrow> cs \<noteq> [] \<Longrightarrow> ipv4_fields fs v n (CHR ''.'' # cs) = ipv4_fields (fs @ [v]) 0 0 cs"
  by (simp add: not_digit_chars)

lemma ipv4_fields_dotted:
  "ipv4_fields [] 0 0 (dotted a b c d) = Some [unat a, unat b, unat c, unat d]"
  using ipv4_fields_dec [OF unat_byte_less [of d], of _ "[]"]
  by (simp add: dotted_def ipv4_fields_dec unat_byte_less ipv4_fields_dot del: ipv4_fields.simps(2))

lemma is_digit_not_sep: "is_digit x \<Longrightarrow> x \<noteq> CHR ''.'' \<and> x \<noteq> CHR '':'' \<and> x \<noteq> CHR ''%''"
  by (auto simp: is_digit_def)

lemma dec_str_cases: obtains x xs where "dec_str n = x # xs" "is_digit x"
  using dec_str_digits [of n] by (cases "dec_str n") auto

lemma find_sep_dec:
  "List.find (\<lambda>c. c = CHR ''.'' \<or> c = CHR '':'') (dec_str n @ CHR ''.'' # cs) = Some CHR ''.''"
proof -
  have "List.find (\<lambda>c. c = CHR ''.'' \<or> c = CHR '':'') (xs @ CHR ''.'' # cs) = Some CHR ''.''"
    if "list_all is_digit xs" for xs
    using that by (induction xs) (auto dest: is_digit_not_sep)
  then show ?thesis by (simp add: dec_str_digits)
qed

lemma parse_ip_dotted: "parse_ip (dotted a b c d) = Some (v4_in_v6 [a, b, c, d])"
proof -
  have "CHR ''%'' \<notin> set (dec_str n)" for n
    by (simp add: not_digit_notin is_digit_def)
  then have "CHR ''%'' \<notin> set (dotted a b c d)"
    by (simp add: dotted_def)
  moreover have "List.find (\<lambda>c. c = CHR ''.'' \<or> c = CHR '':'') (dotted a b c d) = Some CHR ''.''"
    by (simp add: dotted_def find_sep_dec)
  ultimately show ?thesis
    by (simp add: parse_ip_def ipv4_fields_dotted)
qed

lemma to4_v4_in_v6: "length v = 4 \<Longrightarrow> to4 (Some (v4_in_v6 v)) = Some v"
  by (simp add: to4_def v4_in_v6_def)

lemma dotted_plain:
  "CHR '':'' \<notin> set (dotted a b c d)" "CHR ''['' \<notin> set (dotted a b c d)" "CHR '']'' \<notin> set (dotted a b c d)"
  by (simp_all add: dotted_def)

lemma dotted_not_Nil [simp]: "dotted a b c d \<noteq> ''''"
  by (simp add: dotted_def)

end
