(* ===== verification/MappingSpec.thy ===== *)
theory MappingSpec
  imports GoNet
begin

text \<open>
  Port-mapping specifications (\<open>src/types/mapping.go\<close>): the text parser behind the flags
  \<open>-local-tcp\<close>, \<open>-local-udp\<close>, \<open>-remote-tcp\<close> and \<open>-remote-udp\<close>, the validation of local
  and remote mappings, and the four \<open>Set\<close> methods that accumulate them.

  The abstract specification is a mapping with optional hosts, \<open>map_spec\<close>, and its rendering as
  text; \<open>parse_render\<close> says that the parser inverts the rendering on all its token counts.
\<close>

subsection \<open>The parser\<close>

datatype map_error =
    MalformedSpec string
  | PortsOutOfRange
  | LocalNeedsDestination
  | NotIPv6Destination string
  | ListenMustBeEmpty
  | InvalidListenAddress string
  | InvalidMappedAddress string

type_synonym parsed_spec = "string \<times> int \<times> string \<times> int"

text \<open>\<open>for i := start; i >= 0; i--\<close>: the last token at or before \<open>start\<close> that opens a bracket.\<close>

fun find_open :: "string list \<Rightarrow> nat \<Rightarrow> nat option" where
  "find_open ts 0 = (if has_prefix (ts ! 0) ''['' then Some 0 else None)"
| "find_open ts (Suc i) = (if has_prefix (ts ! Suc i) ''['' then Some (Suc i) else find_open ts i)"

definition strip_brackets :: "string \<Rightarrow> string" where
  "strip_brackets s = cut_suffix (cut_prefix s ''['') '']''"

text \<open>
  The address at the end of the token list and the tokens before it: a bracketed address is joined
  from its tokens; when no token opens the bracket, the address stays empty and no token is cut.
\<close>

definition take_address :: "string list \<Rightarrow> string \<times> string list" where
  "take_address ts = (let n = length ts in
     if has_suffix (ts ! (n - 1)) '']'' then
       (case find_open ts (n - 1) of
          Some i \<Rightarrow> (strip_brackets (go_join '':'' (drop i ts)), take i ts)
        | None \<Rightarrow> ('''', ts))
     else (ts ! (n - 1), take (n - 1) ts))"

text \<open>The branch for more than four tokens, read from the right.\<close>

definition parse_many :: "string \<Rightarrow> string list \<Rightarrow> map_error + parsed_spec" where
  "parse_many v ts =
     try_bind (of_option (MalformedSpec v) (go_atoi (ts ! (length ts - 1)))) (\<lambda>sp.
       (case take_address (take (length ts - 1) ts) of (sa, ts1) \<Rightarrow>
          if length ts1 < 1 then Inl (MalformedSpec v)
          else try_bind (of_option (MalformedSpec v) (go_atoi (ts1 ! (length ts1 - 1)))) (\<lambda>fp.
            (let ts2 = take (length ts1 - 1) ts1;
                 fa = (if 0 < length ts2 then fst (take_address ts2) else '''')
             in Inr (fa, fp, sa, sp)))))"

definition split_spec_addr :: "string \<Rightarrow> string \<Rightarrow> string \<Rightarrow> map_error + string \<times> string" where
  "split_spec_addr v h p =
     (case split_host_port (h @ '':'' @ p) of Inl _ \<Rightarrow> Inl (MalformedSpec v) | Inr r \<Rightarrow> Inr r)"

definition parse_tokens :: "string \<Rightarrow> string list \<Rightarrow> map_error + parsed_spec" where
  "parse_tokens v ts = (case ts of
     [] \<Rightarrow> Inr ('''', 0, '''', 0)
   | [a] \<Rightarrow>
       try_bind (of_option (MalformedSpec v) (go_atoi a)) (\<lambda>fp. Inr ('''', fp, '''', fp))
   | [a, b] \<Rightarrow>
       try_bind (of_option (MalformedSpec v) (go_atoi a)) (\<lambda>fp.
       try_bind (of_option (MalformedSpec v) (go_atoi b)) (\<lambda>sp. Inr ('''', fp, '''', sp)))
   | [a, b, c] \<Rightarrow>
       try_bind (of_option (MalformedSpec v) (go_atoi a)) (\<lambda>fp.
       try_bind (split_spec_addr v b c) (\<lambda>(sa, sps).
       try_bind (of_option (MalformedSpec v) (go_atoi sps)) (\<lambda>sp. Inr ('''', fp, sa, sp))))
   | [a, b, c, d] \<Rightarrow>
       try_bind (split_spec_addr v a b) (\<lambda>(fa, fps).
       try_bind (split_spec_addr v c d) (\<lambda>(sa, sps).
       try_bind (of_option (MalformedSpec v) (go_atoi fps)) (\<lambda>fp.
       try_bind (of_option (MalformedSpec v) (go_atoi sps)) (\<lambda>sp. Inr (fa, fp, sa, sp)))))
   | _ \<Rightarrow> parse_many v ts)"

definition check_ports :: "parsed_spec \<Rightarrow> map_error + parsed_spec" where
  "check_ports r = (case r of (fa, fp, sa, sp) \<Rightarrow>
     if fp < 1 \<or> fp > 65535 \<or> sp < 1 \<or> sp > 65535 then Inl PortsOutOfRange else Inr r)"

definition parse_mapping_string :: "string \<Rightarrow> map_error + parsed_spec" where
  "parse_mapping_string v = try_bind (parse_tokens v (go_split CHR '':'' v)) check_ports"

subsection \<open>Validation and the flag values\<close>

text \<open>\<open>ip := net.ParseIP(s)\<close> with its nil check, or the initial value when the text is empty.\<close>

definition parse_addr_or :: "(string \<Rightarrow> map_error) \<Rightarrow> ip option \<Rightarrow> string \<Rightarrow> map_error + ip option" where
  "parse_addr_or err init s =
     (if s \<noteq> '''' then
        (case parse_ip s of None \<Rightarrow> Inl (err s) | Some b \<Rightarrow> Inr (Some b))
      else Inr init)"

definition build_mapping :: "string \<Rightarrow> bool \<Rightarrow> map_error + (ip option \<times> int \<times> ip option \<times> int)" where
  "build_mapping v is_local =
     try_bind (parse_mapping_string v) (\<lambda>(fa, fp, sa, sp).
       if is_local \<and> sa = '''' then Inl LocalNeedsDestination
       else if is_local \<and> (parse_ip sa = None \<or> to4 (parse_ip sa) \<noteq> None) then Inl (NotIPv6Destination sa)
       else if \<not> is_local \<and> fa \<noteq> '''' then Inl ListenMustBeEmpty
       else
         try_bind (parse_addr_or InvalidListenAddress None fa) (\<lambda>lip.
         try_bind (parse_addr_or InvalidMappedAddress (Some ipv6_loopback) sa) (\<lambda>mip.
         Inr (lip, fp, mip, sp))))"

record net_addr =
  addr_ip :: "ip option"
  addr_port :: int

record tcp_mapping =
  tcp_listen :: net_addr
  tcp_mapped :: net_addr

record udp_mapping =
  udp_listen :: net_addr
  udp_mapped :: net_addr

definition tcp_local_set :: "tcp_mapping list \<Rightarrow> string \<Rightarrow> map_error option \<times> tcp_mapping list" where
  "tcp_local_set m v = (case build_mapping v True of
     Inl e \<Rightarrow> (Some e, m)
   | Inr (li, lp, mi, mp) \<Rightarrow>
       (None, m @ [\<lparr>tcp_listen = \<lparr>addr_ip = li, addr_port = lp\<rparr>, tcp_mapped = \<lparr>addr_ip = mi, addr_port = mp\<rparr>\<rparr>]))"

definition tcp_remote_set :: "tcp_mapping list \<Rightarrow> string \<Rightarrow> map_error option \<times> tcp_mapping list" where
  "tcp_remote_set m v = (case build_mapping v False of
     Inl e \<Rightarrow> (Some e, m)
   | Inr (li, lp, mi, mp) \<Rightarrow>
       (None, m @ [\<lparr>tcp_listen = \<lparr>addr_ip = li, addr_port = lp\<rparr>, tcp_mapped = \<lparr>addr_ip = mi, addr_port = mp\<rparr>\<rparr>]))"

definition udp_local_set :: "udp_mapping list \<Rightarrow> string \<Rightarrow> map_error option \<times> udp_mapping list" where
  "udp_local_set m v = (case build_mapping v True of
     Inl e \<Rightarrow> (Some e, m)
   | Inr (li, lp, mi, mp) \<Rightarrow>
       (None, m @ [\<lparr>udp_listen = \<lparr>addr_ip = li, addr_port = lp\<rparr>, udp_mapped = \<lparr>addr_ip = mi, addr_port = mp\<rparr>\<rparr>]))"

definition udp_remote_set :: "udp_mapping list \<Rightarrow> string \<Rightarrow> map_error option \<times> udp_mapping list" where
  "udp_remote_set m v = (case build_mapping v False of
     Inl e \<Rightarrow> (Some e, m)
   | Inr (li, lp, mi, mp) \<Rightarrow>
       (None, m @ [\<lparr>udp_listen = \<lparr>addr_ip = li, addr_port = lp\<rparr>, udp_mapped = \<lparr>addr_ip = mi, addr_port = mp\<rparr>\<rparr>]))"

text \<open>\<open>String()\<close> of the four flag types is the empty string.\<close>

definition mappings_string :: "'m list \<Rightarrow> string" where
  "mappings_string m = ''''"

subsection \<open>Reading an address from the right\<close>

lemma find_open_walk:
  "i \<le> n \<Longrightarrow> has_prefix (ts ! i) ''['' \<Longrightarrow> (\<And>j. i < j \<Longrightarrow> j \<le> n \<Longrightarrow> \<not> has_prefix (ts ! j) ''['') \<Longrightarrow>
     find_open ts n = Some i"
proof (induction n)
  case (Suc n)
  then show ?case by (cases "i = Suc n") auto
qed simp

lemma find_open_None:
  "(\<And>j. j \<le> n \<Longrightarrow> \<not> has_prefix (ts ! j) ''['') \<Longrightarrow> find_open ts n = None"
  by (induction n) auto

lemma bracket_tokens:
  assumes "CHR ''['' \<notin> set h"
  obtains u us where "go_split CHR '':'' (CHR ''['' # h @ '']'') = (CHR ''['' # u) # us"
    and "\<And>t. t \<in> set us \<Longrightarrow> CHR ''['' \<notin> set t"
    and "has_suffix (last ((CHR ''['' # u) # us)) '']''"
proof -
  obtain u us where us: "go_split CHR '':'' (h @ '']'') = u # us"
    by (cases "go_split CHR '':'' (h @ '']'')") auto
  have "CHR ''['' \<notin> set t" if "t \<in> set us" for t
    using go_split_subset [of t "CHR '':''" "h @ '']''"] that assms us by auto
  moreover have "u # us = butlast (go_split CHR '':'' h) @ [last (go_split CHR '':'' h) @ '']'']"
    using go_split_snoc [of "CHR '']''" "CHR '':''" h] us by simp
  then have "last (u # us) = last (go_split CHR '':'' h) @ '']''"
    by (simp only: last_snoc)
  then have "has_suffix (last ((CHR ''['' # u) # us)) '']''"
    by (cases us) (auto simp: has_suffix_last)
  ultimately show thesis using that us by simp
qed

lemma strip_brackets_bracketed [simp]: "strip_brackets (CHR ''['' # h @ '']'') = h"
  by (simp add: strip_brackets_def)

lemma take_address_bracketed:
  assumes "CHR ''['' \<notin> set h"
  shows "take_address (ts @ go_split CHR '':'' (CHR ''['' # h @ '']'')) = (h, ts)"
proof -
  let ?s = "CHR ''['' # h @ '']''"
  obtain u us where us: "go_split CHR '':'' ?s = (CHR ''['' # u) # us"
    and no: "\<And>t. t \<in> set us \<Longrightarrow> CHR ''['' \<notin> set t"
    and suf: "has_suffix (last ((CHR ''['' # u) # us)) '']''"
    using bracket_tokens [OF assms] by blast
  let ?all = "ts @ (CHR ''['' # u) # us"
  have lastn: "?all ! (length ?all - 1) = last ((CHR ''['' # u) # us)"
    by (metis append_is_Nil_conv last_appendR last_conv_nth list.distinct(1))
  have fo: "find_open ?all (length ?all - 1) = Some (length ts)"
  proof (rule find_open_walk)
    fix j assume j: "length ts < j" "j \<le> length ?all - 1"
    then have "?all ! j = us ! (j - length ts - 1)"
      by (simp add: nth_append nth_Cons')
    moreover have "us ! (j - length ts - 1) \<in> set us"
      using j by (intro nth_mem) auto
    ultimately show "\<not> has_prefix (?all ! j) ''[''"
      using no by (force simp: has_prefix_conv)
  qed simp_all
  have j: "go_join '':'' ((CHR ''['' # u) # us) = ?s"
    using go_join_split [of "CHR '':''" ?s] by (simp only: us)
  show ?thesis
    unfolding take_address_def Let_def us lastn fo
    using suf j by (simp del: go_join.simps)
qed

lemma take_address_plain:
  assumes "CHR '']'' \<notin> set h"
  shows "take_address (ts @ [h]) = (h, ts)"
  using assms by (auto simp: take_address_def Let_def dest: has_suffix_singleton_mem)

subsection \<open>The abstract specification and its text\<close>

text \<open>
  A host is absent, plain (no colon, no bracket: a name or a dotted IPv4) or bracketed (an IPv6 text,
  which has at least two colons).
\<close>

datatype host_text = NoHost | PlainHost string | BracketHost string

record map_spec =
  ms_listen :: host_text
  ms_fport :: nat
  ms_mapped :: host_text
  ms_sport :: nat

fun host_string :: "host_text \<Rightarrow> string" where
  "host_string NoHost = ''''"
| "host_string (PlainHost h) = h"
| "host_string (BracketHost h) = h"

fun host_ok :: "host_text \<Rightarrow> bool" where
  "host_ok NoHost = True"
| "host_ok (PlainHost h) = (CHR '':'' \<notin> set h \<and> CHR ''['' \<notin> set h \<and> CHR '']'' \<notin> set h)"
| "host_ok (BracketHost h) = (CHR ''['' \<notin> set h \<and> CHR '']'' \<notin> set h \<and> 2 \<le> count_list h CHR '':'')"

fun host_prefix :: "host_text \<Rightarrow> string" where
  "host_prefix NoHost = ''''"
| "host_prefix (PlainHost h) = h @ '':''"
| "host_prefix (BracketHost h) = ''['' @ h @ '']:''"

definition render_spec :: "map_spec \<Rightarrow> string" where
  "render_spec s = host_prefix (ms_listen s) @ dec_str (ms_fport s) @ '':'' @
     host_prefix (ms_mapped s) @ dec_str (ms_sport s)"

definition port_ok :: "nat \<Rightarrow> bool" where
  "port_ok p \<longleftrightarrow> 1 \<le> p \<and> p \<le> 65535"

definition spec_ok :: "map_spec \<Rightarrow> bool" where
  "spec_ok s \<longleftrightarrow> host_ok (ms_listen s) \<and> host_ok (ms_mapped s) \<and>
     port_ok (ms_fport s) \<and> port_ok (ms_sport s) \<and>
     (ms_mapped s = NoHost \<longrightarrow> ms_listen s = NoHost)"

definition spec_parsed :: "map_spec \<Rightarrow> parsed_spec" where
  "spec_parsed s = (host_string (ms_listen s), int (ms_fport s), host_string (ms_mapped s), int (ms_sport s))"

fun host_tokens :: "host_text \<Rightarrow> string list" where
  "host_tokens NoHost = []"
| "host_tokens (PlainHost h) = [h]"
| "host_tokens (BracketHost h) = go_split CHR '':'' (CHR ''['' # h @ '']'')"

lemma go_split_host_prefix:
  "host_ok h \<Longrightarrow> go_split CHR '':'' (host_prefix h @ s) = host_tokens h @ go_split CHR '':'' s"
proof (cases h)
  case (BracketHost t)
  then show ?thesis
    using go_split_append_sep [of "CHR '':''" "CHR ''['' # t @ '']''" s] by simp
qed (auto simp: go_split_append)

definition spec_tokens :: "map_spec \<Rightarrow> string list" where
  "spec_tokens s = host_tokens (ms_listen s) @ dec_str (ms_fport s) # host_tokens (ms_mapped s) @ [dec_str (ms_sport s)]"

lemma go_split_render:
  "spec_ok s \<Longrightarrow> go_split CHR '':'' (render_spec s) = spec_tokens s"
  by (simp add: render_spec_def spec_tokens_def spec_ok_def go_split_host_prefix go_split_append go_split_no_sep)

lemma take_address_host:
  "host_ok h \<Longrightarrow> h \<noteq> NoHost \<Longrightarrow> take_address (ts @ host_tokens h) = (host_string h, ts)"
  by (cases h) (simp_all add: take_address_plain take_address_bracketed del: go_split.simps)

lemma go_atoi_port: "port_ok p \<Longrightarrow> go_atoi (dec_str p) = Some (int p)"
  by (simp add: port_ok_def go_atoi_dec_str)

text \<open>
  The many-token branch with an arbitrary list of tokens \<open>lt\<close> before the first port: the first
  address is whatever ends \<open>lt\<close>.
\<close>

lemma parse_many_general:
  assumes "host_ok m" "m \<noteq> NoHost" "port_ok fp" "port_ok sp"
  shows "parse_many v (lt @ dec_str fp # host_tokens m @ [dec_str sp]) =
     Inr (if lt = [] then '''' else fst (take_address lt), int fp, host_string m, int sp)"
proof -
  have m: "take_address (lt @ dec_str fp # host_tokens m) = (host_string m, lt @ [dec_str fp])"
    using take_address_host [OF assms(1,2), of "lt @ [dec_str fp]"] by simp
  have sp: "lt @ dec_str fp # host_tokens m @ [dec_str sp] = (lt @ dec_str fp # host_tokens m) @ [dec_str sp]"
    by simp
  show ?thesis
    unfolding sp parse_many_def
    using assms by (simp add: m go_atoi_port Let_def nth_append)
qed

lemma parse_many_render:
  assumes "spec_ok s" "ms_mapped s \<noteq> NoHost"
  shows "parse_many v (spec_tokens s) = Inr (spec_parsed s)"
proof -
  have ok: "host_ok (ms_listen s)" "host_ok (ms_mapped s)" "port_ok (ms_fport s)" "port_ok (ms_sport s)"
    using assms(1) by (simp_all add: spec_ok_def)
  have "(if host_tokens (ms_listen s) = [] then '''' else fst (take_address (host_tokens (ms_listen s))))
      = host_string (ms_listen s)"
    using take_address_host [OF ok(1), of "[]"]
    by (cases "ms_listen s") (simp_all del: go_split.simps)
  then show ?thesis
    using parse_many_general [OF ok(2) assms(2) ok(3,4)] by (simp add: spec_tokens_def spec_parsed_def)
qed

lemma parse_tokens_many: "4 < length ts \<Longrightarrow> parse_tokens v ts = parse_many v ts"
  by (auto simp: parse_tokens_def split: list.splits)

lemma split_spec_addr_plain:
  "host_ok (PlainHost h) \<Longrightarrow> split_spec_addr v h (dec_str p) = Inr (h, dec_str p)"
  by (simp add: split_spec_addr_def split_host_port_plain)

lemma length_host_tokens_bracket: "host_ok (BracketHost h) \<Longrightarrow> 3 \<le> length (host_tokens (BracketHost h))"
  by (simp add: length_go_split del: go_split.simps)

lemma parse_tokens_render:
  assumes ok: "spec_ok s"
  shows "parse_tokens v (spec_tokens s) = Inr (spec_parsed s)"
proof -
  consider (two) "ms_listen s = NoHost" "ms_mapped s = NoHost"
    | (three) h where "ms_listen s = NoHost" "ms_mapped s = PlainHost h"
    | (four) g h where "ms_listen s = PlainHost g" "ms_mapped s = PlainHost h"
    | (more) "ms_mapped s \<noteq> NoHost" "4 < length (spec_tokens s)"
  proof (cases "ms_mapped s")
    case NoHost
    then show ?thesis using that(1) ok by (simp add: spec_ok_def)
  next
    case (PlainHost h)
    then show ?thesis
    proof (cases "ms_listen s")
      case (BracketHost g)
      then have "3 \<le> length (host_tokens (ms_listen s))"
        using ok length_host_tokens_bracket [of g] by (simp add: spec_ok_def del: host_tokens.simps)
      then show ?thesis
        using that(4) PlainHost by (simp add: spec_tokens_def)
    qed (use that(2,3) PlainHost in auto)
  next
    case (BracketHost h)
    then have "3 \<le> length (host_tokens (ms_mapped s))"
      using ok length_host_tokens_bracket [of h] by (simp add: spec_ok_def del: host_tokens.simps)
    then show ?thesis
      using that(4) BracketHost by (simp add: spec_tokens_def del: host_tokens.simps)
  qed
  then show ?thesis
  proof cases
    case more
    then show ?thesis using ok by (simp add: parse_tokens_many parse_many_render)
  qed (use ok in \<open>simp_all add: spec_tokens_def parse_tokens_def spec_ok_def split_spec_addr_plain
      go_atoi_port spec_parsed_def\<close>)
qed

lemma check_ports_parsed: "spec_ok s \<Longrightarrow> check_ports (spec_parsed s) = Inr (spec_parsed s)"
  by (simp add: check_ports_def spec_parsed_def spec_ok_def port_ok_def)

subsection \<open>Results of the validation\<close>

lemma parse_mapping_string_ports:
  "parse_mapping_string v = Inr (fa, fp, sa, sp) \<Longrightarrow> 1 \<le> fp \<and> fp \<le> 65535 \<and> 1 \<le> sp \<and> sp \<le> 65535"
  by (auto simp: parse_mapping_string_def try_bind_eq_Inr check_ports_def split: if_splits)

definition valid_ports :: "int \<Rightarrow> int \<Rightarrow> bool" where
  "valid_ports p q \<longleftrightarrow> 1 \<le> p \<and> p \<le> 65535 \<and> 1 \<le> q \<and> q \<le> 65535"

text \<open>
  What a local mapping promises: a 16-byte destination that is not an IPv4 address, a listen address
  that is nil or 16 bytes, and ports in range.
\<close>

definition local_mapping_ok :: "net_addr \<Rightarrow> net_addr \<Rightarrow> bool" where
  "local_mapping_ok l m \<longleftrightarrow> valid_ports (addr_port l) (addr_port m) \<and>
     (\<exists>b. addr_ip m = Some b \<and> length b = 16) \<and> to4 (addr_ip m) = None \<and>
     (\<forall>b. addr_ip l = Some b \<longrightarrow> length b = 16)"

text \<open>What a remote mapping promises: it listens on every address of the netstack and has a target.\<close>

definition remote_mapping_ok :: "net_addr \<Rightarrow> net_addr \<Rightarrow> bool" where
  "remote_mapping_ok l m \<longleftrightarrow> valid_ports (addr_port l) (addr_port m) \<and>
     (\<exists>b. addr_ip m = Some b \<and> length b = 16) \<and> addr_ip l = None"

lemma build_mapping_InrE:
  assumes "build_mapping v b = Inr (li, lp, mi, mp)"
  obtains fa sa where "parse_mapping_string v = Inr (fa, lp, sa, mp)"
    and "parse_addr_or InvalidListenAddress None fa = Inr li"
    and "parse_addr_or InvalidMappedAddress (Some ipv6_loopback) sa = Inr mi"
    and "b \<Longrightarrow> sa \<noteq> '''' \<and> parse_ip sa \<noteq> None \<and> to4 (parse_ip sa) = None"
    and "\<not> b \<Longrightarrow> fa = ''''"
  using assms by (auto simp: build_mapping_def try_bind_eq_Inr split: if_splits)

lemma parse_addr_or_Inr:
  "parse_addr_or err init s = Inr r \<longleftrightarrow> (if s = '''' then r = init else parse_ip s = r \<and> r \<noteq> None)"
  by (cases "parse_ip s") (auto simp: parse_addr_or_def)

lemma build_mapping_ports:
  "build_mapping v b = Inr (li, lp, mi, mp) \<Longrightarrow> valid_ports lp mp"
  by (auto elim!: build_mapping_InrE dest: parse_mapping_string_ports simp: valid_ports_def)

lemma mapped_length:
  "parse_addr_or err (Some ipv6_loopback) s = Inr r \<Longrightarrow> \<exists>b. r = Some b \<and> length b = 16"
  using parse_ip_length [of s] by (auto simp: parse_addr_or_Inr ipv6_loopback_def split: if_splits)

lemma build_mapping_local:
  assumes "build_mapping v True = Inr (li, lp, mi, mp)"
  shows "local_mapping_ok \<lparr>addr_ip = li, addr_port = lp\<rparr> \<lparr>addr_ip = mi, addr_port = mp\<rparr>"
  using assms
proof (rule build_mapping_InrE)
  fix fa sa
  assume l: "parse_addr_or InvalidListenAddress None fa = Inr li"
    and m: "parse_addr_or InvalidMappedAddress (Some ipv6_loopback) sa = Inr mi"
    and d: "True \<Longrightarrow> sa \<noteq> '''' \<and> parse_ip sa \<noteq> None \<and> to4 (parse_ip sa) = None"
  from m d have mi: "mi = parse_ip sa" by (simp add: parse_addr_or_Inr)
  from l have "\<forall>b. li = Some b \<longrightarrow> length b = 16"
    by (auto simp: parse_addr_or_Inr parse_ip_length split: if_splits)
  with mi d mapped_length [OF m] build_mapping_ports [OF assms]
  show ?thesis by (simp add: local_mapping_ok_def)
qed

lemma build_mapping_remote:
  assumes "build_mapping v False = Inr (li, lp, mi, mp)"
  shows "remote_mapping_ok \<lparr>addr_ip = li, addr_port = lp\<rparr> \<lparr>addr_ip = mi, addr_port = mp\<rparr>"
  using assms
proof (rule build_mapping_InrE)
  fix fa sa
  assume l: "parse_addr_or InvalidListenAddress None fa = Inr li"
    and m: "parse_addr_or InvalidMappedAddress (Some ipv6_loopback) sa = Inr mi"
    and e: "\<not> False \<Longrightarrow> fa = ''''"
  from l e have "li = None" by (simp add: parse_addr_or_Inr)
  with mapped_length [OF m] build_mapping_ports [OF assms]
  show ?thesis by (auto simp: remote_mapping_ok_def)
qed

subsection \<open>Properties\<close>

text \<open>
  C1: the parser inverts the rendering of a specification: for every specification with ports in
  range, plain or bracketed hosts, and a listen host only beside a mapped host, parsing its text
  returns exactly its hosts and ports, whatever number of colon-separated tokens the text has.
\<close>

theorem parse_render:
  assumes "spec_ok s"
  shows "parse_mapping_string (render_spec s) = Inr (spec_parsed s)"
  using assms
  by (simp add: parse_mapping_string_def go_split_render parse_tokens_render check_ports_parsed)

theorem parse_render_witness:
  "parse_mapping_string ''[::1]:8080:[200::1]:80'' = Inr (''::1'', 8080, ''200::1'', 80)"
proof -
  let ?s = "\<lparr>ms_listen = BracketHost ''::1'', ms_fport = 8080, ms_mapped = BracketHost ''200::1'', ms_sport = 80\<rparr>"
  have ok: "spec_ok ?s"
    by (simp add: spec_ok_def port_ok_def)
  have "render_spec ?s = ''[::1]:8080:[200::1]:80''"
    by (simp add: render_spec_def dec_str.simps dec_digit_def)
  then show ?thesis
    using parse_render [OF ok] by (simp add: spec_parsed_def)
qed

text \<open>
  every local mapping the TCP and UDP flags accumulate, over any sequence of values with accepted
  and rejected ones, forwards to a 16-byte destination that is not an IPv4 address, from a nil or
  16-byte listen address, with both ports in 1-65535.
\<close>

theorem local_sets_ok:
  "list_all (\<lambda>m. local_mapping_ok (tcp_listen m) (tcp_mapped m)) (foldl (\<lambda>m v. snd (tcp_local_set m v)) [] vs) \<and>
   list_all (\<lambda>m. local_mapping_ok (udp_listen m) (udp_mapped m)) (foldl (\<lambda>m v. snd (udp_local_set m v)) [] vs)"
proof (induction vs rule: rev_induct)
  case (snoc v vs)
  then show ?case
    by (auto simp: tcp_local_set_def udp_local_set_def build_mapping_local split: sum.splits)
qed simp

text \<open>
  every remote mapping the TCP and UDP flags accumulate listens on all addresses of the node, has a
  16-byte target (the IPv6 loopback when the text names none) and both ports in 1-65535.
\<close>

theorem remote_sets_ok:
  "list_all (\<lambda>m. remote_mapping_ok (tcp_listen m) (tcp_mapped m)) (foldl (\<lambda>m v. snd (tcp_remote_set m v)) [] vs) \<and>
   list_all (\<lambda>m. remote_mapping_ok (udp_listen m) (udp_mapped m)) (foldl (\<lambda>m v. snd (udp_remote_set m v)) [] vs)"
proof (induction vs rule: rev_induct)
  case (snoc v vs)
  then show ?case
    by (auto simp: tcp_remote_set_def udp_remote_set_def build_mapping_remote split: sum.splits)
qed simp

text \<open>
  a local mapping never forwards to an IPv4 address: for every dotted destination and all ports in
  range the flag is rejected with the error that names the destination, and the list stays as it was.
\<close>

theorem local_rejects_ipv4:
  assumes "port_ok fp" "port_ok sp"
  shows "tcp_local_set m (dec_str fp @ '':'' @ dotted a b c d @ '':'' @ dec_str sp) =
     (Some (NotIPv6Destination (dotted a b c d)), m)"
proof -
  let ?s = "\<lparr>ms_listen = NoHost, ms_fport = fp, ms_mapped = PlainHost (dotted a b c d), ms_sport = sp\<rparr>"
  have "spec_ok ?s"
    using assms by (simp add: spec_ok_def dotted_plain)
  from parse_tokens_render [OF this] check_ports_parsed [OF this] go_split_render [OF this]
  have "parse_mapping_string (render_spec ?s) = Inr (spec_parsed ?s)"
    by (simp add: parse_mapping_string_def)
  then show ?thesis
    by (simp add: tcp_local_set_def build_mapping_def render_spec_def spec_parsed_def
        parse_ip_dotted to4_v4_in_v6)
qed

theorem local_rejects_ipv4_witness:
  "tcp_local_set [] ''1234:192.168.1.1:4321'' = (Some (NotIPv6Destination ''192.168.1.1''), [])"
proof -
  have "port_ok 1234" "port_ok 4321" by (simp_all add: port_ok_def)
  moreover have "dec_str 1234 @ '':'' @ dotted 192 168 1 1 @ '':'' @ dec_str 4321 = ''1234:192.168.1.1:4321''"
    "dotted 192 168 1 1 = ''192.168.1.1''"
    by (simp_all add: dotted_def dec_str.simps dec_digit_def)
  ultimately show ?thesis
    using local_rejects_ipv4 [of 1234 4321 "[]" 192 168 1 1] by (simp only:)
qed

text \<open>
  a closing bracket without its opening one makes the listen address vanish: the text before the
  first port is dropped, and the mapping parses with the empty (wildcard) listen address instead of
  being rejected as malformed.
\<close>

theorem unmatched_bracket_listens_everywhere:
  assumes "CHR '':'' \<notin> set t" "CHR ''['' \<notin> set t" "host_ok (BracketHost h)" "port_ok fp" "port_ok sp"
  shows "parse_mapping_string (t @ '']:'' @ dec_str fp @ '':['' @ h @ '']:'' @ dec_str sp) =
     Inr ('''', int fp, h, int sp)"
proof -
  let ?v = "t @ '']:'' @ dec_str fp @ '':['' @ h @ '']:'' @ dec_str sp"
  let ?ts = "[t @ '']''] @ dec_str fp # host_tokens (BracketHost h) @ [dec_str sp]"
  have "go_split CHR '':'' ?v = ?ts"
    using assms(1) go_split_append [of "CHR '':''" "t @ '']''"] go_split_host_prefix [OF assms(3)]
    by (simp add: go_split_append go_split_no_sep del: go_split.simps host_tokens.simps)
  moreover have "4 < length ?ts"
    using length_host_tokens_bracket [OF assms(3)] by (simp del: host_tokens.simps)
  moreover have "has_prefix (t @ '']'') ''['' = False"
    using assms(2) by (cases t) auto
  then have "take_address [t @ '']''] = ('''', [t @ '']''])"
    by (simp add: take_address_def)
  ultimately show ?thesis
    using assms(4,5) parse_many_general [OF assms(3) _ assms(4,5), of ?v "[t @ '']'']"]
    by (simp add: parse_mapping_string_def parse_tokens_many check_ports_def port_ok_def del: host_tokens.simps)
qed

theorem unmatched_bracket_listens_everywhere_witness:
  "parse_mapping_string ''127.0.0.1]:8080:[200::1]:80'' = Inr ('''', 8080, ''200::1'', 80)"
proof -
  have "port_ok 8080" "port_ok 80" by (simp_all add: port_ok_def)
  moreover have "''127.0.0.1'' @ '']:'' @ dec_str 8080 @ '':['' @ ''200::1'' @ '']:'' @ dec_str 80 =
      ''127.0.0.1]:8080:[200::1]:80''"
    by (simp add: render_spec_def dec_str.simps dec_digit_def)
  ultimately show ?thesis
    using unmatched_bracket_listens_everywhere [of "''127.0.0.1''" "''200::1''" 8080 80]
    by (simp del: append.simps)
qed

text \<open>
  text in front of a complete four-part specification is ignored: any prefix, separated by a
  colon, leaves the parsed hosts and ports unchanged.
\<close>

theorem leading_text_ignored:
  assumes "spec_ok s" "ms_listen s \<noteq> NoHost"
  shows "parse_mapping_string (j @ '':'' @ render_spec s) = Inr (spec_parsed s)"
proof -
  let ?v = "j @ '':'' @ render_spec s"
  have ok: "host_ok (ms_listen s)" "host_ok (ms_mapped s)" "port_ok (ms_fport s)" "port_ok (ms_sport s)"
      "ms_mapped s \<noteq> NoHost"
    using assms by (auto simp: spec_ok_def)
  have ts: "go_split CHR '':'' ?v = (go_split CHR '':'' j @ host_tokens (ms_listen s)) @
      dec_str (ms_fport s) # host_tokens (ms_mapped s) @ [dec_str (ms_sport s)]"
    using assms(1) by (simp add: go_split_append_sep go_split_render spec_tokens_def)
  have ne: "host_tokens h \<noteq> []" if "h \<noteq> NoHost" for h
    using that by (cases h) (simp_all del: go_split.simps)
  have "4 < length (go_split CHR '':'' ?v)"
    using ne [OF assms(2)] ne [OF ok(5)] go_split_not_Nil [of "CHR '':''" j]
    unfolding ts by (simp add: length_greater_0_conv [symmetric] del: length_greater_0_conv go_split_not_Nil)
  then have "parse_tokens ?v (go_split CHR '':'' ?v) = parse_many ?v (go_split CHR '':'' ?v)"
    by (rule parse_tokens_many)
  also have "\<dots> = Inr (spec_parsed s)"
    unfolding ts
    using parse_many_general [OF ok(2,5,3,4), of ?v "go_split CHR '':'' j @ host_tokens (ms_listen s)"]
      take_address_host [OF ok(1) assms(2)]
    by (simp add: spec_parsed_def)
  finally show ?thesis
    using check_ports_parsed [OF assms(1)] by (simp add: parse_mapping_string_def)
qed

theorem leading_text_ignored_witness:
  "parse_mapping_string ''0.0.0.0:99:127.0.0.1:80:[200::1]:443'' = Inr (''127.0.0.1'', 80, ''200::1'', 443)"
proof -
  let ?s = "\<lparr>ms_listen = PlainHost ''127.0.0.1'', ms_fport = 80, ms_mapped = BracketHost ''200::1'', ms_sport = 443\<rparr>"
  have "spec_ok ?s" "ms_listen ?s \<noteq> NoHost"
    by (simp_all add: spec_ok_def port_ok_def)
  from leading_text_ignored [OF this, of "''0.0.0.0:99''"]
  have "parse_mapping_string (''0.0.0.0:99'' @ '':'' @ render_spec ?s) = Inr (''127.0.0.1'', 80, ''200::1'', 443)"
    by (simp add: spec_parsed_def)
  moreover have "''0.0.0.0:99'' @ '':'' @ render_spec ?s = ''0.0.0.0:99:127.0.0.1:80:[200::1]:443''"
    by (simp add: render_spec_def dec_str.simps dec_digit_def)
  ultimately show ?thesis by (simp only:)
qed

end
