(* ===== verification/NetAddr.thy ===== *)
theory NetAddr
  imports GoNet
begin

text \<open>
  Addressing on the userspace network stack (\<open>src/netstack/netstack.go\<close>): the conversion of Go
  addresses and endpoint texts to the stack's full address, and the dial and listen entry points.

  The gvisor adapters (\<open>gonet.DialContextTCP\<close>, \<open>gonet.DialTCP\<close>, \<open>gonet.DialUDP\<close>,
  \<open>gonet.ListenTCP\<close>) are third-party: they are the fields of a record of functions that the
  definitions take as an argument; nothing is assumed of them.
\<close>

datatype net_proto = IPv6Protocol

record full_address =
  fa_nic :: nat
  fa_addr :: bytes
  fa_port :: "16 word"

text \<open>\<open>tcpip.Address{}\<close>, the value for an address that has no 16-byte form, is the empty byte list.\<close>

definition convert_to_full_addr :: "ip option \<Rightarrow> int \<Rightarrow> full_address \<times> net_proto" where
  "convert_to_full_addr ip port =
     (\<lparr>fa_nic = 1,
       fa_addr = (case to16 ip of None \<Rightarrow> [] | Some b \<Rightarrow> b),
       fa_port = word_of_int port\<rparr>, IPv6Protocol)"

datatype conv_error = SplitErr addr_error | AtoiErr

definition convert_to_full_addr_from_string :: "string \<Rightarrow> conv_error + full_address \<times> net_proto" where
  "convert_to_full_addr_from_string endpoint =
     (case split_host_port endpoint of
        Inl e \<Rightarrow> Inl (SplitErr e)
      | Inr (host, port) \<Rightarrow>
          try_bind (if port \<noteq> '''' then of_option AtoiErr (go_atoi port) else Inr 80) (\<lambda>pn.
          Inr (convert_to_full_addr (parse_ip host) pn)))"

text \<open>The gonet adapters on one stack, as a record of functions.\<close>

record ('ne, 'c, 'l) gonet =
  gn_dial_ctx_tcp :: "full_address \<Rightarrow> net_proto \<Rightarrow> 'ne + 'c"
  gn_dial_tcp :: "full_address \<Rightarrow> net_proto \<Rightarrow> 'ne + 'c"
  gn_dial_udp :: "full_address option \<Rightarrow> full_address option \<Rightarrow> net_proto \<Rightarrow> 'ne + 'c"
  gn_listen_tcp :: "full_address \<Rightarrow> net_proto \<Rightarrow> 'ne + 'l"

datatype 'ne dial_error = ConvErr conv_error | TCPErr 'ne | UDPErr 'ne | NotSupported

definition dial_context :: "('ne, 'c, 'l) gonet \<Rightarrow> string \<Rightarrow> string \<Rightarrow> 'ne dial_error + 'c" where
  "dial_context g network address =
     (case convert_to_full_addr_from_string address of
        Inl e \<Rightarrow> Inl (ConvErr e)
      | Inr (fa, pn) \<Rightarrow>
          if network = ''tcp'' \<or> network = ''tcp6'' then map_sum TCPErr id (gn_dial_ctx_tcp g fa pn)
          else if network = ''udp'' \<or> network = ''udp6'' then
            (case gn_dial_udp g None (Some fa) pn of Inl e \<Rightarrow> Inl (UDPErr e) | Inr c \<Rightarrow> Inr c)
          else Inl NotSupported)"

definition ns_dial_tcp :: "('ne, 'c, 'l) gonet \<Rightarrow> ip option \<Rightarrow> int \<Rightarrow> 'ne + 'c" where
  "ns_dial_tcp g ip port = (case convert_to_full_addr ip port of (fa, pn) \<Rightarrow> gn_dial_tcp g fa pn)"

definition ns_dial_udp :: "('ne, 'c, 'l) gonet \<Rightarrow> ip option \<Rightarrow> int \<Rightarrow> 'ne + 'c" where
  "ns_dial_udp g ip port = (case convert_to_full_addr ip port of (fa, pn) \<Rightarrow> gn_dial_udp g None (Some fa) pn)"

definition ns_listen_tcp :: "('ne, 'c, 'l) gonet \<Rightarrow> ip option \<Rightarrow> int \<Rightarrow> 'ne + 'l" where
  "ns_listen_tcp g ip port = (case convert_to_full_addr ip port of (fa, pn) \<Rightarrow> gn_listen_tcp g fa pn)"

definition ns_listen_udp :: "('ne, 'c, 'l) gonet \<Rightarrow> ip option \<Rightarrow> int \<Rightarrow> 'ne + 'c" where
  "ns_listen_udp g ip port = (case convert_to_full_addr ip port of (fa, pn) \<Rightarrow> gn_dial_udp g (Some fa) None pn)"

subsection \<open>Endpoints\<close>

definition plain_host :: "string \<Rightarrow> bool" where
  "plain_host h \<longleftrightarrow> CHR ''['' \<notin> set h \<and> CHR '']'' \<notin> set h"

lemma split_join_port: "plain_host h \<Longrightarrow> split_host_port (join_host_port h (dec_str n)) = Inr (h, dec_str n)"
  by (simp add: plain_host_def split_join_host_port)

lemma convert_endpoint:
  "plain_host h \<Longrightarrow> n < 2 ^ 63 \<Longrightarrow>
     convert_to_full_addr_from_string (join_host_port h (dec_str n)) =
       Inr (convert_to_full_addr (parse_ip h) (int n))"
  by (simp add: convert_to_full_addr_from_string_def split_join_port go_atoi_dec_str)

lemma full_addr_port_mod: "unat (fa_port (fst (convert_to_full_addr ip (int n)))) = n mod 65536"
  by (simp add: convert_to_full_addr_def unat_of_nat)

text \<open>The port of an endpoint text is what follows its last colon.\<close>

lemma split_host_port_port:
  assumes "split_host_port (h @ '':'' @ p) = Inr (h', p')" "CHR '':'' \<notin> set p"
  shows "p' = p"
proof -
  have l: "last_index_of CHR '':'' (h @ CHR '':'' # p) = Some (length h)"
    using assms(2) by (rule last_index_of_append)
  show ?thesis
    using assms(1) by (auto simp: split_host_port_def l shp_finish_def split: if_splits option.splits)
qed

lemma convert_bad_port:
  assumes "CHR '':'' \<notin> set p" "p \<noteq> ''''" "go_atoi p = None"
  shows "\<exists>e. convert_to_full_addr_from_string (h @ '':'' @ p) = Inl e"
proof (cases "split_host_port (h @ '':'' @ p)")
  case (Inr r)
  then show ?thesis
    using assms split_host_port_port [of h p] by (cases r) (auto simp: convert_to_full_addr_from_string_def)
qed (simp add: convert_to_full_addr_from_string_def)

subsection \<open>Properties\<close>

text \<open>
  dialling \<open>host:port\<close> over TCP reaches the adapter with the 16-byte form of the host and the port
  reduced modulo 65536: a port beyond 65535 is not rejected, it wraps around to another port. The
  statement is for every host text without brackets and every port text of a number below \<open>2^63\<close>.
\<close>

theorem dial_context_port_wraps:
  assumes "plain_host h" "n < 2 ^ 63"
  shows "dial_context g ''tcp'' (join_host_port h (dec_str n)) =
     map_sum TCPErr id (gn_dial_ctx_tcp g
       \<lparr>fa_nic = 1, fa_addr = (case to16 (parse_ip h) of None \<Rightarrow> [] | Some b \<Rightarrow> b), fa_port = of_nat (n mod 65536)\<rparr>
       IPv6Protocol)"
proof -
  have "(word_of_int (int n) :: 16 word) = of_nat (n mod 65536)"
    by (simp add: word_unat_eq_iff unat_of_nat)
  then show ?thesis
    using assms by (simp add: dial_context_def convert_endpoint convert_to_full_addr_def)
qed

theorem dial_context_port_wraps_witness:
  "dial_context \<lparr>gn_dial_ctx_tcp = (\<lambda>fa pn. if fa_port fa = 80 then Inr fa else Inl ()),
     gn_dial_tcp = (\<lambda>fa pn. Inl ()), gn_dial_udp = (\<lambda>l r pn. Inl ()), gn_listen_tcp = (\<lambda>fa pn. Inr ())\<rparr>
     ''tcp'' ''[200::1]:65616'' =
   Inr \<lparr>fa_nic = 1, fa_addr = [2, 0, 0, 0, 0, 0, 0, 0, 0, 0, 0, 0, 0, 0, 0, 1], fa_port = 80\<rparr>"
proof -
  have h: "plain_host ''200::1''" "(65616::nat) < 2 ^ 63"
    by (simp_all add: plain_host_def)
  have e: "join_host_port ''200::1'' (dec_str 65616) = ''[200::1]:65616''"
    by (simp add: join_host_port_def dec_str.simps dec_digit_def)
  have ip: "to16 (parse_ip ''200::1'') = Some [2, 0, 0, 0, 0, 0, 0, 0, 0, 0, 0, 0, 0, 0, 0, 1]"
    by code_simp
  show ?thesis
    using dial_context_port_wraps [OF h, of "\<lparr>gn_dial_ctx_tcp = (\<lambda>fa pn. if fa_port fa = 80 then Inr fa else Inl ()),
     gn_dial_tcp = (\<lambda>fa pn. Inl ()), gn_dial_udp = (\<lambda>l r pn. Inl ()), gn_listen_tcp = (\<lambda>fa pn. Inr ())\<rparr>"] by (simp add: e ip)
qed

text \<open>
  a host text that is not an IP literal, such as a DNS name, is not resolved: the dial goes to the
  zero address, with no error, although the comment on \<open>Obj.DialContext\<close> offers \<open>host:port\<close>.
\<close>

theorem dial_context_name_is_zero_address:
  assumes "plain_host h" "parse_ip h = None" "n < 2 ^ 63"
  shows "dial_context g ''tcp'' (join_host_port h (dec_str n)) =
     map_sum TCPErr id (gn_dial_ctx_tcp g \<lparr>fa_nic = 1, fa_addr = [], fa_port = of_nat n\<rparr> IPv6Protocol)"
  using assms by (simp add: dial_context_def convert_endpoint convert_to_full_addr_def to16_def)

theorem dial_context_name_is_zero_address_witness:
  "dial_context \<lparr>gn_dial_ctx_tcp = (\<lambda>fa pn. if fa_addr fa = [] then Inr fa else Inl ()),
     gn_dial_tcp = (\<lambda>fa pn. Inl ()), gn_dial_udp = (\<lambda>l r pn. Inl ()), gn_listen_tcp = (\<lambda>fa pn. Inr ())\<rparr>
     ''tcp'' ''localhost:80'' =
   Inr \<lparr>fa_nic = 1, fa_addr = [], fa_port = 80\<rparr>"
proof -
  have h: "plain_host ''localhost''" "parse_ip ''localhost'' = None" "(80::nat) < 2 ^ 63"
    by (simp_all add: plain_host_def parse_ip_def)
  have e: "join_host_port ''localhost'' (dec_str 80) = ''localhost:80''"
    by (simp add: join_host_port_def dec_str.simps dec_digit_def)
  show ?thesis
    using dial_context_name_is_zero_address [OF h, of "\<lparr>gn_dial_ctx_tcp = (\<lambda>fa pn. if fa_addr fa = [] then Inr fa else Inl ()),
     gn_dial_tcp = (\<lambda>fa pn. Inl ()), gn_dial_udp = (\<lambda>l r pn. Inl ()), gn_listen_tcp = (\<lambda>fa pn. Inr ())\<rparr>"] by (simp add: e)
qed

end
