(* ===== verification/Resolver.thy ===== *)
theory Resolver
  imports NetAddr
begin

text \<open>
  Name resolution for the SOCKS proxy (\<open>src/types/resolver.go\<close>): names under \<open>.pk.ygg\<close> carry
  the public key of a node and are turned into its address without DNS, every other name is an IP
  literal or goes to the resolver, whose queries travel over the netstack to the configured nameserver.

  Third-party parts are arguments: \<open>addr_for_key\<close> is \<open>address.AddrForKey\<close> of yggdrasil-go and
  \<open>lookup\<close> is \<open>net.Resolver.LookupIP\<close> over the network. Nothing is assumed of them.
\<close>

definition name_mapping_suffix :: string where
  "name_mapping_suffix = ''.pk.ygg''"

definition public_key_size :: nat where
  "public_key_size = 32"

datatype 'le resolve_error =
    HexErr hex_error
  | KeyLength nat
  | LookupFailed string 'le
  | NoAddresses string

definition resolve_key_name :: "(bytes \<Rightarrow> ip) \<Rightarrow> string \<Rightarrow> 'le resolve_error + ip" where
  "resolve_key_name addr_for_key name =
     (let label = after_last CHR ''.'' (cut_suffix name name_mapping_suffix) in
      case hex_decode label of
        Inl e \<Rightarrow> Inl (HexErr e)
      | Inr b \<Rightarrow>
          if length b \<noteq> public_key_size then Inl (KeyLength (length b))
          else Inr (addr_for_key b))"

definition resolve :: "(bytes \<Rightarrow> ip) \<Rightarrow> (string \<Rightarrow> 'le + ip list) \<Rightarrow> string \<Rightarrow> 'le resolve_error + ip" where
  "resolve addr_for_key lookup name =
     (if has_suffix name name_mapping_suffix then resolve_key_name addr_for_key name
      else (case parse_ip name of
          Some ip \<Rightarrow> Inr ip
        | None \<Rightarrow>
            (case lookup name of
               Inl e \<Rightarrow> Inl (LookupFailed name e)
             | Inr [] \<Rightarrow> Inl (NoAddresses name)
             | Inr (a # _) \<Rightarrow> Inr a)))"

text \<open>
  \<open>NewNameResolver\<close> installs a custom dial function when a nameserver is configured; it ignores the
  address the Go resolver asks for and dials the nameserver.
\<close>

definition nameserver_endpoint :: "string \<Rightarrow> string" where
  "nameserver_endpoint ns =
     (case split_host_port ns of
        Inl _ \<Rightarrow> join_host_port ns ''dns''
      | Inr (host, port) \<Rightarrow> join_host_port host port)"

definition new_name_resolver ::
  "('ne, 'c, 'l) gonet \<Rightarrow> string \<Rightarrow> (string \<Rightarrow> string \<Rightarrow> 'ne dial_error + 'c) option" where
  "new_name_resolver g ns =
     (if ns \<noteq> '''' then Some (\<lambda>network address. dial_context g network (nameserver_endpoint ns)) else None)"

subsection \<open>Properties\<close>

text \<open>
  a name \<open>label.label...<hex key>.pk.ygg\<close> resolves to the address of the key, for every 32-byte
  key and with or without a subdomain in front of it.
\<close>

theorem resolve_key:
  assumes "length k = 32"
  shows "resolve ak lk (hex_encode k @ ''.pk.ygg'') = Inr (ak k) \<and>
     resolve ak lk (sub @ ''.'' @ hex_encode k @ ''.pk.ygg'') = Inr (ak k)"
proof -
  have "after_last CHR ''.'' (hex_encode k) = hex_encode k"
    by (rule after_last_no_sep) (rule hex_encode_no_dot)
  moreover have "after_last CHR ''.'' (sub @ CHR ''.'' # hex_encode k) = hex_encode k"
    by (rule after_last_append) (rule hex_encode_no_dot)
  moreover have "cut_suffix (sub @ CHR ''.'' # hex_encode k @ ''.pk.ygg'') ''.pk.ygg'' = sub @ CHR ''.'' # hex_encode k"
      "has_suffix (sub @ CHR ''.'' # hex_encode k @ ''.pk.ygg'') ''.pk.ygg''"
    using cut_suffix_append [of "sub @ CHR ''.'' # hex_encode k" "''.pk.ygg''"]
      has_suffix_append [of "sub @ CHR ''.'' # hex_encode k" "''.pk.ygg''"] by simp_all
  ultimately show ?thesis
    using assms
    by (simp add: resolve_def resolve_key_name_def name_mapping_suffix_def public_key_size_def
        hex_decode_encode del: has_suffix_snoc)
qed

theorem resolve_key_witness:
  "resolve (\<lambda>k. take 16 k) (\<lambda>n. Inl ()) (hex_encode (replicate 32 7) @ ''.pk.ygg'') = Inr (replicate 16 7) \<and>
   resolve (\<lambda>k. take 16 k) (\<lambda>n. Inl ()) (''www'' @ ''.'' @ hex_encode (replicate 32 7) @ ''.pk.ygg'') = Inr (replicate 16 7)"
proof -
  have "length (replicate 32 (7::byte)) = 32" by simp
  from resolve_key [OF this, of "\<lambda>k. take 16 k" "\<lambda>n. Inl ()" "''www''"] show ?thesis by simp
qed

text \<open>
  a name under \<open>.pk.ygg\<close> never reaches DNS, and it resolves only when its last label is the hex text
  of exactly 32 bytes: no short or long key is padded or cut into an address.
\<close>

theorem resolve_key_exact:
  "resolve ak lk (n @ ''.pk.ygg'') = resolve ak lk' (n @ ''.pk.ygg'') \<and>
   (resolve ak lk (n @ ''.pk.ygg'') = Inr a \<longleftrightarrow>
      (\<exists>k. hex_decode (after_last CHR ''.'' n) = Inr k \<and> length k = 32 \<and> a = ak k))"
  by (auto simp: resolve_def resolve_key_name_def name_mapping_suffix_def public_key_size_def
      split: sum.splits)

text \<open>
  a nameserver configured without a port is never reached. The resolver falls back to the service
  name \<open>dns\<close> as the port, which the netstack's endpoint parser rejects, so every dial of the
  resolver fails before the network stack is called.
\<close>

theorem nameserver_without_port_unreachable:
  assumes "split_host_port ns = Inl e" "ns \<noteq> ''''"
  shows "\<exists>d. new_name_resolver g ns = Some d \<and> (\<forall>network address. \<exists>c. d network address = Inl (ConvErr c))"
proof -
  have "\<exists>p. join_host_port ns ''dns'' = p @ '':'' @ ''dns''"
    by (cases "CHR '':'' \<in> set ns") (auto simp: join_host_port_def intro: exI [of _ "''['' @ ns @ '']''"])
  then obtain p where p: "join_host_port ns ''dns'' = p @ '':'' @ ''dns''" ..
  have "\<exists>c. convert_to_full_addr_from_string (p @ '':'' @ ''dns'') = Inl c"
    by (rule convert_bad_port) (simp_all add: go_atoi_def sign_split_def is_digit_def)
  then obtain c where c: "convert_to_full_addr_from_string (p @ '':'' @ ''dns'') = Inl c" ..
  then have "dial_context g network (nameserver_endpoint ns) = Inl (ConvErr c)" for network
    using assms(1) by (simp add: nameserver_endpoint_def p [simplified] dial_context_def)
  then show ?thesis
    using assms(2) by (simp add: new_name_resolver_def)
qed

theorem nameserver_without_port_unreachable_witness:
  "\<exists>d. new_name_resolver \<lparr>gn_dial_ctx_tcp = (\<lambda>fa pn. Inr fa), gn_dial_tcp = (\<lambda>fa pn. Inr fa),
       gn_dial_udp = (\<lambda>l r pn. Inl ()), gn_listen_tcp = (\<lambda>fa pn. Inr ())\<rparr> ''324:71e:281a:9ed3::53'' = Some d \<and>
     (\<forall>network address. \<exists>c. d network address = Inl (ConvErr c))"
proof -
  have "split_host_port ''324:71e:281a:9ed3::53'' = Inl TooManyColons" by code_simp
  then show ?thesis
    by (rule nameserver_without_port_unreachable) simp
qed

end
