(* ===== verification/Activity.thy ===== *)
theory Activity
  imports GoStrings
begin

text \<open>
  Connection accounting (\<open>mod/activity\<close>): the atomic counter of tracked connections, the wrapper
  that notifies the callback when a connection closes, and the generator of connection ids.

  The counter is Go's \<open>atomic.Int64\<close>: a 64-bit word read with its sign. What the callback has been told
  is a list of events, oldest first. A callback may panic, which is an input of the operation.

  The interface \<open>close_once\<close> states what every \<open>sync.Once\<close>-guarded shutdown of the program promises;
  \<open>counted_close\<close> adds the counter it releases. Tracked connections provide it here, UDP sessions and
  the node's components in their own theories.
\<close>

subsection \<open>The interface of a shutdown guarded by \<open>sync.Once\<close>\<close>

locale close_once =
  fixes closed :: "'s \<Rightarrow> bool"
    and close :: "'a \<Rightarrow> 's \<Rightarrow> 's"
  assumes closes: "closed (close a s)"
    and closed_noop: "closed s \<Longrightarrow> close a s = s"
begin

lemma fold_closed: "closed s \<Longrightarrow> fold close as s = s"
  by (induction as) (simp_all add: closed_noop)

lemma close_many: "fold close (a # as) s = close a s"
  by (simp add: fold_closed closes)

lemma close_twice: "close b (close a s) = close a s"
  by (rule closed_noop) (rule closes)

end

locale counted_close = close_once +
  fixes count :: "'s \<Rightarrow> int64"
  assumes count_close: "\<not> closed s \<Longrightarrow> count (close a s) = count s - 1"
begin

lemma count_close_many: "\<not> closed s \<Longrightarrow> count (fold close (a # as) s) = count s - 1"
  by (simp add: fold_closed closes count_close)

end

subsection \<open>Counter\<close>

definition counter_increment :: "int64 \<Rightarrow> int64" where
  "counter_increment c = c + 1"

definition counter_decrement :: "int64 \<Rightarrow> int64" where
  "counter_decrement c = c - 1"

definition counter_count :: "int64 \<Rightarrow> int" where
  "counter_count c = sint c"

lemma counter_inc_dec [simp]: "counter_decrement (counter_increment c) = c"
  by (simp add: counter_increment_def counter_decrement_def)

subsection \<open>Tracked connections\<close>

datatype activity_event = ConnCreated string string | ConnClosed string

record activity =
  act_counter :: int64
  act_events :: "activity_event list"

definition on_created :: "string \<Rightarrow> string \<Rightarrow> activity \<Rightarrow> activity" where
  "on_created cid proto a = a\<lparr>act_events := act_events a @ [ConnCreated cid proto]\<rparr>"

definition on_closed :: "string \<Rightarrow> activity \<Rightarrow> activity" where
  "on_closed cid a = a\<lparr>act_events := act_events a @ [ConnClosed cid]\<rparr>"

definition act_increment :: "activity \<Rightarrow> activity" where
  "act_increment a = a\<lparr>act_counter := counter_increment (act_counter a)\<rparr>"

definition act_decrement :: "activity \<Rightarrow> activity" where
  "act_decrement a = a\<lparr>act_counter := counter_decrement (act_counter a)\<rparr>"

record tracked_conn =
  tc_id :: string
  tc_once :: bool
  tc_inner_closed :: bool

datatype 'e close_result = CloseReturned "'e option" | ClosePanicked

text \<open>
  \<open>Close\<close>: \<open>panics\<close> says whether \<open>OnConnectionClosed\<close> panics, \<open>inner\<close> is the error of the wrapped
  connection. The decrement is deferred, so it happens on both ways out; the panic skips the inner close.
\<close>

definition tracked_close ::
  "bool \<Rightarrow> 'e option \<Rightarrow> tracked_conn \<times> activity \<Rightarrow> 'e close_result \<times> tracked_conn \<times> activity" where
  "tracked_close panics inner s = (case s of (t, a) \<Rightarrow>
     if tc_once t then (CloseReturned None, t, a)
     else
       let t1 = t\<lparr>tc_once := True\<rparr>; a1 = on_closed (tc_id t) a in
       if panics then (ClosePanicked, t1, act_decrement a1)
       else (CloseReturned inner, t1\<lparr>tc_inner_closed := True\<rparr>, act_decrement a1))"

abbreviation tracked_close_state :: "bool \<times> 'e option \<Rightarrow> tracked_conn \<times> activity \<Rightarrow> tracked_conn \<times> activity" where
  "tracked_close_state x s \<equiv> snd (tracked_close (fst x) (snd x) s)"

interpretation tracked: counted_close "\<lambda>s. tc_once (fst s)" tracked_close_state "\<lambda>s. act_counter (snd s)"
  by unfold_locales
     (auto simp: tracked_close_def Let_def act_decrement_def on_closed_def counter_decrement_def
       split: prod.splits)

subsection \<open>Connection ids\<close>

definition generate_conn_id :: "string \<Rightarrow> string \<Rightarrow> int64 \<Rightarrow> int64 \<times> string" where
  "generate_conn_id pfx addr c =
     (let i = c + 1 in (i, pfx @ ''-'' @ addr @ ''-'' @ dec_str (unat i)))"

fun generate_ids :: "(string \<times> string) list \<Rightarrow> int64 \<Rightarrow> string list" where
  "generate_ids [] c = []"
| "generate_ids ((p, a) # rs) c =
     (case generate_conn_id p a c of (c', s) \<Rightarrow> s # generate_ids rs c')"

lemma conn_id_number: "after_last CHR ''-'' (snd (generate_conn_id p a c)) = dec_str (unat (c + 1))"
  using after_last_append [of "CHR ''-''" "dec_str (unat (c + 1))" "p @ ''-'' @ a"]
  by (simp add: generate_conn_id_def Let_def)

lemma conn_id_inj:
  "snd (generate_conn_id p a c) = snd (generate_conn_id q b d) \<Longrightarrow> c = d"
proof -
  assume "snd (generate_conn_id p a c) = snd (generate_conn_id q b d)"
  then have "dec_str (unat (c + 1)) = dec_str (unat (d + 1))"
    by (metis conn_id_number)
  then show "c = d"
    by (simp add: dec_str_inj flip: word_unat_eq_iff)
qed

lemma generate_ids_nth:
  "generate_ids rs c = map (\<lambda>i. snd (generate_conn_id (fst (rs ! i)) (snd (rs ! i)) (c + of_nat i))) [0..<length rs]"
proof (induction rs arbitrary: c)
  case (Cons r rs)
  obtain p a where r: "r = (p, a)" by (cases r) auto
  have "[0..<length (r # rs)] = 0 # map Suc [0..<length rs]"
    by (simp add: upt_conv_Cons map_Suc_upt del: upt_Suc)
  then show ?case
    using Cons.IH [of "c + 1"]
    by (simp add: r generate_conn_id_def Let_def algebra_simps comp_def)
qed simp

lemma of_nat_word_inj: "i < 2 ^ 64 \<Longrightarrow> j < 2 ^ 64 \<Longrightarrow> (of_nat i :: int64) = of_nat j \<longleftrightarrow> i = j"
  by (simp add: word_unat_eq_iff unat_of_nat)

subsection \<open>Properties\<close>

text \<open>
  connection ids are unique: any run of at most \<open>2^64\<close> calls of the generator, with whatever
  prefixes and addresses and from whatever value of the global counter, returns distinct ids.
\<close>

theorem conn_ids_distinct:
  assumes "length rs \<le> 2 ^ 64"
  shows "distinct (generate_ids rs c)"
proof -
  have "inj_on (\<lambda>i. snd (generate_conn_id (fst (rs ! i)) (snd (rs ! i)) (c + of_nat i))) {0..<length rs}"
  proof (rule inj_onI)
    fix i j assume "i \<in> {0..<length rs}" "j \<in> {0..<length rs}"
      and "snd (generate_conn_id (fst (rs ! i)) (snd (rs ! i)) (c + of_nat i)) =
           snd (generate_conn_id (fst (rs ! j)) (snd (rs ! j)) (c + of_nat j))"
    then show "i = j"
      using assms conn_id_inj by (fastforce simp: of_nat_word_inj)
  qed
  then show ?thesis
    by (simp add: generate_ids_nth distinct_map)
qed

theorem conn_ids_distinct_witness:
  "distinct (generate_ids [(''socks'', ''[200::1]:80''), (''socks'', ''[200::1]:80''), (''udp'', ''a-b'')] 0)"
  by (rule conn_ids_distinct) simp

text \<open>
  closing a tracked connection any number of times, with any outcomes of the callback, notifies the
  callback once and lowers the counter once; the inner connection is closed exactly when the callback of
  that first close did not panic.
\<close>

theorem tracked_close_once:
  assumes "\<not> tc_once t"
  shows "fold tracked_close_state ((panics, inner) # xs) (t, a) =
     (t\<lparr>tc_once := True, tc_inner_closed := (tc_inner_closed t \<or> \<not> panics)\<rparr>,
      a\<lparr>act_counter := act_counter a - 1, act_events := act_events a @ [ConnClosed (tc_id t)]\<rparr>)"
  unfolding tracked.close_many using assms
  by (simp add: tracked_close_def Let_def act_decrement_def on_closed_def counter_decrement_def)

theorem tracked_close_once_witness:
  "fold tracked_close_state [(False, None :: nat option), (True, Some 3)]
     (\<lparr>tc_id = ''tcp-1'', tc_once = False, tc_inner_closed = False\<rparr>, \<lparr>act_counter = 5, act_events = []\<rparr>) =
   (\<lparr>tc_id = ''tcp-1'', tc_once = True, tc_inner_closed = True\<rparr>, \<lparr>act_counter = 4, act_events = [ConnClosed ''tcp-1'']\<rparr>)"
proof -
  have "\<not> tc_once \<lparr>tc_id = ''tcp-1'', tc_once = False, tc_inner_closed = False\<rparr>" by simp
  from tracked_close_once [OF this, of False "None :: nat option" "[(True, Some 3)]" "\<lparr>act_counter = 5, act_events = []\<rparr>"]
  show ?thesis by simp
qed

end
