(* ===== verification/Proxies.thy ===== *)
theory Proxies
  imports GoPrelude
begin

text \<open>
  The two data pumps: \<open>ProxyTCP\<close> (\<open>src/types/tcpproxy.go\<close>) as a step relation of its three
  goroutines, and \<open>ReverseProxyUDP\<close> (\<open>src/types/udpproxy.go\<close>) as a run over the results of its
  reads.

  In \<open>ProxyTCP\<close> two copiers each move bytes one way and then send on \<open>errCh\<close>, a channel of capacity
  2; the caller waits for the first, closes both connections, and waits for the second or a timeout. A
  copier may end at any time (end of file, an error, or a connection closed under it), and the timer may
  fire at any time once it is armed: the relation contains every interleaving.
\<close>

subsection \<open>ProxyTCP\<close>

datatype copier = Copying | Sending | Finished

datatype proxy_pc = WaitFirst | CloseC1 | CloseC2 | WaitSecond | Returned

record proxy =
  px_pc :: proxy_pc
  px_copy1 :: copier          \<comment> \<open>\<open>io.Copy(c1, c2)\<close>\<close>
  px_copy2 :: copier          \<comment> \<open>\<open>io.Copy(c2, c1)\<close>\<close>
  px_chan :: nat              \<comment> \<open>values buffered in \<open>errCh\<close>\<close>
  px_closes1 :: nat           \<comment> \<open>calls of \<open>c1.Close\<close>\<close>
  px_closes2 :: nat
  px_in1 :: bytes             \<comment> \<open>bytes that can still be read from \<open>c1\<close>\<close>
  px_in2 :: bytes
  px_out1 :: bytes            \<comment> \<open>bytes written to \<open>c1\<close>\<close>
  px_out2 :: bytes

definition err_ch_cap :: nat where
  "err_ch_cap = 2"

definition proxy_init :: "bytes \<Rightarrow> bytes \<Rightarrow> proxy" where
  "proxy_init i1 i2 = \<lparr>px_pc = WaitFirst, px_copy1 = Copying, px_copy2 = Copying, px_chan = 0,
     px_closes1 = 0, px_closes2 = 0, px_in1 = i1, px_in2 = i2, px_out1 = [], px_out2 = []\<rparr>"

inductive proxy_step :: "proxy \<Rightarrow> proxy \<Rightarrow> bool" where
  copy1_move: "px_copy1 s = Copying \<Longrightarrow> px_in2 s = ch @ rest \<Longrightarrow> ch \<noteq> [] \<Longrightarrow>
     proxy_step s (s\<lparr>px_in2 := rest, px_out1 := px_out1 s @ ch\<rparr>)"
| copy2_move: "px_copy2 s = Copying \<Longrightarrow> px_in1 s = ch @ rest \<Longrightarrow> ch \<noteq> [] \<Longrightarrow>
     proxy_step s (s\<lparr>px_in1 := rest, px_out2 := px_out2 s @ ch\<rparr>)"
| copy1_end: "px_copy1 s = Copying \<Longrightarrow> proxy_step s (s\<lparr>px_copy1 := Sending\<rparr>)"
| copy2_end: "px_copy2 s = Copying \<Longrightarrow> proxy_step s (s\<lparr>px_copy2 := Sending\<rparr>)"
| copy1_send: "px_copy1 s = Sending \<Longrightarrow> px_chan s < err_ch_cap \<Longrightarrow>
     proxy_step s (s\<lparr>px_copy1 := Finished, px_chan := px_chan s + 1\<rparr>)"
| copy2_send: "px_copy2 s = Sending \<Longrightarrow> px_chan s < err_ch_cap \<Longrightarrow>
     proxy_step s (s\<lparr>px_copy2 := Finished, px_chan := px_chan s + 1\<rparr>)"
| first_done: "px_pc s = WaitFirst \<Longrightarrow> 0 < px_chan s \<Longrightarrow>
     proxy_step s (s\<lparr>px_pc := CloseC1, px_chan := px_chan s - 1\<rparr>)"
| close_c1: "px_pc s = CloseC1 \<Longrightarrow> proxy_step s (s\<lparr>px_pc := CloseC2, px_closes1 := px_closes1 s + 1\<rparr>)"
| close_c2: "px_pc s = CloseC2 \<Longrightarrow> proxy_step s (s\<lparr>px_pc := WaitSecond, px_closes2 := px_closes2 s + 1\<rparr>)"
| second_done: "px_pc s = WaitSecond \<Longrightarrow> 0 < px_chan s \<Longrightarrow>
     proxy_step s (s\<lparr>px_pc := Returned, px_chan := px_chan s - 1\<rparr>)"
| second_timeout: "px_pc s = WaitSecond \<Longrightarrow> proxy_step s (s\<lparr>px_pc := Returned\<rparr>)"

inductive proxy_reach :: "bytes \<Rightarrow> bytes \<Rightarrow> proxy \<Rightarrow> bool" for i1 i2 where
  start: "proxy_reach i1 i2 (proxy_init i1 i2)"
| step: "proxy_reach i1 i2 s \<Longrightarrow> proxy_step s t \<Longrightarrow> proxy_reach i1 i2 t"

definition finished_count :: "proxy \<Rightarrow> nat" where
  "finished_count s = of_bool (px_copy1 s = Finished) + of_bool (px_copy2 s = Finished)"

text \<open>
  The invariant: every value sent was received once or is still buffered (a timeout may leave the second
  one), the close counts follow the caller's program counter, and each direction delivers its input in order.
\<close>

definition received :: "proxy \<Rightarrow> nat set" where
  "received s = (case px_pc s of WaitFirst \<Rightarrow> {0} | Returned \<Rightarrow> {1, 2} | _ \<Rightarrow> {1})"

definition proxy_inv :: "bytes \<Rightarrow> bytes \<Rightarrow> proxy \<Rightarrow> bool" where
  "proxy_inv i1 i2 s \<longleftrightarrow>
     (\<exists>r \<in> received s. px_chan s + r = finished_count s) \<and>
     px_closes1 s = of_bool (px_pc s = CloseC2 \<or> px_pc s = WaitSecond \<or> px_pc s = Returned) \<and>
     px_closes2 s = of_bool (px_pc s = WaitSecond \<or> px_pc s = Returned) \<and>
     px_out1 s @ px_in2 s = i2 \<and> px_out2 s @ px_in1 s = i1"

lemma proxy_inv_init: "proxy_inv i1 i2 (proxy_init i1 i2)"
  by (simp add: proxy_inv_def proxy_init_def received_def finished_count_def)

lemma proxy_step_inv: "proxy_step s t \<Longrightarrow> proxy_inv i1 i2 s \<Longrightarrow> proxy_inv i1 i2 t"
  by (induction rule: proxy_step.induct)
     (auto simp: proxy_inv_def received_def finished_count_def split: proxy_pc.splits)

lemma proxy_reach_inv: "proxy_reach i1 i2 s \<Longrightarrow> proxy_inv i1 i2 s"
  by (induction rule: proxy_reach.induct) (auto intro: proxy_inv_init proxy_step_inv)

lemma proxy_chan_room:
  "proxy_inv i1 i2 s \<Longrightarrow> px_copy1 s = Sending \<or> px_copy2 s = Sending \<Longrightarrow> px_chan s < err_ch_cap"
  by (auto simp: proxy_inv_def finished_count_def err_ch_cap_def of_bool_def split: if_splits)

subsection \<open>The proxy always returns\<close>

definition copier_left :: "copier \<Rightarrow> nat" where
  "copier_left c = (case c of Copying \<Rightarrow> 2 | Sending \<Rightarrow> 1 | Finished \<Rightarrow> 0)"

definition pc_left :: "proxy_pc \<Rightarrow> nat" where
  "pc_left p = (case p of WaitFirst \<Rightarrow> 4 | CloseC1 \<Rightarrow> 3 | CloseC2 \<Rightarrow> 2 | WaitSecond \<Rightarrow> 1 | Returned \<Rightarrow> 0)"

definition proxy_measure :: "proxy \<Rightarrow> nat" where
  "proxy_measure s = copier_left (px_copy1 s) + copier_left (px_copy2 s) + pc_left (px_pc s) +
     length (px_in1 s) + length (px_in2 s)"

lemma proxy_step_measure: "proxy_step s t \<Longrightarrow> proxy_measure t < proxy_measure s"
  by (induction rule: proxy_step.induct) (auto simp: proxy_measure_def copier_left_def pc_left_def)

lemma proxy_run_measure: "(proxy_step ^^ n) s t \<Longrightarrow> n + proxy_measure t \<le> proxy_measure s"
proof (induction n arbitrary: t)
  case (Suc n)
  then obtain u where "(proxy_step ^^ n) s u" "proxy_step u t" by auto
  with Suc.IH [of u] proxy_step_measure [of u t] show ?case by simp
qed simp

lemma proxy_run_reach: "(proxy_step ^^ n) (proxy_init i1 i2) t \<Longrightarrow> proxy_reach i1 i2 t"
  by (induction n arbitrary: t) (auto intro: proxy_reach.intros)

lemma proxy_progress:
  assumes "proxy_inv i1 i2 s" "\<nexists>t. proxy_step s t"
  shows "px_pc s = Returned \<and> px_copy1 s = Finished \<and> px_copy2 s = Finished"
proof -
  have c1: "px_copy1 s = Finished"
    using assms proxy_chan_room [OF assms(1)] by (cases "px_copy1 s") (blast intro: proxy_step.intros)+
  have c2: "px_copy2 s = Finished"
    using assms proxy_chan_room [OF assms(1)] by (cases "px_copy2 s") (blast intro: proxy_step.intros)+
  have "px_pc s = Returned"
  proof (cases "px_pc s")
    case WaitFirst
    with c1 c2 assms(1) have "0 < px_chan s"
      by (simp add: proxy_inv_def received_def finished_count_def)
    with WaitFirst assms(2) show ?thesis by (blast intro: first_done)
  qed (use assms(2) in \<open>blast intro: proxy_step.intros\<close>)+
  with c1 c2 show ?thesis by simp
qed

subsection \<open>ReverseProxyUDP\<close>

text \<open>
  One turn of the loop: what \<open>src.Read\<close> yields (an error, or a datagram), what \<open>ctx.Err()\<close> is when the
  read has failed, and what \<open>dst.WriteTo\<close> returns. The buffer has \<open>mtu\<close> bytes, so a longer datagram
  is cut. A cancelled context makes the blocked read fail, through the deadline the watcher sets.
\<close>

record ('e, 'c) udp_turn =
  ut_read :: "'e + bytes"
  ut_ctx_err :: "'c option"
  ut_write :: "'e option"

datatype ('e, 'c) udp_exit = CtxErr 'c | ReadErr 'e | WriteErr 'e

text \<open>
  The result is the list of datagrams handed to \<open>dst.WriteTo\<close> and the error returned, or \<open>None\<close> while
  the loop is still waiting in \<open>Read\<close>.
\<close>

fun reverse_proxy_udp :: "nat \<Rightarrow> ('e, 'c) udp_turn list \<Rightarrow> bytes list \<times> ('e, 'c) udp_exit option" where
  "reverse_proxy_udp mtu [] = ([], None)"
| "reverse_proxy_udp mtu (u # us) =
     (case ut_read u of
        Inl e \<Rightarrow> ([], Some (case ut_ctx_err u of Some c \<Rightarrow> CtxErr c | None \<Rightarrow> ReadErr e))
      | Inr d \<Rightarrow>
          let p = take mtu d in
          if 0 < length p then
            (case ut_write u of
               Some e \<Rightarrow> ([p], Some (WriteErr e))
             | None \<Rightarrow> (case reverse_proxy_udp mtu us of (ps, r) \<Rightarrow> (p # ps, r)))
          else reverse_proxy_udp mtu us)"

definition turn_data :: "('e, 'c) udp_turn \<Rightarrow> bytes" where
  "turn_data u = (case ut_read u of Inl _ \<Rightarrow> [] | Inr d \<Rightarrow> d)"

text \<open>A turn that keeps the loop running: data was read, and was written where there was any.\<close>

definition turn_ok :: "nat \<Rightarrow> ('e, 'c) udp_turn \<Rightarrow> bool" where
  "turn_ok mtu u \<longleftrightarrow> (\<exists>d. ut_read u = Inr d \<and> (take mtu d = [] \<or> ut_write u = None))"

lemma reverse_proxy_udp_ok:
  "list_all (turn_ok mtu) us \<Longrightarrow> reverse_proxy_udp mtu (us @ vs) =
     (case reverse_proxy_udp mtu vs of (ps, r) \<Rightarrow>
        (filter (\<lambda>p. p \<noteq> []) (map (take mtu \<circ> turn_data) us) @ ps, r))"
  by (induction us) (auto simp: turn_ok_def turn_data_def split: prod.splits)

subsection \<open>Properties\<close>

text \<open>
  C6: when \<open>ProxyTCP\<close> returns, in any interleaving of its goroutines, both connections have been closed
  exactly once, and what each side received is a prefix of what the other side sent, in order.
\<close>

theorem proxy_closes_both:
  assumes "proxy_reach i1 i2 s" "px_pc s = Returned"
  shows "px_closes1 s = 1 \<and> px_closes2 s = 1 \<and> px_out1 s @ px_in2 s = i2 \<and> px_out2 s @ px_in1 s = i1"
  using proxy_reach_inv [OF assms(1)] assms(2) by (simp add: proxy_inv_def)

theorem proxy_closes_both_witness:
  "\<exists>s. proxy_reach [1, 2] [3] s \<and> px_pc s = Returned \<and> px_closes1 s = 1 \<and> px_closes2 s = 1"
proof -
  let ?s = "proxy_init [1, 2] [3]"
  have "proxy_reach [1, 2] [3] (?s\<lparr>px_in2 := [], px_out1 := [3], px_copy1 := Finished, px_chan := 0,
      px_closes1 := 1, px_closes2 := 1, px_pc := Returned\<rparr>)" (is "proxy_reach _ _ ?r")
  proof -
    have "proxy_reach [1, 2] [3] ?s" by (rule proxy_reach.start)
    from proxy_reach.step [OF this copy1_move [of _ "[3]" "[]"]]
    have "proxy_reach [1, 2] [3] (?s\<lparr>px_in2 := [], px_out1 := [3]\<rparr>)"
      by (simp add: proxy_init_def)
    from proxy_reach.step [OF proxy_reach.step [OF this copy1_end] copy1_send]
    have "proxy_reach [1, 2] [3] (?s\<lparr>px_in2 := [], px_out1 := [3], px_copy1 := Finished, px_chan := 1\<rparr>)"
      by (simp add: proxy_init_def err_ch_cap_def)
    from proxy_reach.step [OF proxy_reach.step [OF this first_done] close_c1]
    have "proxy_reach [1, 2] [3] (?s\<lparr>px_in2 := [], px_out1 := [3], px_copy1 := Finished, px_chan := 0,
        px_closes1 := 1, px_pc := CloseC2\<rparr>)"
      by (simp add: proxy_init_def)
    from proxy_reach.step [OF proxy_reach.step [OF this close_c2] second_timeout]
    show ?thesis
      by (simp add: proxy_init_def)
  qed
  moreover have "px_pc ?r = Returned" by simp
  ultimately show ?thesis
    using proxy_closes_both [of "[1, 2]" "[3]" ?r] by blast
qed

text \<open>
  C7: \<open>ProxyTCP\<close> terminates and leaks no goroutine: a run makes at most as many steps as there are bytes
  to move plus 8, and where no step is left the call has returned and both copiers have ended; no copier
  is ever blocked on the channel.
\<close>

theorem proxy_terminates:
  assumes "(proxy_step ^^ n) (proxy_init i1 i2) s"
  shows "n \<le> length i1 + length i2 + 8 \<and>
     ((\<exists>t. proxy_step s t) \<or> (px_pc s = Returned \<and> px_copy1 s = Finished \<and> px_copy2 s = Finished)) \<and>
     (px_copy1 s = Sending \<or> px_copy2 s = Sending \<longrightarrow> px_chan s < err_ch_cap)"
proof (intro conjI)
  have inv: "proxy_inv i1 i2 s"
    using assms by (intro proxy_reach_inv proxy_run_reach)
  show "n \<le> length i1 + length i2 + 8"
    using proxy_run_measure [OF assms]
    by (simp add: proxy_measure_def proxy_init_def copier_left_def pc_left_def)
  show "(\<exists>t. proxy_step s t) \<or> (px_pc s = Returned \<and> px_copy1 s = Finished \<and> px_copy2 s = Finished)"
    using proxy_progress [OF inv] by blast
  show "px_copy1 s = Sending \<or> px_copy2 s = Sending \<longrightarrow> px_chan s < err_ch_cap"
    using proxy_chan_room [OF inv] by blast
qed

theorem proxy_terminates_witness:
  "\<exists>s. (proxy_step ^^ 1) (proxy_init [1] []) s \<and> px_copy2 s = Sending \<and> (\<exists>t. proxy_step s t)"
proof -
  let ?s = "(proxy_init [1] [])\<lparr>px_copy2 := Sending\<rparr>"
  have r: "(proxy_step ^^ 1) (proxy_init [1] []) ?s"
    using copy2_end [of "proxy_init [1] []"] by (simp add: proxy_init_def relpowp_1 del: One_nat_def)
  have "px_copy2 ?s = Sending" "px_pc ?s \<noteq> Returned"
    by (simp_all add: proxy_init_def)
  with proxy_terminates [OF r] r show ?thesis by blast
qed

text \<open>
  \<open>ReverseProxyUDP\<close> forwards exactly the non-empty datagrams, cut to the buffer and in order, up to
  the first failing read, and then returns the context's error when the context was cancelled and the
  read error otherwise.
\<close>

theorem reverse_proxy_udp_forwards:
  assumes "list_all (turn_ok mtu) us" "ut_read u = Inl e"
  shows "reverse_proxy_udp mtu (us @ u # vs) =
     (filter (\<lambda>p. p \<noteq> []) (map (take mtu \<circ> turn_data) us),
      Some (case ut_ctx_err u of Some c \<Rightarrow> CtxErr c | None \<Rightarrow> ReadErr e))"
  using assms by (simp add: reverse_proxy_udp_ok)

theorem reverse_proxy_udp_forwards_witness:
  "reverse_proxy_udp 2
     [\<lparr>ut_read = Inr [1, 2, 3], ut_ctx_err = None, ut_write = None\<rparr>,
      \<lparr>ut_read = Inr [], ut_ctx_err = None, ut_write = Some ''unused''\<rparr>,
      \<lparr>ut_read = Inl ''deadline'', ut_ctx_err = Some (), ut_write = None\<rparr>] = ([[1, 2]], Some (CtxErr ()))"
proof -
  have h: "list_all (turn_ok 2) [\<lparr>ut_read = Inr [1, 2, 3], ut_ctx_err = None, ut_write = None\<rparr>,
      \<lparr>ut_read = Inr [], ut_ctx_err = None, ut_write = Some ''unused''\<rparr> :: (string, unit) udp_turn]"
    by (simp add: turn_ok_def)
  from reverse_proxy_udp_forwards [OF h, of "\<lparr>ut_read = Inl ''deadline'', ut_ctx_err = Some (), ut_write = None\<rparr>" "''deadline''" "[]"]
  show ?thesis by (simp add: turn_data_def)
qed

end
