(* ===== verification/UdpSessions.thy ===== *)
theory UdpSessions
  imports Activity "HOL-Library.AList" "HOL-Library.Multiset"
begin

text \<open>
  UDP forwarding (\<open>mod/mapping/udp.go\<close>, \<open>udp_session.go\<close>, \<open>udp_session_func.go\<close>): the session map, the
  once-only shutdown of a session, the receive loop \<open>runUDPLoop\<close> and the periodic cleanup.

  Sessions are Go objects shared by pointer between the loop, the map and the cleanup's snapshot, so they
  live in a heap \<open>ud_heap\<close> indexed by pointer; the map holds pointers. The two goroutines interleave:
  \<open>udp_step\<close> has one rule per access to the map or to a session the other goroutine can see. The
  creation of a session is one step, since nobody sees it before it is stored, and so is its shutdown, which
  runs under \<open>sync.Once\<close>. The same accesses, run without interference, are the functions
  \<open>udp_packet\<close>, \<open>udp_sweep\<close> and \<open>udp_final_close\<close>.
\<close>

subsection \<open>The session map\<close>

text \<open>What the loop and the cleanup rely on of the map they share.\<close>

locale session_map =
  fixes empty :: 'm
    and load :: "'m \<Rightarrow> string \<Rightarrow> 'v option"
    and store :: "string \<Rightarrow> 'v \<Rightarrow> 'm \<Rightarrow> 'm"
    and delete :: "string \<Rightarrow> 'm \<Rightarrow> 'm"
    and entries :: "'m \<Rightarrow> (string \<times> 'v) list"
    and invar :: "'m \<Rightarrow> bool"
  assumes load_empty: "load empty = Map.empty"
    and load_store: "load (store k v m) = (load m)(k \<mapsto> v)"
    and load_delete: "load (delete k m) = (load m)(k := None)"
    and load_entries: "invar m \<Longrightarrow> load m k = Some v \<longleftrightarrow> (k, v) \<in> set (entries m)"
    and invar_empty: "invar empty"
    and invar_store: "invar m \<Longrightarrow> invar (store k v m)"
    and invar_delete: "invar m \<Longrightarrow> invar (delete k m)"
begin

lemma mem_entries: "invar m \<Longrightarrow> e \<in> set (entries m) \<longleftrightarrow> load m (fst e) = Some (snd e)"
  using load_entries [of m "fst e" "snd e"] by simp

lemma entries_store_new:
  "invar m \<Longrightarrow> load m k = None \<Longrightarrow> set (entries (store k v m)) = insert (k, v) (set (entries m))"
  by (rule set_eqI) (auto simp: mem_entries invar_store load_store split: if_splits)

lemma entries_delete:
  "invar m \<Longrightarrow> set (entries (delete k m)) = {e \<in> set (entries m). fst e \<noteq> k}"
  by (rule set_eqI) (auto simp: mem_entries invar_delete load_delete split: if_splits)

lemma entries_store_subset:
  "invar m \<Longrightarrow> set (entries (store k v m)) \<subseteq> insert (k, v) (set (entries m))"
  by (rule subsetI) (auto simp: mem_entries invar_store load_store split: if_splits)

lemma entries_key_unique:
  "invar m \<Longrightarrow> (k, v) \<in> set (entries m) \<Longrightarrow> (k, w) \<in> set (entries m) \<Longrightarrow> v = w"
  by (simp add: mem_entries)

end

type_synonym 'v session_tab = "(string \<times> 'v) list"

definition new_session_map :: "'v session_tab" where
  "new_session_map = []"

definition sm_load :: "'v session_tab \<Rightarrow> string \<Rightarrow> 'v option" where
  "sm_load m k = map_of m k"

definition sm_store :: "string \<Rightarrow> 'v \<Rightarrow> 'v session_tab \<Rightarrow> 'v session_tab" where
  "sm_store k v m = AList.update k v m"

definition sm_delete :: "string \<Rightarrow> 'v session_tab \<Rightarrow> 'v session_tab" where
  "sm_delete k m = AList.delete k m"

text \<open>
  \<open>Range\<close> copies the keys and values under the read lock and then calls the function on the copy. Go
  visits a map in any order, so the copy is any list with the entries of the map.
\<close>

definition sm_snapshot :: "'v session_tab \<Rightarrow> (string \<times> 'v) list \<Rightarrow> bool" where
  "sm_snapshot m es \<longleftrightarrow> mset es = mset m"

text \<open>The range stops at the first call that returns false.\<close>

fun sm_range :: "(string \<Rightarrow> 'v \<Rightarrow> 's \<Rightarrow> bool \<times> 's) \<Rightarrow> (string \<times> 'v) list \<Rightarrow> 's \<Rightarrow> 's" where
  "sm_range f [] s = s"
| "sm_range f ((k, v) # es) s = (case f k v s of (go, t) \<Rightarrow> if go then sm_range f es t else t)"

abbreviation sm_inv :: "'v session_tab \<Rightarrow> bool" where
  "sm_inv m \<equiv> distinct (map fst m)"

interpretation sm: session_map new_session_map sm_load sm_store sm_delete "\<lambda>m. m" sm_inv
  by unfold_locales
     (auto simp: new_session_map_def sm_load_def sm_store_def sm_delete_def update_conv' delete_conv'
       distinct_update distinct_delete fun_eq_iff)

subsection \<open>Sessions and the shared state\<close>

record session =
  us_remote :: string
  us_last :: int            \<comment> \<open>\<open>LastActivity\<close>, in milliseconds\<close>
  us_conn_id :: string      \<comment> \<open>empty when the callback is nil\<close>
  us_tracked :: bool        \<comment> \<open>\<open>Callback != nil\<close>\<close>
  us_once :: bool           \<comment> \<open>\<open>CloseOnce\<close> has run\<close>
  us_ctx_cancelled :: bool
  us_conn_closed :: bool

record udp_shared =
  ud_heap :: "nat \<Rightarrow> session"
  ud_next :: nat
  ud_map :: "nat session_tab"
  ud_act :: activity
  ud_ids :: int64

record udp_cfg =
  uc_callback :: bool       \<comment> \<open>\<open>cb != nil\<close>\<close>
  uc_prefix :: string
  uc_timeout :: int         \<comment> \<open>\<open>timeout.Milliseconds()\<close>\<close>

definition close_udp_session :: "nat \<Rightarrow> 'a udp_shared_scheme \<Rightarrow> 'a udp_shared_scheme" where
  "close_udp_session sid s = (let o1 = ud_heap s sid in
     if us_once o1 then s
     else s\<lparr>ud_heap := (ud_heap s)(sid := o1\<lparr>us_once := True, us_ctx_cancelled := True, us_conn_closed := True\<rparr>),
            ud_act := (if us_tracked o1 \<and> us_conn_id o1 \<noteq> ''''
                       then act_decrement (on_closed (us_conn_id o1) (ud_act s)) else ud_act s)\<rparr>)"

interpretation session: close_once "\<lambda>s. us_once (ud_heap s sid)" "\<lambda>_ :: unit. close_udp_session sid" for sid
  by unfold_locales (simp_all add: close_udp_session_def Let_def)

text \<open>A new session for an unseen source, before it is stored in the map.\<close>

definition udp_create :: "udp_cfg \<Rightarrow> string \<Rightarrow> int \<Rightarrow> 'a udp_shared_scheme \<Rightarrow> nat \<times> 'a udp_shared_scheme" where
  "udp_create cfg k now s =
     (let sid = ud_next s;
          sess = \<lparr>us_remote = k, us_last = now, us_conn_id = '''', us_tracked = False, us_once = False,
                  us_ctx_cancelled = False, us_conn_closed = False\<rparr>
      in if uc_callback cfg then
           (case generate_conn_id (uc_prefix cfg) k (ud_ids s) of (ids, cid) \<Rightarrow>
              (sid, s\<lparr>ud_heap := (ud_heap s)(sid := sess\<lparr>us_conn_id := cid, us_tracked := True\<rparr>),
                     ud_next := sid + 1, ud_ids := ids,
                     ud_act := act_increment (on_created cid ''udp'' (ud_act s))\<rparr>))
         else (sid, s\<lparr>ud_heap := (ud_heap s)(sid := sess), ud_next := sid + 1\<rparr>))"

definition udp_store :: "string \<Rightarrow> nat \<Rightarrow> 'a udp_shared_scheme \<Rightarrow> 'a udp_shared_scheme" where
  "udp_store k sid s = s\<lparr>ud_map := sm_store k sid (ud_map s)\<rparr>"

definition udp_delete :: "string \<Rightarrow> 'a udp_shared_scheme \<Rightarrow> 'a udp_shared_scheme" where
  "udp_delete k s = s\<lparr>ud_map := sm_delete k (ud_map s)\<rparr>"

definition udp_touch :: "nat \<Rightarrow> int \<Rightarrow> 'a udp_shared_scheme \<Rightarrow> 'a udp_shared_scheme" where
  "udp_touch sid now s = s\<lparr>ud_heap := (ud_heap s)(sid := (ud_heap s sid)\<lparr>us_last := now\<rparr>)\<rparr>"

definition udp_idle :: "udp_cfg \<Rightarrow> int \<Rightarrow> nat \<Rightarrow> 'a udp_shared_scheme \<Rightarrow> bool" where
  "udp_idle cfg now sid s \<longleftrightarrow> now - us_last (ud_heap s sid) > uc_timeout cfg"

text \<open>A write on a closed connection fails; on an open one it may fail or succeed (\<open>write_ok\<close>).\<close>

definition udp_write_ok :: "bool \<Rightarrow> nat \<Rightarrow> 'a udp_shared_scheme \<Rightarrow> bool" where
  "udp_write_ok write_ok sid s \<longleftrightarrow> write_ok \<and> \<not> us_conn_closed (ud_heap s sid)"

subsection \<open>The handlers without interference\<close>

text \<open>One turn of \<open>runUDPLoop\<close> for a non-empty datagram from source \<open>k\<close>.\<close>

definition udp_forward :: "string \<Rightarrow> nat \<Rightarrow> int \<Rightarrow> bool \<Rightarrow> 'a udp_shared_scheme \<Rightarrow> 'a udp_shared_scheme" where
  "udp_forward k sid now write_ok s =
     (let s1 = udp_touch sid now s in
      if udp_write_ok write_ok sid s1 then s1 else udp_delete k (close_udp_session sid s1))"

definition udp_packet :: "udp_cfg \<Rightarrow> string \<Rightarrow> int \<Rightarrow> bool \<Rightarrow> bool \<Rightarrow> 'a udp_shared_scheme \<Rightarrow> 'a udp_shared_scheme" where
  "udp_packet cfg k now dial_ok write_ok s =
     (case sm_load (ud_map s) k of
        Some sid \<Rightarrow> udp_forward k sid now write_ok s
      | None \<Rightarrow>
          if dial_ok then
            (case udp_create cfg k now s of (sid, s1) \<Rightarrow> udp_forward k sid now write_ok (udp_store k sid s1))
          else s)"

definition udp_sweep :: "udp_cfg \<Rightarrow> int \<Rightarrow> (string \<times> nat) list \<Rightarrow> 'a udp_shared_scheme \<Rightarrow> 'a udp_shared_scheme" where
  "udp_sweep cfg now = sm_range (\<lambda>k sid s.
     (True, if udp_idle cfg now sid s then udp_delete k (close_udp_session sid s) else s))"

definition udp_final_close :: "(string \<times> nat) list \<Rightarrow> 'a udp_shared_scheme \<Rightarrow> 'a udp_shared_scheme" where
  "udp_final_close = sm_range (\<lambda>k sid s. (True, close_udp_session sid s))"

subsection \<open>The two goroutines\<close>

datatype loop_pc =
    LRead
  | LStore string nat      \<comment> \<open>created, not yet in the map\<close>
  | LTouch string nat
  | LWrite string nat
  | LClose string nat      \<comment> \<open>the write failed\<close>
  | LDelete string
  | LExit

datatype cleanup_pc =
    CWait
  | CSweep int "(string \<times> nat) list"
  | CDelete string int "(string \<times> nat) list"
  | CFinal "(string \<times> nat) list"
  | CExit

record udp_sys = udp_shared +
  us_loop :: loop_pc
  us_clean :: cleanup_pc
  us_cancelled :: bool      \<comment> \<open>the components' context\<close>

definition blank_session :: session where
  "blank_session = \<lparr>us_remote = '''', us_last = 0, us_conn_id = '''', us_tracked = False, us_once = False,
     us_ctx_cancelled = False, us_conn_closed = False\<rparr>"

definition udp_init :: "int64 \<Rightarrow> int64 \<Rightarrow> udp_sys" where
  "udp_init c0 ids = \<lparr>ud_heap = (\<lambda>_. blank_session), ud_next = 0, ud_map = new_session_map,
     ud_act = \<lparr>act_counter = c0, act_events = []\<rparr>, ud_ids = ids,
     us_loop = LRead, us_clean = CWait, us_cancelled = False\<rparr>"

inductive udp_step :: "udp_cfg \<Rightarrow> udp_sys \<Rightarrow> udp_sys \<Rightarrow> bool" for cfg where
  cancel: "udp_step cfg s (s\<lparr>us_cancelled := True\<rparr>)"
| read_error: "us_loop s = LRead \<Longrightarrow> us_cancelled s \<Longrightarrow> udp_step cfg s (s\<lparr>us_loop := LExit\<rparr>)"
| load_hit: "us_loop s = LRead \<Longrightarrow> sm_load (ud_map s) k = Some sid \<Longrightarrow>
     udp_step cfg s (s\<lparr>us_loop := LTouch k sid\<rparr>)"
| load_miss: "us_loop s = LRead \<Longrightarrow> sm_load (ud_map s) k = None \<Longrightarrow> udp_create cfg k now s = (sid, t) \<Longrightarrow>
     udp_step cfg s (t\<lparr>us_loop := LStore k sid\<rparr>)"
| store: "us_loop s = LStore k sid \<Longrightarrow> udp_step cfg s ((udp_store k sid s)\<lparr>us_loop := LTouch k sid\<rparr>)"
| touch: "us_loop s = LTouch k sid \<Longrightarrow> udp_step cfg s ((udp_touch sid now s)\<lparr>us_loop := LWrite k sid\<rparr>)"
| write_ok: "us_loop s = LWrite k sid \<Longrightarrow> udp_write_ok True sid s \<Longrightarrow> udp_step cfg s (s\<lparr>us_loop := LRead\<rparr>)"
| write_fail: "us_loop s = LWrite k sid \<Longrightarrow> udp_step cfg s (s\<lparr>us_loop := LClose k sid\<rparr>)"
| close_failed: "us_loop s = LClose k sid \<Longrightarrow>
     udp_step cfg s ((close_udp_session sid s)\<lparr>us_loop := LDelete k\<rparr>)"
| delete_failed: "us_loop s = LDelete k \<Longrightarrow> udp_step cfg s ((udp_delete k s)\<lparr>us_loop := LRead\<rparr>)"
| tick: "us_clean s = CWait \<Longrightarrow> sm_snapshot (ud_map s) es \<Longrightarrow> udp_step cfg s (s\<lparr>us_clean := CSweep now es\<rparr>)"
| sweep_keep: "us_clean s = CSweep now ((k, sid) # es) \<Longrightarrow> \<not> udp_idle cfg now sid s \<Longrightarrow>
     udp_step cfg s (s\<lparr>us_clean := CSweep now es\<rparr>)"
| sweep_close: "us_clean s = CSweep now ((k, sid) # es) \<Longrightarrow> udp_idle cfg now sid s \<Longrightarrow>
     udp_step cfg s ((close_udp_session sid s)\<lparr>us_clean := CDelete k now es\<rparr>)"
| sweep_delete: "us_clean s = CDelete k now es \<Longrightarrow>
     udp_step cfg s ((udp_delete k s)\<lparr>us_clean := CSweep now es\<rparr>)"
| sweep_done: "us_clean s = CSweep now [] \<Longrightarrow> udp_step cfg s (s\<lparr>us_clean := CWait\<rparr>)"
| final: "us_clean s = CWait \<Longrightarrow> us_cancelled s \<Longrightarrow> sm_snapshot (ud_map s) es \<Longrightarrow>
     udp_step cfg s (s\<lparr>us_clean := CFinal es\<rparr>)"
| final_close: "us_clean s = CFinal ((k, sid) # es) \<Longrightarrow>
     udp_step cfg s ((close_udp_session sid s)\<lparr>us_clean := CFinal es\<rparr>)"
| final_done: "us_clean s = CFinal [] \<Longrightarrow> udp_step cfg s (s\<lparr>us_clean := CExit\<rparr>)"

definition udp_reach :: "udp_cfg \<Rightarrow> int64 \<Rightarrow> int64 \<Rightarrow> udp_sys \<Rightarrow> bool" where
  "udp_reach cfg c0 ids s \<longleftrightarrow> (udp_step cfg)\<^sup>*\<^sup>* (udp_init c0 ids) s"

lemma udp_reach_induct [consumes 1, case_names init step]:
  assumes "udp_reach cfg c0 ids s" "P (udp_init c0 ids)" "\<And>s t. P s \<Longrightarrow> udp_step cfg s t \<Longrightarrow> P t"
  shows "P s"
  using assms(1) unfolding udp_reach_def by (induction rule: rtranclp_induct) (auto intro: assms)

subsection \<open>Accounting\<close>

fun created_ids :: "activity_event list \<Rightarrow> string list" where
  "created_ids [] = []"
| "created_ids (ConnCreated c _ # es) = c # created_ids es"
| "created_ids (ConnClosed _ # es) = created_ids es"

fun closed_ids :: "activity_event list \<Rightarrow> string list" where
  "closed_ids [] = []"
| "closed_ids (ConnCreated _ _ # es) = closed_ids es"
| "closed_ids (ConnClosed c # es) = c # closed_ids es"

lemma created_ids_append [simp]: "created_ids (a @ b) = created_ids a @ created_ids b"
  by (induction a rule: created_ids.induct) simp_all

lemma closed_ids_append [simp]: "closed_ids (a @ b) = closed_ids a @ closed_ids b"
  by (induction a rule: closed_ids.induct) simp_all

definition open_sessions :: "'a udp_shared_scheme \<Rightarrow> nat set" where
  "open_sessions s = {sid. sid < ud_next s \<and> \<not> us_once (ud_heap s sid)}"

definition closed_sessions :: "'a udp_shared_scheme \<Rightarrow> nat set" where
  "closed_sessions s = {sid. sid < ud_next s \<and> us_once (ud_heap s sid)}"

lemma finite_sessions [simp]: "finite (open_sessions s)" "finite (closed_sessions s)"
  by (simp_all add: open_sessions_def closed_sessions_def)

text \<open>The id under which the session at a pointer was announced.\<close>

definition session_id :: "'a udp_shared_scheme \<Rightarrow> nat \<Rightarrow> string" where
  "session_id s sid = us_conn_id (ud_heap s sid)"

definition udp_accounts :: "udp_cfg \<Rightarrow> int64 \<Rightarrow> 'a udp_shared_scheme \<Rightarrow> bool" where
  "udp_accounts cfg c0 s \<longleftrightarrow>
     (if uc_callback cfg
      then act_counter (ud_act s) = c0 + of_nat (card (open_sessions s)) \<and>
           created_ids (act_events (ud_act s)) = map (session_id s) [0..<ud_next s] \<and>
           mset (closed_ids (act_events (ud_act s))) = image_mset (session_id s) (mset_set (closed_sessions s))
      else ud_act s = \<lparr>act_counter = c0, act_events = []\<rparr>)"

text \<open>A session is tracked exactly when there is a callback, and is shut down as a whole.\<close>

definition session_ok :: "bool \<Rightarrow> session \<Rightarrow> bool" where
  "session_ok cb x \<longleftrightarrow> us_tracked x = cb \<and> (us_conn_id x \<noteq> '''') = cb \<and>
     us_conn_closed x = us_once x \<and> us_ctx_cancelled x = us_once x"

definition sessions_ok :: "udp_cfg \<Rightarrow> 'a udp_shared_scheme \<Rightarrow> bool" where
  "sessions_ok cfg s \<longleftrightarrow> (\<forall>sid < ud_next s. session_ok (uc_callback cfg) (ud_heap s sid))"

lemma session_ok_touch: "session_ok cb (x\<lparr>us_last := now\<rparr>) = session_ok cb x"
  by (simp add: session_ok_def)

lemma conn_id_not_empty: "generate_conn_id p a c = (i, cid) \<Longrightarrow> cid \<noteq> ''''"
  by (auto simp: generate_conn_id_def Let_def)

text \<open>Creation, shutdown and the other accesses keep the accounts.\<close>

lemmas udp_ops = udp_store_def udp_delete_def udp_touch_def

lemma open_insert:
  "{i. i < Suc n \<and> \<not> P ((h(n := x)) i)} = (if P x then {i. i < n \<and> \<not> P (h i)} else insert n {i. i < n \<and> \<not> P (h i)})"
  by (auto simp: less_Suc_eq)

lemma udp_create_next: "udp_create cfg k now s = (sid, t) \<Longrightarrow> sid = ud_next s \<and> ud_next t = Suc (ud_next s)"
  by (auto simp: udp_create_def Let_def split: if_splits prod.splits)

lemma udp_create_map: "udp_create cfg k now s = (sid, t) \<Longrightarrow> ud_map t = ud_map s"
  by (auto simp: udp_create_def Let_def split: if_splits prod.splits)

lemma udp_create_heap:
  "udp_create cfg k now s = (sid, t) \<Longrightarrow> \<exists>x. ud_heap t = (ud_heap s)(sid := x) \<and> us_remote x = k \<and>
     us_tracked x = uc_callback cfg \<and> (us_conn_id x \<noteq> '''') = uc_callback cfg \<and> \<not> us_once x \<and>
     \<not> us_ctx_cancelled x \<and> \<not> us_conn_closed x \<and> us_last x = now \<and>
     ud_act t = (if uc_callback cfg then act_increment (on_created (us_conn_id x) ''udp'' (ud_act s)) else ud_act s)"
  by (auto simp: udp_create_def Let_def conn_id_not_empty split: if_splits prod.splits)

lemma udp_create_sessions:
  assumes "udp_create cfg k now s = (sid, t)" "sessions_ok cfg s"
  shows "sessions_ok cfg t"
  using udp_create_heap [OF assms(1)] udp_create_next [OF assms(1)] assms(2)
  by (auto simp: sessions_ok_def session_ok_def less_Suc_eq)

lemma udp_create_open:
  assumes "udp_create cfg k now s = (sid, t)"
  shows "open_sessions t = insert sid (open_sessions s)" "closed_sessions t = closed_sessions s"
    "sid \<notin> open_sessions s"
  using udp_create_heap [OF assms] udp_create_next [OF assms]
  by (auto simp: open_sessions_def closed_sessions_def less_Suc_eq)

lemma udp_create_accounts:
  assumes c: "udp_create cfg k now s = (sid, t)" and a: "udp_accounts cfg c0 s"
  shows "udp_accounts cfg c0 t"
proof (cases "uc_callback cfg")
  case True
  obtain x where x: "ud_heap t = (ud_heap s)(sid := x)"
      "ud_act t = act_increment (on_created (us_conn_id x) ''udp'' (ud_act s))"
    using udp_create_heap [OF c] True by auto
  have n: "sid = ud_next s" "ud_next t = Suc (ud_next s)"
    using udp_create_next [OF c] by auto
  have ids: "map (session_id t) [0..<ud_next s] = map (session_id s) [0..<ud_next s]"
    by (rule map_cong) (simp_all add: session_id_def x n)
  have cl: "image_mset (session_id t) (mset_set (closed_sessions s)) = image_mset (session_id s) (mset_set (closed_sessions s))"
    by (rule image_mset_cong) (simp add: session_id_def x n closed_sessions_def)
  show ?thesis
    using a True udp_create_open [OF c]
    by (simp add: udp_accounts_def x(2) n ids cl act_increment_def on_created_def counter_increment_def)
       (simp add: session_id_def x n)
next
  case False
  then show ?thesis
    using udp_create_heap [OF c] a by (auto simp: udp_accounts_def)
qed

lemma close_heap:
  "us_remote (ud_heap (close_udp_session sid s) i) = us_remote (ud_heap s i)"
  "us_last (ud_heap (close_udp_session sid s) i) = us_last (ud_heap s i)"
  "us_conn_id (ud_heap (close_udp_session sid s) i) = us_conn_id (ud_heap s i)"
  "us_tracked (ud_heap (close_udp_session sid s) i) = us_tracked (ud_heap s i)"
  "us_once (ud_heap (close_udp_session sid s) i) \<longleftrightarrow> i = sid \<or> us_once (ud_heap s i)"
  "ud_next (close_udp_session sid s) = ud_next s"
  "ud_map (close_udp_session sid s) = ud_map s"
  "ud_ids (close_udp_session sid s) = ud_ids s"
  by (auto simp: close_udp_session_def Let_def)

lemma close_sessions:
  "sessions_ok cfg s \<Longrightarrow> sessions_ok cfg (close_udp_session sid s)"
  by (simp add: sessions_ok_def close_udp_session_def Let_def session_ok_def)

lemma close_open:
  "open_sessions (close_udp_session sid s) = open_sessions s - {sid}"
  "sid < ud_next s \<Longrightarrow> closed_sessions (close_udp_session sid s) = insert sid (closed_sessions s)"
  by (auto simp: open_sessions_def closed_sessions_def close_heap)

lemma close_accounts:
  assumes ok: "sessions_ok cfg s" and a: "udp_accounts cfg c0 s" and sid: "sid < ud_next s"
  shows "udp_accounts cfg c0 (close_udp_session sid s)"
proof (cases "us_once (ud_heap s sid)")
  case True
  then show ?thesis using a by (simp add: session.closed_noop)
next
  case False
  let ?t = "close_udp_session sid s"
  have act: "ud_act ?t = (if uc_callback cfg then act_decrement (on_closed (session_id s sid) (ud_act s)) else ud_act s)"
    using False ok sid by (auto simp: close_udp_session_def Let_def sessions_ok_def session_ok_def session_id_def)
  have ids: "session_id ?t = session_id s"
    by (simp add: session_id_def close_heap fun_eq_iff)
  have op: "sid \<in> open_sessions s" "sid \<notin> closed_sessions s"
    using False sid by (simp_all add: open_sessions_def closed_sessions_def)
  have card: "card (open_sessions ?t) + 1 = card (open_sessions s)"
    unfolding close_open using card_Suc_Diff1 [OF finite_sessions(1) op(1)] by linarith
  have n: "c0 + (of_nat (card (open_sessions s)) :: int64) - 1 = c0 + of_nat (card (open_sessions ?t))"
    unfolding card [symmetric] by simp
  have m: "mset_set (closed_sessions ?t) = add_mset sid (mset_set (closed_sessions s))"
    using op(2) by (simp add: close_open(2) [OF sid])
  show ?thesis
  proof (cases "uc_callback cfg")
    case True
    with a show ?thesis
      by (simp add: udp_accounts_def act ids m n [symmetric] close_heap(6) act_decrement_def on_closed_def
          counter_decrement_def)
  next
    case False
    with a show ?thesis
      by (simp add: udp_accounts_def act)
  qed
qed

lemma touch_heap:
  "us_once (ud_heap (udp_touch sid now s) i) = us_once (ud_heap s i)"
  "us_remote (ud_heap (udp_touch sid now s) i) = us_remote (ud_heap s i)"
  "us_conn_id (ud_heap (udp_touch sid now s) i) = us_conn_id (ud_heap s i)"
  "us_conn_closed (ud_heap (udp_touch sid now s) i) = us_conn_closed (ud_heap s i)"
  "us_ctx_cancelled (ud_heap (udp_touch sid now s) i) = us_ctx_cancelled (ud_heap s i)"
  "us_tracked (ud_heap (udp_touch sid now s) i) = us_tracked (ud_heap s i)"
  "ud_next (udp_touch sid now s) = ud_next s"
  "us_last (ud_heap (udp_touch sid now s) i) = (if i = sid then now else us_last (ud_heap s i))"
  by (simp_all add: udp_touch_def)

lemma other_ops_sessions:
  "sessions_ok cfg (udp_store k sid s) = sessions_ok cfg s"
  "sessions_ok cfg (udp_delete k s) = sessions_ok cfg s"
  "sessions_ok cfg (udp_touch sid now s) = sessions_ok cfg s"
  by (auto simp: sessions_ok_def udp_ops session_ok_touch)

lemma other_ops_open:
  "open_sessions (udp_store k sid s) = open_sessions s"
  "open_sessions (udp_delete k s) = open_sessions s"
  "open_sessions (udp_touch sid now s) = open_sessions s"
  "closed_sessions (udp_store k sid s) = closed_sessions s"
  "closed_sessions (udp_delete k s) = closed_sessions s"
  "closed_sessions (udp_touch sid now s) = closed_sessions s"
  by (auto simp: udp_ops open_sessions_def closed_sessions_def)

lemma other_ops_ids:
  "session_id (udp_store k sid s) = session_id s"
  "session_id (udp_delete k s) = session_id s"
  "session_id (udp_touch sid now s) = session_id s"
  by (auto simp: udp_ops session_id_def fun_eq_iff)

lemma other_ops_fields:
  "ud_act (udp_store k sid s) = ud_act s" "ud_next (udp_store k sid s) = ud_next s"
  "ud_heap (udp_store k sid s) = ud_heap s" "ud_map (udp_store k sid s) = sm_store k sid (ud_map s)"
  "ud_act (udp_delete k s) = ud_act s" "ud_next (udp_delete k s) = ud_next s"
  "ud_heap (udp_delete k s) = ud_heap s" "ud_map (udp_delete k s) = sm_delete k (ud_map s)"
  "ud_act (udp_touch sid now s) = ud_act s" "ud_next (udp_touch sid now s) = ud_next s"
  "ud_map (udp_touch sid now s) = ud_map s"
  by (simp_all add: udp_ops)

lemma other_ops_accounts:
  "udp_accounts cfg c0 (udp_store k sid s) = udp_accounts cfg c0 s"
  "udp_accounts cfg c0 (udp_delete k s) = udp_accounts cfg c0 s"
  "udp_accounts cfg c0 (udp_touch sid now s) = udp_accounts cfg c0 s"
  by (simp_all add: udp_accounts_def other_ops_open other_ops_ids other_ops_fields)

subsection \<open>The invariant of every interleaving\<close>

text \<open>The keys and pointers held by the map and by the two goroutines.\<close>

definition loop_refs :: "loop_pc \<Rightarrow> (string \<times> nat) set" where
  "loop_refs p = (case p of LStore k sid \<Rightarrow> {(k, sid)} | LTouch k sid \<Rightarrow> {(k, sid)} | LWrite k sid \<Rightarrow> {(k, sid)}
     | LClose k sid \<Rightarrow> {(k, sid)} | _ \<Rightarrow> {})"

definition cleanup_refs :: "cleanup_pc \<Rightarrow> (string \<times> nat) set" where
  "cleanup_refs p = (case p of CSweep _ es \<Rightarrow> set es | CDelete _ _ es \<Rightarrow> set es | CFinal es \<Rightarrow> set es | _ \<Rightarrow> {})"

definition udp_refs :: "udp_sys \<Rightarrow> (string \<times> nat) set" where
  "udp_refs s = set (ud_map s) \<union> loop_refs (us_loop s) \<union> cleanup_refs (us_clean s)"

definition refs_ok :: "udp_sys \<Rightarrow> bool" where
  "refs_ok s \<longleftrightarrow> (\<forall>(k, sid) \<in> udp_refs s. sid < ud_next s \<and> us_remote (ud_heap s sid) = k)"

lemma udp_init_ok:
  "udp_accounts cfg c0 (udp_init c0 ids)" "sessions_ok cfg (udp_init c0 ids)" "refs_ok (udp_init c0 ids)"
  "sm_inv (ud_map (udp_init c0 ids))"
  by (auto simp: udp_init_def udp_accounts_def sessions_ok_def refs_ok_def udp_refs_def loop_refs_def
      cleanup_refs_def new_session_map_def open_sessions_def closed_sessions_def)

definition udp_inv :: "udp_cfg \<Rightarrow> int64 \<Rightarrow> udp_sys \<Rightarrow> bool" where
  "udp_inv cfg c0 s \<longleftrightarrow> sm_inv (ud_map s) \<and> refs_ok s \<and> sessions_ok cfg s \<and> udp_accounts cfg c0 s"

lemma pc_updates_sets:
  "open_sessions (s\<lparr>us_loop := l\<rparr>) = open_sessions s"
  "open_sessions (s\<lparr>us_clean := c\<rparr>) = open_sessions s"
  "open_sessions (s\<lparr>us_cancelled := b\<rparr>) = open_sessions s"
  "closed_sessions (s\<lparr>us_loop := l\<rparr>) = closed_sessions s"
  "closed_sessions (s\<lparr>us_clean := c\<rparr>) = closed_sessions s"
  "closed_sessions (s\<lparr>us_cancelled := b\<rparr>) = closed_sessions s"
  "session_id (s\<lparr>us_loop := l\<rparr>) = session_id s"
  "session_id (s\<lparr>us_clean := c\<rparr>) = session_id s"
  "session_id (s\<lparr>us_cancelled := b\<rparr>) = session_id s"
  by (simp_all add: open_sessions_def closed_sessions_def session_id_def fun_eq_iff)

lemma pc_updates_fields:
  "ud_act (s\<lparr>us_loop := l\<rparr>) = ud_act s" "ud_next (s\<lparr>us_loop := l\<rparr>) = ud_next s" "ud_heap (s\<lparr>us_loop := l\<rparr>) = ud_heap s"
  "ud_act (s\<lparr>us_clean := c\<rparr>) = ud_act s" "ud_next (s\<lparr>us_clean := c\<rparr>) = ud_next s" "ud_heap (s\<lparr>us_clean := c\<rparr>) = ud_heap s"
  "ud_act (s\<lparr>us_cancelled := b\<rparr>) = ud_act s" "ud_next (s\<lparr>us_cancelled := b\<rparr>) = ud_next s" "ud_heap (s\<lparr>us_cancelled := b\<rparr>) = ud_heap s"
  by simp_all

lemma pc_updates:
  "sessions_ok cfg (s\<lparr>us_loop := l\<rparr>) = sessions_ok cfg s"
  "sessions_ok cfg (s\<lparr>us_clean := c\<rparr>) = sessions_ok cfg s"
  "sessions_ok cfg (s\<lparr>us_cancelled := b\<rparr>) = sessions_ok cfg s"
  "udp_accounts cfg c0 (s\<lparr>us_loop := l\<rparr>) = udp_accounts cfg c0 s"
  "udp_accounts cfg c0 (s\<lparr>us_clean := c\<rparr>) = udp_accounts cfg c0 s"
  "udp_accounts cfg c0 (s\<lparr>us_cancelled := b\<rparr>) = udp_accounts cfg c0 s"
  by (simp_all only: sessions_ok_def udp_accounts_def pc_updates_sets pc_updates_fields)

lemma close_pcs:
  "us_loop (close_udp_session sid s) = us_loop s" "us_clean (close_udp_session sid s) = us_clean s"
  "us_cancelled (close_udp_session sid s) = us_cancelled s"
  by (simp_all add: close_udp_session_def Let_def)

lemma other_ops_pcs:
  "us_loop (udp_store k sid s) = us_loop s" "us_clean (udp_store k sid s) = us_clean s"
  "us_loop (udp_delete k s) = us_loop s" "us_clean (udp_delete k s) = us_clean s"
  "us_loop (udp_touch sid now s) = us_loop s" "us_clean (udp_touch sid now s) = us_clean s"
  "us_cancelled (udp_store k sid s) = us_cancelled s" "us_cancelled (udp_delete k s) = us_cancelled s"
  "us_cancelled (udp_touch sid now s) = us_cancelled s"
  by (simp_all add: udp_ops)

lemma udp_create_pcs:
  "udp_create cfg k now s = (sid, t) \<Longrightarrow>
   us_loop t = us_loop s \<and> us_clean t = us_clean s \<and> us_cancelled t = us_cancelled s"
  by (auto simp: udp_create_def Let_def split: if_splits prod.splits)

lemmas udp_effects = close_heap close_pcs other_ops_pcs other_ops_fields touch_heap

lemma udp_step_map: "udp_step cfg s t \<Longrightarrow> sm_inv (ud_map s) \<Longrightarrow> sm_inv (ud_map t)"
  by (induction rule: udp_step.induct)
     (simp_all add: udp_effects udp_create_map sm.invar_store sm.invar_delete)

lemma udp_step_sessions: "udp_step cfg s t \<Longrightarrow> sessions_ok cfg s \<Longrightarrow> sessions_ok cfg t"
  by (induction rule: udp_step.induct)
     (simp_all add: pc_updates(1-3) close_sessions other_ops_sessions udp_create_sessions)

lemma udp_step_accounts:
  "udp_step cfg s t \<Longrightarrow> refs_ok s \<Longrightarrow> sessions_ok cfg s \<Longrightarrow> udp_accounts cfg c0 s \<Longrightarrow> udp_accounts cfg c0 t"
  by (induction rule: udp_step.induct)
     (simp_all add: pc_updates other_ops_accounts udp_create_accounts close_accounts refs_ok_def udp_refs_def
       loop_refs_def cleanup_refs_def)

lemma snapshot_set: "sm_snapshot m es \<Longrightarrow> set es = set m"
  unfolding sm_snapshot_def by (metis set_mset_mset)

text \<open>A step refers to nothing it did not know, except for the session it creates.\<close>

lemma udp_step_refs:
  assumes "udp_step cfg s t" "sm_inv (ud_map s)"
  shows "udp_refs t \<subseteq> udp_refs s \<union> {(k, sid). sid = ud_next s \<and> us_remote (ud_heap t sid) = k \<and> sid < ud_next t}"
  using assms
proof (induction rule: udp_step.induct)
  case (load_hit s k sid)
  then show ?case using sm.load_entries [of "ud_map s" k sid]
    by (auto simp: udp_refs_def loop_refs_def)
next
  case (load_miss s k now sid t)
  then show ?case using udp_create_next [of cfg k now s] udp_create_heap [of cfg k now s]
    udp_create_map [of cfg k now s] udp_create_pcs [of cfg k now s]
    by (auto simp: udp_refs_def loop_refs_def)
next
  case (store s k sid)
  then show ?case using sm.entries_store_subset [of "ud_map s" k sid]
    by (auto simp: udp_refs_def loop_refs_def udp_effects)
next
  case (delete_failed s k)
  then show ?case using sm.entries_delete [of "ud_map s" k]
    by (auto simp: udp_refs_def loop_refs_def udp_effects)
next
  case (sweep_delete s k now es)
  then show ?case using sm.entries_delete [of "ud_map s" k]
    by (auto simp: udp_refs_def cleanup_refs_def udp_effects)
next
  case (tick s es now)
  then show ?case by (auto simp: udp_refs_def cleanup_refs_def snapshot_set)
next
  case (final s es)
  then show ?case by (auto simp: udp_refs_def cleanup_refs_def snapshot_set)
qed (auto simp: udp_refs_def cleanup_refs_def loop_refs_def udp_effects)

lemma udp_step_remote:
  "udp_step cfg s t \<Longrightarrow> ud_next s \<le> ud_next t \<and>
     (\<forall>i < ud_next s. us_remote (ud_heap t i) = us_remote (ud_heap s i))"
proof (induction rule: udp_step.induct)
  case (load_miss s k now sid t)
  then show ?case using udp_create_next [of cfg k now s] udp_create_heap [of cfg k now s] by auto
qed (simp_all add: udp_effects)

lemma udp_step_refs_ok:
  assumes "udp_step cfg s t" "sm_inv (ud_map s)" "refs_ok s"
  shows "refs_ok t"
  unfolding refs_ok_def
proof (rule ballI)
  fix e assume "e \<in> udp_refs t"
  with udp_step_refs [OF assms(1,2)]
  consider "e \<in> udp_refs s" | "snd e < ud_next t \<and> us_remote (ud_heap t (snd e)) = fst e" by auto
  then show "case e of (k, sid) \<Rightarrow> sid < ud_next t \<and> us_remote (ud_heap t sid) = k"
    using udp_step_remote [OF assms(1)] assms(3) by cases (auto simp: refs_ok_def)
qed

lemma udp_step_inv: "udp_step cfg s t \<Longrightarrow> udp_inv cfg c0 s \<Longrightarrow> udp_inv cfg c0 t"
  by (simp add: udp_inv_def udp_step_map udp_step_sessions udp_step_accounts udp_step_refs_ok)

lemma udp_reach_inv: "udp_reach cfg c0 ids s \<Longrightarrow> udp_inv cfg c0 s"
  by (induction rule: udp_reach_induct) (simp_all add: udp_inv_def [of _ _ "udp_init _ _"] udp_init_ok udp_step_inv)

subsection \<open>Without interference\<close>

text \<open>Between turns the open sessions are exactly those of the map, one for each source.\<close>

definition seq_ok :: "udp_cfg \<Rightarrow> int64 \<Rightarrow> 'a udp_shared_scheme \<Rightarrow> bool" where
  "seq_ok cfg c0 s \<longleftrightarrow> sm_inv (ud_map s) \<and> sessions_ok cfg s \<and> udp_accounts cfg c0 s \<and>
     (\<forall>k sid. sm_load (ud_map s) k = Some sid \<longrightarrow> sid < ud_next s \<and> us_remote (ud_heap s sid) = k) \<and>
     open_sessions s = {sid. \<exists>k. sm_load (ud_map s) k = Some sid}"

lemma seq_ok_init: "seq_ok cfg c0 (udp_init c0 ids)"
proof -
  have "open_sessions (udp_init c0 ids) = {}" "sm_load (ud_map (udp_init c0 ids)) = Map.empty"
    by (simp_all add: udp_init_def open_sessions_def sm.load_empty)
  then show ?thesis
    by (simp add: seq_ok_def udp_init_ok)
qed

lemma seq_ok_load:
  "seq_ok cfg c0 s \<Longrightarrow> sm_load (ud_map s) k = Some sid \<Longrightarrow> sid < ud_next s \<and> us_remote (ud_heap s sid) = k"
  by (simp add: seq_ok_def)

lemma seq_ok_map: "seq_ok cfg c0 s \<Longrightarrow> sm_inv (ud_map s)"
  by (simp add: seq_ok_def)

lemma seq_ok_touch: "seq_ok cfg c0 s \<Longrightarrow> seq_ok cfg c0 (udp_touch sid now s)"
  by (simp only: seq_ok_def other_ops_sessions other_ops_accounts other_ops_open udp_effects) blast

lemma seq_ok_drop:
  assumes s: "seq_ok cfg c0 s" and l: "sm_load (ud_map s) k = Some sid"
  shows "seq_ok cfg c0 (udp_delete k (close_udp_session sid s))" (is "seq_ok cfg c0 ?t")
proof -
  have inv: "sm_inv (ud_map ?t)"
    using s by (simp add: seq_ok_def udp_effects sm.invar_delete)
  have ok: "sessions_ok cfg ?t" "udp_accounts cfg c0 ?t"
    using s seq_ok_load [OF s l]
    by (simp_all add: seq_ok_def other_ops_sessions other_ops_accounts close_sessions close_accounts)
  have rm: "i = sid \<longleftrightarrow> j = k" if "sm_load (ud_map s) j = Some i" for i j
    using seq_ok_load [OF s that] seq_ok_load [OF s l] that l by (metis option.inject)
  have "open_sessions ?t = {i. \<exists>j. sm_load (ud_map s) j = Some i} - {sid}"
    using s by (simp add: seq_ok_def other_ops_open close_open)
  also have "\<dots> = {i. \<exists>j. sm_load (ud_map ?t) j = Some i}"
    using rm by (auto simp: udp_effects sm.load_delete)
  finally show ?thesis
    using inv ok s by (simp add: seq_ok_def udp_effects sm.load_delete)
qed

lemma seq_ok_forward:
  assumes "seq_ok cfg c0 s" "sm_load (ud_map s) k = Some sid"
  shows "seq_ok cfg c0 (udp_forward k sid now w s)"
  unfolding udp_forward_def Let_def
  using seq_ok_touch [OF assms(1)] assms(2)
  by (auto intro!: seq_ok_drop simp: udp_effects)

lemma seq_ok_create:
  assumes s: "seq_ok cfg c0 s" and l: "sm_load (ud_map s) k = None" and c: "udp_create cfg k now s = (sid, t)"
  shows "seq_ok cfg c0 (udp_store k sid t)" (is "seq_ok cfg c0 ?u")
proof -
  have n: "sid = ud_next s" "ud_next t = Suc (ud_next s)" using udp_create_next [OF c] by auto
  have inv: "sm_inv (ud_map ?u)"
    using s by (simp add: seq_ok_def udp_effects udp_create_map [OF c] sm.invar_store)
  have ok: "sessions_ok cfg ?u" "udp_accounts cfg c0 ?u"
    using s udp_create_sessions [OF c] udp_create_accounts [OF c]
    by (simp_all add: seq_ok_def other_ops_sessions other_ops_accounts)
  have "open_sessions ?u = insert sid {i. \<exists>j. sm_load (ud_map s) j = Some i}"
    using s udp_create_open [OF c] by (simp add: seq_ok_def other_ops_open)
  also have "\<dots> = {i. \<exists>j. sm_load (ud_map ?u) j = Some i}"
    using l by (simp add: udp_effects udp_create_map [OF c] sm.load_store set_eq_iff) (metis option.distinct(1))
  finally have op: "open_sessions ?u = {i. \<exists>j. sm_load (ud_map ?u) j = Some i}" .
  have refs: "i < ud_next ?u \<and> us_remote (ud_heap ?u i) = j" if h: "sm_load (ud_map ?u) j = Some i" for i j
  proof -
    obtain x where x: "ud_heap t = (ud_heap s)(sid := x)" "us_remote x = k"
      using udp_create_heap [OF c] by blast
    have "sm_load (ud_map s) j = Some i \<or> i = sid \<and> j = k"
      using h by (auto simp: udp_effects udp_create_map [OF c] sm.load_store split: if_splits)
    then show ?thesis
      using seq_ok_load [OF s, of j i] n x by (auto simp: udp_effects)
  qed
  show ?thesis
    unfolding seq_ok_def using inv ok op refs by blast
qed

lemma seq_ok_packet: "seq_ok cfg c0 s \<Longrightarrow> seq_ok cfg c0 (udp_packet cfg k now d w s)"
  unfolding udp_packet_def
  by (auto split: option.splits prod.splits simp: udp_effects sm.load_store intro!: seq_ok_forward seq_ok_create)

text \<open>A sweep over entries of the map drops those that are idle and leaves the others.\<close>

lemma udp_sweep_simps:
  "udp_sweep cfg now [] s = s"
  "udp_sweep cfg now ((k, sid) # es) s =
     udp_sweep cfg now es (if udp_idle cfg now sid s then udp_delete k (close_udp_session sid s) else s)"
  by (simp_all add: udp_sweep_def)

lemma idle_after_drop: "udp_idle cfg now i (udp_delete k (close_udp_session sid s)) = udp_idle cfg now i s"
  by (simp add: udp_idle_def udp_effects)

lemma udp_sweep_spec:
  assumes "seq_ok cfg c0 s" "distinct (map fst es)" "\<And>k sid. (k, sid) \<in> set es \<Longrightarrow> sm_load (ud_map s) k = Some sid"
  shows "seq_ok cfg c0 (udp_sweep cfg now es s) \<and>
     (\<forall>k. sm_load (ud_map (udp_sweep cfg now es s)) k =
        (case sm_load (ud_map s) k of
           Some sid \<Rightarrow> if k \<in> fst ` set es \<and> udp_idle cfg now sid s then None else Some sid
         | None \<Rightarrow> None))"
  using assms
proof (induction es arbitrary: s)
  case Nil
  then show ?case by (simp add: udp_sweep_simps split: option.splits)
next
  case (Cons e es)
  obtain k sid where e: "e = (k, sid)" by (cases e)
  have l: "sm_load (ud_map s) k = Some sid" using Cons.prems(3) e by simp
  have k: "k \<notin> fst ` set es" using Cons.prems(2) e by simp
  show ?case
  proof (cases "udp_idle cfg now sid s")
    case True
    let ?t = "udp_delete k (close_udp_session sid s)"
    have "seq_ok cfg c0 ?t" using seq_ok_drop [OF Cons.prems(1) l] .
    moreover have "sm_load (ud_map ?t) j = Some i" if "(j, i) \<in> set es" for j i
      using Cons.prems(3) [of j i] that k by (force simp: udp_effects sm.load_delete)
    ultimately have "seq_ok cfg c0 (udp_sweep cfg now es ?t) \<and>
       (\<forall>k. sm_load (ud_map (udp_sweep cfg now es ?t)) k =
          (case sm_load (ud_map ?t) k of
             Some sid \<Rightarrow> if k \<in> fst ` set es \<and> udp_idle cfg now sid ?t then None else Some sid
           | None \<Rightarrow> None))"
      using Cons.prems(2) by (intro Cons.IH) auto
    then show ?thesis
      using l k True
      by (auto simp: e udp_sweep_simps udp_effects sm.load_delete idle_after_drop split: option.splits)
  next
    case False
    have "seq_ok cfg c0 (udp_sweep cfg now es s) \<and>
       (\<forall>k. sm_load (ud_map (udp_sweep cfg now es s)) k =
          (case sm_load (ud_map s) k of
             Some sid \<Rightarrow> if k \<in> fst ` set es \<and> udp_idle cfg now sid s then None else Some sid
           | None \<Rightarrow> None))"
      using Cons.prems by (intro Cons.IH) auto
    then show ?thesis
      using l False by (auto simp: e udp_sweep_simps split: option.splits)
  qed
qed

lemma snapshot_entries:
  assumes "sm_inv m" "sm_snapshot m es"
  shows "distinct (map fst es)" "(k, sid) \<in> set es \<longleftrightarrow> sm_load m k = Some sid"
proof -
  have "mset (map fst es) = mset (map fst m)" using assms(2) by (simp add: sm_snapshot_def)
  then show "distinct (map fst es)"
    using assms(1) mset_eq_imp_distinct_iff by blast
  show "(k, sid) \<in> set es \<longleftrightarrow> sm_load m k = Some sid"
    using snapshot_set [OF assms(2)] sm.load_entries [OF assms(1)] by simp
qed

text \<open>
  A run without interference: datagrams and ticks in any order. \<open>ord\<close> is the order in which each \<open>Range\<close>
  visits the map.
\<close>

datatype udp_input =
    Datagram string int bool bool    \<comment> \<open>source, time, does the dial succeed, does the write\<close>
  | Tick int

definition udp_serve_one ::
  "udp_cfg \<Rightarrow> (nat session_tab \<Rightarrow> (string \<times> nat) list) \<Rightarrow> udp_input \<Rightarrow> udp_sys \<Rightarrow> udp_sys" where
  "udp_serve_one cfg ord i s = (case i of
     Datagram k now d w \<Rightarrow> udp_packet cfg k now d w s
   | Tick now \<Rightarrow> udp_sweep cfg now (ord (ud_map s)) s)"

definition udp_serve ::
  "udp_cfg \<Rightarrow> (nat session_tab \<Rightarrow> (string \<times> nat) list) \<Rightarrow> udp_input list \<Rightarrow> udp_sys \<Rightarrow> udp_sys" where
  "udp_serve cfg ord is s = (let t = fold (udp_serve_one cfg ord) is s in udp_final_close (ord (ud_map t)) t)"

lemma seq_ok_sweep:
  "seq_ok cfg c0 s \<Longrightarrow> sm_snapshot (ud_map s) es \<Longrightarrow> seq_ok cfg c0 (udp_sweep cfg now es s)"
  using snapshot_entries [of "ud_map s" es] seq_ok_map [of cfg c0 s]
  by (intro conjunct1 [OF udp_sweep_spec]) simp_all

lemma seq_ok_serve_one:
  "(\<And>m. sm_snapshot m (ord m)) \<Longrightarrow> seq_ok cfg c0 s \<Longrightarrow> seq_ok cfg c0 (udp_serve_one cfg ord i s)"
  by (simp add: udp_serve_one_def seq_ok_packet seq_ok_sweep split: udp_input.split)

lemma seq_ok_fold:
  "(\<And>m. sm_snapshot m (ord m)) \<Longrightarrow> seq_ok cfg c0 s \<Longrightarrow> seq_ok cfg c0 (fold (udp_serve_one cfg ord) is s)"
  by (induction "is" arbitrary: s) (simp_all add: seq_ok_serve_one)

lemma final_close_spec:
  assumes "sessions_ok cfg s" "udp_accounts cfg c0 s" "\<And>e. e \<in> set es \<Longrightarrow> snd e < ud_next s"
  shows "udp_accounts cfg c0 (udp_final_close es s) \<and>
     open_sessions (udp_final_close es s) = open_sessions s - snd ` set es \<and>
     ud_next (udp_final_close es s) = ud_next s"
  using assms
proof (induction es arbitrary: s)
  case Nil
  then show ?case by (simp add: udp_final_close_def)
next
  case (Cons e es)
  obtain k sid where e: "e = (k, sid)" by (cases e)
  have "udp_final_close (e # es) s = udp_final_close es (close_udp_session sid s)"
    by (simp add: e udp_final_close_def)
  then show ?case
    using Cons.IH [of "close_udp_session sid s"] Cons.prems Cons.prems(3) [of e]
    by (auto simp: e close_sessions close_accounts close_open close_heap)
qed

lemma serve_closes_all:
  assumes ord: "\<And>m. sm_snapshot m (ord m)"
  shows "open_sessions (udp_serve cfg ord is (udp_init c0 ids)) = {} \<and>
     udp_accounts cfg c0 (udp_serve cfg ord is (udp_init c0 ids))"
proof -
  let ?t = "fold (udp_serve_one cfg ord) is (udp_init c0 ids)"
  have t: "seq_ok cfg c0 ?t" by (intro seq_ok_fold ord seq_ok_init)
  have inv: "sm_inv (ud_map ?t)" using t by (simp add: seq_ok_def)
  have "snd e < ud_next ?t" if "e \<in> set (ord (ud_map ?t))" for e
    using that snapshot_entries(2) [OF inv ord, of "fst e" "snd e"] seq_ok_load [OF t, of "fst e" "snd e"] by simp
  then have f: "udp_accounts cfg c0 (udp_serve cfg ord is (udp_init c0 ids))"
      "open_sessions (udp_serve cfg ord is (udp_init c0 ids)) = open_sessions ?t - snd ` set (ord (ud_map ?t))"
    using final_close_spec [of cfg ?t c0 "ord (ud_map ?t)"] t by (simp_all add: udp_serve_def Let_def seq_ok_def)
  have "open_sessions ?t \<subseteq> snd ` set (ord (ud_map ?t))"
  proof
    fix sid assume "sid \<in> open_sessions ?t"
    then obtain k where "sm_load (ud_map ?t) k = Some sid" using t by (auto simp: seq_ok_def)
    then have "(k, sid) \<in> set (ord (ud_map ?t))" using snapshot_entries(2) [OF inv ord] by simp
    then show "sid \<in> snd ` set (ord (ud_map ?t))" by force
  qed
  with f show ?thesis by auto
qed

subsection \<open>The handlers as schedules of the steps\<close>

lemma pc_id: "us_loop s = p \<Longrightarrow> s\<lparr>us_loop := p\<rparr> = s" "us_clean s = q \<Longrightarrow> s\<lparr>us_clean := q\<rparr> = s"
  by (cases s; simp)+

lemma ops_pc:
  "udp_store k sid (s\<lparr>us_loop := l\<rparr>) = (udp_store k sid s)\<lparr>us_loop := l\<rparr>"
  "udp_touch sid now (s\<lparr>us_loop := l\<rparr>) = (udp_touch sid now s)\<lparr>us_loop := l\<rparr>"
  "udp_delete k (s\<lparr>us_loop := l\<rparr>) = (udp_delete k s)\<lparr>us_loop := l\<rparr>"
  "udp_delete k (s\<lparr>us_clean := c\<rparr>) = (udp_delete k s)\<lparr>us_clean := c\<rparr>"
  "close_udp_session sid (s\<lparr>us_loop := l\<rparr>) = (close_udp_session sid s)\<lparr>us_loop := l\<rparr>"
  "close_udp_session sid (s\<lparr>us_clean := c\<rparr>) = (close_udp_session sid s)\<lparr>us_clean := c\<rparr>"
  "udp_write_ok w sid (s\<lparr>us_loop := l\<rparr>) = udp_write_ok w sid s"
  "udp_idle cfg now sid (s\<lparr>us_clean := c\<rparr>) = udp_idle cfg now sid s"
  by (simp_all add: udp_ops close_udp_session_def Let_def udp_write_ok_def udp_idle_def)

lemma forward_schedule:
  assumes "us_loop s = LRead"
  shows "(udp_step cfg)\<^sup>*\<^sup>* (s\<lparr>us_loop := LTouch k sid\<rparr>) (udp_forward k sid now w s)"
proof -
  let ?t = "udp_touch sid now s"
  have t: "(udp_step cfg)\<^sup>*\<^sup>* (s\<lparr>us_loop := LTouch k sid\<rparr>) (?t\<lparr>us_loop := LWrite k sid\<rparr>)"
    using touch [of "s\<lparr>us_loop := LTouch k sid\<rparr>" k sid cfg now] by (simp add: ops_pc r_into_rtranclp)
  show ?thesis
  proof (cases "udp_write_ok w sid ?t")
    case True
    then have "udp_step cfg (?t\<lparr>us_loop := LWrite k sid\<rparr>) (?t\<lparr>us_loop := LRead\<rparr>)"
      using write_ok [of "?t\<lparr>us_loop := LWrite k sid\<rparr>" k sid cfg] by (simp add: ops_pc) (simp add: udp_write_ok_def)
    with t True assms show ?thesis
      by (simp add: udp_forward_def Let_def pc_id other_ops_pcs)
  next
    case False
    have "udp_step cfg (?t\<lparr>us_loop := LWrite k sid\<rparr>) (?t\<lparr>us_loop := LClose k sid\<rparr>)"
      using write_fail [of "?t\<lparr>us_loop := LWrite k sid\<rparr>" k sid cfg] by simp
    moreover have "udp_step cfg (?t\<lparr>us_loop := LClose k sid\<rparr>) ((close_udp_session sid ?t)\<lparr>us_loop := LDelete k\<rparr>)"
      using close_failed [of "?t\<lparr>us_loop := LClose k sid\<rparr>" k sid cfg] by (simp add: ops_pc)
    moreover have "udp_step cfg ((close_udp_session sid ?t)\<lparr>us_loop := LDelete k\<rparr>)
        ((udp_delete k (close_udp_session sid ?t))\<lparr>us_loop := LRead\<rparr>)"
      using delete_failed [of "(close_udp_session sid ?t)\<lparr>us_loop := LDelete k\<rparr>" k cfg] by (simp add: ops_pc)
    ultimately have "(udp_step cfg)\<^sup>*\<^sup>* (s\<lparr>us_loop := LTouch k sid\<rparr>)
        ((udp_delete k (close_udp_session sid ?t))\<lparr>us_loop := LRead\<rparr>)"
      using t by (meson rtranclp.rtrancl_into_rtrancl)
    with False assms show ?thesis
      by (simp add: udp_forward_def Let_def pc_id other_ops_pcs close_pcs)
  qed
qed

lemma packet_schedule:
  assumes l: "us_loop s = LRead"
  shows "(udp_step cfg)\<^sup>*\<^sup>* s (udp_packet cfg k now d w s)"
proof (cases "sm_load (ud_map s) k")
  case (Some sid)
  then show ?thesis
    using load_hit [OF l Some, of cfg] forward_schedule [OF l, of cfg k sid now w]
    by (simp add: udp_packet_def converse_rtranclp_into_rtranclp)
next
  case None
  show ?thesis
  proof (cases d)
    case True
    obtain sid t where c: "udp_create cfg k now s = (sid, t)" by (cases "udp_create cfg k now s")
    have t: "us_loop (udp_store k sid t) = LRead" using udp_create_pcs [OF c] l by (simp add: other_ops_pcs)
    have "udp_step cfg s (t\<lparr>us_loop := LStore k sid\<rparr>)"
      by (rule load_miss [OF l None c])
    moreover have "udp_step cfg (t\<lparr>us_loop := LStore k sid\<rparr>) ((udp_store k sid t)\<lparr>us_loop := LTouch k sid\<rparr>)"
      using store [of "t\<lparr>us_loop := LStore k sid\<rparr>" k sid cfg] by (simp add: ops_pc)
    ultimately show ?thesis
      using forward_schedule [OF t, of cfg k sid now w] None True c
      by (simp add: udp_packet_def converse_rtranclp_into_rtranclp)
  next
    case False
    with None show ?thesis by (simp add: udp_packet_def)
  qed
qed

lemma sweep_pc: "udp_sweep cfg now es (t\<lparr>us_clean := q\<rparr>) = (udp_sweep cfg now es t)\<lparr>us_clean := q\<rparr>"
  by (induction es arbitrary: t) (auto simp: udp_sweep_simps ops_pc)

lemma sweep_clean: "us_clean (udp_sweep cfg now es s) = us_clean s"
  by (induction es arbitrary: s) (auto simp: udp_sweep_simps other_ops_pcs close_pcs)

lemma sweep_schedule:
  assumes "us_clean s = CSweep now es"
  shows "(udp_step cfg)\<^sup>*\<^sup>* s ((udp_sweep cfg now es s)\<lparr>us_clean := CWait\<rparr>)"
  using assms
proof (induction es arbitrary: s)
  case Nil
  then show ?case using sweep_done [of s now cfg] by (simp add: udp_sweep_simps r_into_rtranclp)
next
  case (Cons e es)
  obtain k sid where e: "e = (k, sid)" by (cases e)
  note c = Cons.prems [unfolded e]
  show ?case
  proof (cases "udp_idle cfg now sid s")
    case True
    let ?t = "close_udp_session sid s"
    have "udp_step cfg (?t\<lparr>us_clean := CDelete k now es\<rparr>) ((udp_delete k ?t)\<lparr>us_clean := CSweep now es\<rparr>)"
      using sweep_delete [of "?t\<lparr>us_clean := CDelete k now es\<rparr>" k now es cfg] by (simp add: ops_pc)
    with sweep_close [OF c True]
    have "(udp_step cfg)\<^sup>*\<^sup>* s ((udp_delete k ?t)\<lparr>us_clean := CSweep now es\<rparr>)" by simp
    moreover have "(udp_step cfg)\<^sup>*\<^sup>* ((udp_delete k ?t)\<lparr>us_clean := CSweep now es\<rparr>)
        ((udp_sweep cfg now es (udp_delete k ?t))\<lparr>us_clean := CWait\<rparr>)"
      using Cons.IH [of "(udp_delete k ?t)\<lparr>us_clean := CSweep now es\<rparr>"] by (simp add: sweep_pc)
    ultimately show ?thesis
      using True by (simp add: e udp_sweep_simps)
  next
    case False
    then show ?thesis
      using sweep_keep [OF c False] Cons.IH [of "s\<lparr>us_clean := CSweep now es\<rparr>"]
      by (simp add: e udp_sweep_simps sweep_pc converse_rtranclp_into_rtranclp)
  qed
qed

subsection \<open>Sessions that nobody can close\<close>

definition orphan :: "nat \<Rightarrow> udp_sys \<Rightarrow> bool" where
  "orphan sid s \<longleftrightarrow> sid \<in> open_sessions s \<and> (\<forall>k. (k, sid) \<notin> udp_refs s)"

lemma udp_step_once:
  "udp_step cfg s t \<Longrightarrow> i < ud_next s \<Longrightarrow> \<not> us_once (ud_heap s i) \<Longrightarrow> (\<forall>k. (k, i) \<notin> udp_refs s) \<Longrightarrow>
   \<not> us_once (ud_heap t i)"
proof (induction rule: udp_step.induct)
  case (load_miss s k now sid t)
  obtain x where "ud_heap t = (ud_heap s)(sid := x)" "\<not> us_once x"
    using udp_create_heap [OF load_miss(3)] by blast
  then show ?case using load_miss by simp
next
  case (close_failed s k sid)
  then have "(k, sid) \<in> udp_refs s" by (simp add: udp_refs_def loop_refs_def)
  with close_failed show ?case by (auto simp: udp_effects)
next
  case (sweep_close s now k sid es)
  then have "(k, sid) \<in> udp_refs s" by (simp add: udp_refs_def cleanup_refs_def)
  with sweep_close show ?case by (auto simp: udp_effects)
next
  case (final_close s k sid es)
  then have "(k, sid) \<in> udp_refs s" by (simp add: udp_refs_def cleanup_refs_def)
  with final_close show ?case by (auto simp: udp_effects)
qed (simp_all add: udp_effects)

lemma orphan_step:
  assumes st: "udp_step cfg s t" and inv: "sm_inv (ud_map s)" and o1: "orphan sid s"
  shows "orphan sid t"
  using udp_step_once [OF st, of sid] udp_step_refs [OF st inv] udp_step_remote [OF st] o1
  by (fastforce simp: orphan_def open_sessions_def)

lemma orphan_steps:
  "(udp_step cfg)\<^sup>*\<^sup>* s t \<Longrightarrow> udp_inv cfg c0 s \<Longrightarrow> orphan sid s \<Longrightarrow> udp_inv cfg c0 t \<and> orphan sid t"
proof (induction rule: rtranclp_induct)
  case (step t u)
  then have "udp_inv cfg c0 t" "orphan sid t" by simp_all
  then show ?case
    using step(2) udp_step_inv orphan_step unfolding udp_inv_def by blast
qed simp

lemma reach_steps: "udp_reach cfg c0 ids s \<Longrightarrow> (udp_step cfg)\<^sup>*\<^sup>* s t \<Longrightarrow> udp_reach cfg c0 ids t"
  by (simp add: udp_reach_def)

lemma reach_step: "udp_reach cfg c0 ids s \<Longrightarrow> udp_step cfg s t \<Longrightarrow> udp_reach cfg c0 ids t"
  by (simp add: udp_reach_def)

lemma reach_init: "udp_reach cfg c0 ids (udp_init c0 ids)"
  by (simp add: udp_reach_def)

abbreviation orphan_cfg :: "string \<Rightarrow> int \<Rightarrow> udp_cfg" where
  "orphan_cfg p t \<equiv> \<lparr>uc_callback = True, uc_prefix = p, uc_timeout = t\<rparr>"

lemma orphan_run:
  "\<exists>s. udp_reach (orphan_cfg p t) c0 ids s \<and> us_loop s = LRead \<and> us_clean s = CWait \<and> \<not> us_cancelled s \<and>
     ud_map s = [] \<and> orphan 1 s \<and> act_counter (ud_act s) = c0 + 1 \<and> ud_next s = 2"
proof -
  let ?c = "orphan_cfg p t"
  let ?k = "''a''"
  let ?s1 = "udp_packet ?c ?k 0 True True (udp_init c0 ids)"
  let ?s2 = "(close_udp_session 0 ?s1)\<lparr>us_clean := CDelete ?k (t + 1) []\<rparr>"
  let ?s3 = "udp_packet ?c ?k 0 True True (udp_packet ?c ?k 0 True True ?s2)"
  let ?s4 = "(udp_delete ?k ?s3)\<lparr>us_clean := CWait\<rparr>"
  note ev = udp_packet_def udp_forward_def udp_create_def udp_ops udp_write_ok_def udp_init_def new_session_map_def
    sm_load_def sm_store_def sm_delete_def Let_def generate_conn_id_def close_udp_session_def
  have r1: "udp_reach ?c c0 ids ?s1"
    by (rule reach_steps [OF reach_init packet_schedule]) (simp add: udp_init_def)
  have s1: "us_clean ?s1 = CWait" "us_loop ?s1 = LRead" "ud_map ?s1 = [(?k, 0)]" "us_last (ud_heap ?s1 0) = 0"
    by (simp_all add: ev)
  from reach_step [OF r1 tick [OF s1(1), of "[(?k, 0)]" ?c "t + 1"]]
  have "udp_reach ?c c0 ids (?s1\<lparr>us_clean := CSweep (t + 1) [(?k, 0)]\<rparr>)"
    by (simp add: s1 sm_snapshot_def)
  from reach_step [OF this sweep_close [of _ "t + 1" ?k 0 "[]"]]
  have r2: "udp_reach ?c c0 ids ?s2"
    by (simp add: udp_idle_def s1 ops_pc)
  have s2: "us_loop ?s2 = LRead" by (simp add: close_pcs s1)
  have s3: "us_loop (udp_packet ?c ?k 0 True True ?s2) = LRead"
    by (simp add: ev)
  have r3: "udp_reach ?c c0 ids ?s3"
    by (intro reach_steps [OF reach_steps [OF r2 packet_schedule] packet_schedule] s2 s3)
  have c3: "us_clean ?s3 = CDelete ?k (t + 1) []" "us_loop ?s3 = LRead" "\<not> us_cancelled ?s3"
      "ud_map ?s3 = [(?k, 1)]" "ud_next ?s3 = 2" "\<not> us_once (ud_heap ?s3 1)" "act_counter (ud_act ?s3) = c0 + 1"
    by (simp_all add: ev act_increment_def act_decrement_def on_created_def on_closed_def counter_increment_def
        counter_decrement_def)
  from reach_step [OF reach_step [OF r3 sweep_delete [OF c3(1)]] sweep_done]
  have "udp_reach ?c c0 ids ?s4" by simp
  moreover have "orphan 1 ?s4"
    using c3 by (simp add: orphan_def open_sessions_def udp_refs_def loop_refs_def cleanup_refs_def udp_effects sm_delete_def)
  ultimately show ?thesis
    using c3 by (intro exI [of _ ?s4]) (simp add: udp_effects sm_delete_def)
qed

lemma reachable_orphan: "\<exists>s. udp_reach (orphan_cfg p t) c0 ids s \<and> orphan 1 s"
  using orphan_run [of p t c0 ids] by blast

subsection \<open>Properties\<close>

text \<open>
  C5: in every interleaving of the receive loop and the cleanup the counter of tracked connections is its
  initial value plus the number of sessions that are open, every session was announced to the callback once,
  and exactly the shut down ones were reported closed, once each.
\<close>

theorem udp_accounting:
  assumes "udp_reach cfg c0 ids s" "uc_callback cfg"
  shows "act_counter (ud_act s) = c0 + of_nat (card (open_sessions s)) \<and>
     created_ids (act_events (ud_act s)) = map (session_id s) [0..<ud_next s] \<and>
     mset (closed_ids (act_events (ud_act s))) = image_mset (session_id s) (mset_set (closed_sessions s))"
  using udp_reach_inv [OF assms(1)] assms(2) by (simp add: udp_inv_def udp_accounts_def)

theorem udp_accounting_witness:
  "let cfg = \<lparr>uc_callback = True, uc_prefix = ''udp'', uc_timeout = 1000\<rparr>;
       s = udp_packet cfg ''[200::1]:9'' 5 True True (udp_init 7 0)
   in act_counter (ud_act s) = 7 + of_nat (card (open_sessions s))"
proof -
  let ?c = "\<lparr>uc_callback = True, uc_prefix = ''udp'', uc_timeout = 1000\<rparr>"
  have "udp_reach ?c 7 0 (udp_packet ?c ''[200::1]:9'' 5 True True (udp_init 7 0))"
    by (rule reach_steps [OF reach_init packet_schedule]) (simp add: udp_init_def)
  from udp_accounting [OF this] show ?thesis by (simp add: Let_def)
qed

text \<open>
  without interference between the two goroutines, for any datagrams, ticks and visiting orders of the
  map, once the final close has run no session is open and the counter is back at its initial value.
\<close>

theorem udp_serial_releases_all:
  assumes "\<And>m. sm_snapshot m (ord m)"
  shows "open_sessions (udp_serve cfg ord is (udp_init c0 ids)) = {} \<and>
     act_counter (ud_act (udp_serve cfg ord is (udp_init c0 ids))) = c0"
  using serve_closes_all [OF assms, of cfg "is" c0 ids] by (auto simp: udp_accounts_def split: if_splits)

theorem udp_serial_releases_all_witness:
  "act_counter (ud_act (udp_serve \<lparr>uc_callback = True, uc_prefix = ''udp'', uc_timeout = 1000\<rparr> rev
     [Datagram ''[200::1]:9'' 5 True True, Datagram ''[200::2]:9'' 6 True False, Tick 2000] (udp_init 3 0))) = 3"
  using udp_serial_releases_all [of rev] by (simp add: sm_snapshot_def)

text \<open>
  a sweep removes from the map exactly the sessions whose last activity is older than the timeout,
  whatever order it visits the map in, shuts them down, and keeps the others mapped.
\<close>

theorem udp_sweep_removes_idle:
  assumes "seq_ok cfg c0 s" "sm_snapshot (ud_map s) es"
  shows "sm_load (ud_map (udp_sweep cfg now es s)) k =
      (case sm_load (ud_map s) k of
         Some sid \<Rightarrow> if now - us_last (ud_heap s sid) > uc_timeout cfg then None else Some sid
       | None \<Rightarrow> None) \<and>
     open_sessions (udp_sweep cfg now es s) = {sid. \<exists>k. sm_load (ud_map (udp_sweep cfg now es s)) k = Some sid}"
proof
  note e = snapshot_entries [OF seq_ok_map [OF assms(1)] assms(2)]
  have sp: "sm_load (ud_map (udp_sweep cfg now es s)) k =
      (case sm_load (ud_map s) k of
         Some sid \<Rightarrow> if k \<in> fst ` set es \<and> udp_idle cfg now sid s then None else Some sid
       | None \<Rightarrow> None)"
    using udp_sweep_spec [OF assms(1) e(1), of now] e(2) by blast
  have mem: "k \<in> fst ` set es" if "sm_load (ud_map s) k = Some sid" for sid
    using that e(2) [of k sid] by force
  show "sm_load (ud_map (udp_sweep cfg now es s)) k =
      (case sm_load (ud_map s) k of
         Some sid \<Rightarrow> if now - us_last (ud_heap s sid) > uc_timeout cfg then None else Some sid
       | None \<Rightarrow> None)"
    using mem by (simp add: sp udp_idle_def split: option.split)
  show "open_sessions (udp_sweep cfg now es s) = {sid. \<exists>k. sm_load (ud_map (udp_sweep cfg now es s)) k = Some sid}"
    using seq_ok_sweep [OF assms, of now] by (simp only: seq_ok_def)
qed

theorem udp_sweep_removes_idle_witness:
  "let cfg = \<lparr>uc_callback = False, uc_prefix = ''udp'', uc_timeout = 1000\<rparr>;
       s = udp_packet cfg ''b'' 900 True True (udp_packet cfg ''a'' 5 True True (udp_init 0 0));
       t = udp_sweep cfg 1500 (ud_map s) s
   in sm_load (ud_map t) ''a'' = None \<and> sm_load (ud_map t) ''b'' = Some 1"
proof -
  let ?c = "\<lparr>uc_callback = False, uc_prefix = ''udp'', uc_timeout = 1000\<rparr>"
  let ?s = "udp_packet ?c ''b'' 900 True True (udp_packet ?c ''a'' 5 True True (udp_init 0 0))"
  have s: "seq_ok ?c 0 ?s" by (intro seq_ok_packet seq_ok_init)
  have n: "sm_snapshot (ud_map ?s) (ud_map ?s)" by (simp add: sm_snapshot_def)
  have v: "sm_load (ud_map ?s) ''a'' = Some 0" "sm_load (ud_map ?s) ''b'' = Some (Suc 0)"
    "us_last (ud_heap ?s 0) = 5" "us_last (ud_heap ?s (Suc 0)) = 900"
    by (simp_all add: udp_packet_def udp_forward_def udp_create_def udp_ops udp_write_ok_def udp_init_def
        new_session_map_def sm_load_def sm_store_def Let_def)
  show ?thesis
    using conjunct1 [OF udp_sweep_removes_idle [OF s n, of 1500 "''a''"]]
      conjunct1 [OF udp_sweep_removes_idle [OF s n, of 1500 "''b''"]]
    by (simp add: Let_def v)
qed

text \<open>
  the interference the code allows: when the listener delivers a first datagram of a source while the
  components are being cancelled, the cleanup can take its final snapshot and exit before the new session is
  stored. Both goroutines have then ended, and the counter stays one too high.
\<close>

theorem udp_shutdown_can_leak:
  "\<exists>s. udp_reach \<lparr>uc_callback = True, uc_prefix = p, uc_timeout = t\<rparr> c0 ids s \<and>
     us_loop s = LExit \<and> us_clean s = CExit \<and> act_counter (ud_act s) = c0 + 1"
proof -
  let ?c = "\<lparr>uc_callback = True, uc_prefix = p, uc_timeout = t\<rparr>"
  let ?i = "udp_init c0 ids"
  obtain sid u where c: "udp_create ?c ''a'' 0 ?i = (sid, u)" by (cases "udp_create ?c ''a'' 0 ?i")
  obtain x where x: "ud_heap u = (ud_heap ?i)(sid := x)" "\<not> us_conn_closed x"
      "ud_act u = act_increment (on_created (us_conn_id x) ''udp'' (ud_act ?i))"
    using udp_create_heap [OF c] by auto
  have m: "ud_map u = []" using udp_create_map [OF c] by (simp add: udp_init_def new_session_map_def)
  have pcs: "us_clean u = CWait" using udp_create_pcs [OF c] by (simp add: udp_init_def)
  let ?v = "udp_touch sid 0 (udp_store ''a'' sid (u\<lparr>us_cancelled := True, us_clean := CExit\<rparr>))"
  have "udp_reach ?c c0 ids (u\<lparr>us_loop := LStore ''a'' sid\<rparr>)"
    by (rule reach_step [OF reach_init load_miss [OF _ _ c]]) (simp_all add: udp_init_def sm.load_empty)
  from reach_step [OF reach_step [OF this cancel] final [of _ "[]"]]
  have "udp_reach ?c c0 ids (u\<lparr>us_loop := LStore ''a'' sid, us_cancelled := True, us_clean := CFinal []\<rparr>)"
    by (simp add: pcs m sm_snapshot_def)
  from reach_step [OF reach_step [OF this final_done] store [of _ "''a''" sid]]
  have "udp_reach ?c c0 ids ((udp_store ''a'' sid (u\<lparr>us_cancelled := True, us_clean := CExit\<rparr>))\<lparr>us_loop := LTouch ''a'' sid\<rparr>)"
    by (simp add: udp_ops)
  from reach_step [OF this touch [of _ "''a''" sid _ 0]]
  have "udp_reach ?c c0 ids (?v\<lparr>us_loop := LWrite ''a'' sid\<rparr>)"
    by (simp add: ops_pc)
  from reach_step [OF reach_step [OF this write_ok [of _ "''a''" sid]] read_error]
  have "udp_reach ?c c0 ids (?v\<lparr>us_loop := LExit\<rparr>)"
    by (simp add: udp_write_ok_def udp_ops x)
  moreover have "act_counter (ud_act ?v) = c0 + 1"
    by (simp add: udp_ops x act_increment_def on_created_def counter_increment_def udp_init_def)
  moreover have "us_clean ?v = CExit" by (simp add: udp_ops)
  ultimately show ?thesis by (intro exI [of _ "?v\<lparr>us_loop := LExit\<rparr>"]) simp
qed

text \<open>
  C38: the same leak in a running system: the cleanup shuts an idle session down and then deletes its key
  without looking at what the key holds; two datagrams of the source in between replace the session, and the
  deletion forgets the new, open one.
\<close>

theorem udp_cleanup_can_orphan:
  "\<exists>s. udp_reach (orphan_cfg p t) c0 ids s \<and> us_loop s = LRead \<and> us_clean s = CWait \<and> \<not> us_cancelled s \<and>
     ud_map s = [] \<and> orphan 1 s \<and> act_counter (ud_act s) = c0 + 1"
  using orphan_run by blast

text \<open>
  a session that neither the map nor a goroutine refers to any more stays open in every continuation,
  and the counter of tracked connections never returns to the value it had without that session.
\<close>

theorem udp_orphan_stays_open:
  assumes "udp_reach cfg c0 ids s" "orphan sid s" "(udp_step cfg)\<^sup>*\<^sup>* s t"
  shows "orphan sid t \<and> sid \<in> open_sessions t \<and> \<not> us_conn_closed (ud_heap t sid)"
proof -
  have t: "udp_inv cfg c0 t" "orphan sid t"
    using orphan_steps [OF assms(3) udp_reach_inv [OF assms(1)] assms(2)] by simp_all
  then show ?thesis
    by (auto simp: orphan_def open_sessions_def udp_inv_def sessions_ok_def session_ok_def)
qed

theorem udp_orphan_stays_open_witness:
  "\<exists>s. udp_reach (orphan_cfg ''udp'' 1000) 0 0 s \<and> orphan 1 s \<and> 1 \<in> open_sessions s"
proof -
  have "\<exists>s. udp_reach (orphan_cfg ''udp'' 1000) 0 0 s \<and> orphan 1 s"
    by (rule reachable_orphan)
  then show ?thesis using udp_orphan_stays_open by blast
qed

text \<open>
  the handlers are schedules of the two goroutines: a datagram handled without interference, and a sweep
  over any snapshot of the map, are runs of the step relation.
\<close>

theorem udp_handlers_are_runs:
  assumes "us_loop s = LRead" "us_clean s = CWait" "sm_snapshot (ud_map s) es"
  shows "(udp_step cfg)\<^sup>*\<^sup>* s (udp_packet cfg k now d w s) \<and> (udp_step cfg)\<^sup>*\<^sup>* s (udp_sweep cfg now es s)"
proof
  show "(udp_step cfg)\<^sup>*\<^sup>* s (udp_packet cfg k now d w s)"
    by (rule packet_schedule [OF assms(1)])
  have "udp_step cfg s (s\<lparr>us_clean := CSweep now es\<rparr>)"
    by (rule tick [OF assms(2,3)])
  then have "(udp_step cfg)\<^sup>*\<^sup>* s ((udp_sweep cfg now es (s\<lparr>us_clean := CSweep now es\<rparr>))\<lparr>us_clean := CWait\<rparr>)"
    using sweep_schedule [of "s\<lparr>us_clean := CSweep now es\<rparr>" now es cfg] by (simp add: converse_rtranclp_into_rtranclp)
  then show "(udp_step cfg)\<^sup>*\<^sup>* s (udp_sweep cfg now es s)"
    using assms(2) by (simp add: sweep_pc pc_id sweep_clean)
qed

theorem udp_handlers_are_runs_witness:
  "(udp_step (orphan_cfg ''udp'' 9))\<^sup>*\<^sup>* (udp_init 0 0) (udp_packet (orphan_cfg ''udp'' 9) ''a'' 1 True False (udp_init 0 0))"
proof -
  have "us_loop (udp_init 0 0) = LRead" "us_clean (udp_init 0 0) = CWait" "sm_snapshot (ud_map (udp_init 0 0)) []"
    by (simp_all add: udp_init_def new_session_map_def sm_snapshot_def)
  from udp_handlers_are_runs [OF this] show ?thesis by blast
qed

end
