(* ===== verification/TcpForward.thy ===== *)
theory TcpForward
  imports Activity
begin

text \<open>
  TCP forwarding (\<open>mod/mapping/tcp.go\<close>): the accept loops of \<open>StartLocalTCP\<close> and \<open>StartRemoteTCP\<close>.

  A turn of a loop is one result of \<open>listener.Accept\<close>, with what the code asks of the environment on that
  branch: whether the components' context is cancelled, whether it is cancelled while the loop waits to
  retry, and what the dial of the other side returns. The loop's own state is the retry delay; the rest of
  the record is what the loop did: the clients it closed, the pairs it handed to \<open>ProxyTCP\<close>, the delays it
  waited for, and the activity it reported. Connections are numbered; durations are nanoseconds.
\<close>

subsection \<open>Accept errors and the retry delay\<close>

text \<open>
  The chain of an error under \<open>Unwrap\<close>, outermost first. \<open>errors.As\<close> finds its first link that is a
  \<open>net.Error\<close>.
\<close>

record error_link =
  el_net_error :: bool
  el_temporary :: bool

definition is_transient_accept_error :: "error_link list \<Rightarrow> bool" where
  "is_transient_accept_error chain =
     (case find el_net_error chain of Some e \<Rightarrow> el_temporary e | None \<Rightarrow> False)"

definition accept_retry_initial :: int where
  "accept_retry_initial = 5 * 10 ^ 6"

definition accept_retry_max :: int where
  "accept_retry_max = 10 ^ 9"

definition next_retry_delay :: "int \<Rightarrow> int" where
  "next_retry_delay d =
     (if d = 0 then accept_retry_initial
      else let d2 = d * 2 in if d2 > accept_retry_max then accept_retry_max else d2)"

subsection \<open>The loops\<close>

datatype conn = Plain nat | Tracked nat string

fun conn_base :: "conn \<Rightarrow> nat" where
  "conn_base (Plain n) = n"
| "conn_base (Tracked n _) = n"

fun conn_is_tracked :: "conn \<Rightarrow> bool" where
  "conn_is_tracked (Plain n) = False"
| "conn_is_tracked (Tracked n _) = True"

record tcp_loop =
  tl_delay :: int
  tl_closed :: "nat list"              \<comment> \<open>clients closed because the dial failed\<close>
  tl_proxies :: "(conn \<times> conn) list"   \<comment> \<open>arguments of the calls of \<open>ProxyTCP\<close>\<close>
  tl_waits :: "int list"
  tl_act :: activity
  tl_ids :: int64
  tl_returned :: bool

datatype accept_event =
    AcceptFailed "error_link list" bool bool   \<comment> \<open>context cancelled already, cancelled during the wait\<close>
  | Accepted nat string "nat option"           \<comment> \<open>client, its remote address, the dialled connection\<close>

definition accept_failed :: "error_link list \<Rightarrow> bool \<Rightarrow> bool \<Rightarrow> tcp_loop \<Rightarrow> tcp_loop" where
  "accept_failed e cancelled cancelled_waiting s =
     (if cancelled then s\<lparr>tl_returned := True\<rparr>
      else if is_transient_accept_error e then
        let d = next_retry_delay (tl_delay s);
            t = s\<lparr>tl_delay := d, tl_waits := tl_waits s @ [d]\<rparr>
        in if cancelled_waiting then t\<lparr>tl_returned := True\<rparr> else t
      else s\<lparr>tl_returned := True\<rparr>)"

text \<open>\<open>mapped\<close> is the text of \<open>m.Mapped\<close>, \<open>cb\<close> says whether there is a callback.\<close>

definition local_tcp_turn :: "bool \<Rightarrow> string \<Rightarrow> accept_event \<Rightarrow> tcp_loop \<Rightarrow> tcp_loop" where
  "local_tcp_turn cb mapped ev s = (case ev of
     AcceptFailed e c w \<Rightarrow> accept_failed e c w s
   | Accepted c _ dial \<Rightarrow>
       let s0 = s\<lparr>tl_delay := 0\<rparr> in
       (case dial of
          None \<Rightarrow> s0\<lparr>tl_closed := tl_closed s0 @ [c]\<rparr>
        | Some r \<Rightarrow>
            if cb then
              (case generate_conn_id ''tcp'' mapped (tl_ids s0) of (ids, cid) \<Rightarrow>
                 s0\<lparr>tl_ids := ids, tl_act := act_increment (on_created cid ''tcp'' (tl_act s0)),
                    tl_proxies := tl_proxies s0 @ [(Plain c, Tracked r cid)]\<rparr>)
            else s0\<lparr>tl_proxies := tl_proxies s0 @ [(Plain c, Plain r)]\<rparr>))"

definition remote_tcp_turn :: "bool \<Rightarrow> accept_event \<Rightarrow> tcp_loop \<Rightarrow> tcp_loop" where
  "remote_tcp_turn cb ev s = (case ev of
     AcceptFailed e c w \<Rightarrow> accept_failed e c w s
   | Accepted c addr dial \<Rightarrow>
       let s0 = s\<lparr>tl_delay := 0\<rparr> in
       (case dial of
          None \<Rightarrow> s0\<lparr>tl_closed := tl_closed s0 @ [c]\<rparr>
        | Some r \<Rightarrow>
            if cb then
              (case generate_conn_id ''tcp-remote'' addr (tl_ids s0) of (ids, cid) \<Rightarrow>
                 s0\<lparr>tl_ids := ids, tl_act := act_increment (on_created cid ''tcp'' (tl_act s0)),
                    tl_proxies := tl_proxies s0 @ [(Tracked c cid, Plain r)]\<rparr>)
            else s0\<lparr>tl_proxies := tl_proxies s0 @ [(Plain c, Plain r)]\<rparr>))"

fun tcp_run :: "(accept_event \<Rightarrow> tcp_loop \<Rightarrow> tcp_loop) \<Rightarrow> accept_event list \<Rightarrow> tcp_loop \<Rightarrow> tcp_loop" where
  "tcp_run turn [] s = s"
| "tcp_run turn (e # es) s = (let t = turn e s in if tl_returned t then t else tcp_run turn es t)"

definition tcp_start :: "int64 \<Rightarrow> int64 \<Rightarrow> tcp_loop" where
  "tcp_start c0 ids = \<lparr>tl_delay = 0, tl_closed = [], tl_proxies = [], tl_waits = [],
     tl_act = \<lparr>act_counter = c0, act_events = []\<rparr>, tl_ids = ids, tl_returned = False\<rparr>"

text \<open>\<open>Start\<close> of one mapping: where the listen fails the goroutine returns at once.\<close>

definition tcp_forward ::
  "bool \<Rightarrow> (accept_event \<Rightarrow> tcp_loop \<Rightarrow> tcp_loop) \<Rightarrow> accept_event list \<Rightarrow> tcp_loop \<Rightarrow> tcp_loop" where
  "tcp_forward listen_ok turn evs s = (if listen_ok then tcp_run turn evs s else s\<lparr>tl_returned := True\<rparr>)"

subsection \<open>What both loops promise\<close>

text \<open>An event that ends the loop.\<close>

fun accept_fatal :: "accept_event \<Rightarrow> bool" where
  "accept_fatal (AcceptFailed e c w) = (c \<or> \<not> is_transient_accept_error e \<or> w)"
| "accept_fatal (Accepted _ _ _) = False"

fun refused_client :: "accept_event \<Rightarrow> nat option" where
  "refused_client (Accepted c _ None) = Some c"
| "refused_client _ = None"

fun proxied_pair :: "accept_event \<Rightarrow> (nat \<times> nat) option" where
  "proxied_pair (Accepted c _ (Some r)) = Some (c, r)"
| "proxied_pair _ = None"

abbreviation pair_bases :: "(conn \<times> conn) list \<Rightarrow> (nat \<times> nat) list" where
  "pair_bases ps \<equiv> map (map_prod conn_base conn_base) ps"

definition tracked_conns :: "(conn \<times> conn) list \<Rightarrow> conn list" where
  "tracked_conns ps = filter conn_is_tracked (concat (map (\<lambda>(a, b). [a, b]) ps))"

lemma tracked_conns_append [simp]: "tracked_conns (ps @ qs) = tracked_conns ps @ tracked_conns qs"
  by (simp add: tracked_conns_def)

text \<open>The delays of \<open>n\<close> transient errors in a row, from the delay the loop has.\<close>

fun retry_delays :: "int \<Rightarrow> nat \<Rightarrow> int list" where
  "retry_delays d 0 = []"
| "retry_delays d (Suc n) = next_retry_delay d # retry_delays (next_retry_delay d) n"

definition backoff :: "nat \<Rightarrow> int" where
  "backoff k = min accept_retry_max (accept_retry_initial * 2 ^ k)"

lemma backoff_pos: "0 < backoff k"
  by (simp add: backoff_def accept_retry_max_def accept_retry_initial_def)

lemma next_backoff: "next_retry_delay 0 = backoff 0" "next_retry_delay (backoff k) = backoff (Suc k)"
proof -
  show "next_retry_delay 0 = backoff 0"
    by (simp add: next_retry_delay_def backoff_def accept_retry_initial_def accept_retry_max_def)
  have "backoff k \<noteq> 0" using backoff_pos [of k] by simp
  then show "next_retry_delay (backoff k) = backoff (Suc k)"
    by (auto simp: next_retry_delay_def backoff_def Let_def min_def accept_retry_max_def)
qed

lemma retry_delays_backoff: "retry_delays (backoff k) n = map (\<lambda>i. backoff (k + Suc i)) [0..<n]"
proof (induction n arbitrary: k)
  case (Suc n)
  have "map (\<lambda>i. backoff (k + Suc i)) [0..<Suc n] = backoff (Suc k) # map (\<lambda>i. backoff (Suc k + Suc i)) [0..<n]"
    by (simp only: upt_conv_Cons [of 0] zero_less_Suc list.map map_Suc_upt [symmetric] map_map) simp
  then show ?case by (simp add: Suc next_backoff del: upt_Suc)
qed simp

lemma retry_delays_zero: "retry_delays 0 n = map backoff [0..<n]"
proof (cases n)
  case (Suc m)
  have "map backoff [0..<Suc m] = backoff 0 # map (\<lambda>i. backoff (Suc i)) [0..<m]"
    by (simp only: upt_conv_Cons [of 0] zero_less_Suc list.map map_Suc_upt [symmetric] map_map comp_def)
  then show ?thesis
    using retry_delays_backoff [of 0 m] by (simp add: Suc next_backoff del: upt_Suc)
qed simp

locale accept_loop =
  fixes turn :: "accept_event \<Rightarrow> tcp_loop \<Rightarrow> tcp_loop"
    and tracking :: bool
  assumes failed: "turn (AcceptFailed e cancelled w) s = accept_failed e cancelled w s"
    and refused: "turn (Accepted c a None) s = s\<lparr>tl_delay := 0, tl_closed := tl_closed s @ [c]\<rparr>"
    and proxied_pairs: "pair_bases (tl_proxies (turn (Accepted c a (Some r)) s)) = pair_bases (tl_proxies s) @ [(c, r)]"
    and proxied_rest: "tl_closed (turn (Accepted c a (Some r)) s) = tl_closed s"
      "tl_returned (turn (Accepted c a (Some r)) s) = tl_returned s"
      "tl_delay (turn (Accepted c a (Some r)) s) = 0"
      "tl_waits (turn (Accepted c a (Some r)) s) = tl_waits s"
    and proxied_count: "act_counter (tl_act (turn (Accepted c a (Some r)) s)) = act_counter (tl_act s) + of_bool tracking"
      "length (tracked_conns (tl_proxies (turn (Accepted c a (Some r)) s))) =
         length (tracked_conns (tl_proxies s)) + of_bool tracking"
begin

lemma returns: "\<not> tl_returned s \<Longrightarrow> tl_returned (turn e s) = accept_fatal e"
  by (cases e; cases "case e of Accepted _ _ d \<Rightarrow> d | _ \<Rightarrow> None")
     (auto simp: failed refused proxied_rest accept_failed_def Let_def)

lemma turn_closed: "tl_closed (turn e s) = tl_closed s @ List.map_filter refused_client [e]"
  by (cases e; cases "case e of Accepted _ _ d \<Rightarrow> d | _ \<Rightarrow> None")
     (auto simp: failed refused proxied_rest accept_failed_def Let_def map_filter_simps)

lemma turn_proxies: "pair_bases (tl_proxies (turn e s)) = pair_bases (tl_proxies s) @ List.map_filter proxied_pair [e]"
  by (cases e; cases "case e of Accepted _ _ d \<Rightarrow> d | _ \<Rightarrow> None")
     (auto simp: failed refused proxied_pairs accept_failed_def Let_def map_filter_simps)

lemma turn_count:
  "act_counter (tl_act (turn e s)) - of_nat (length (tracked_conns (tl_proxies (turn e s)))) =
   act_counter (tl_act s) - of_nat (length (tracked_conns (tl_proxies s)))"
  by (cases e; cases "case e of Accepted _ _ d \<Rightarrow> d | _ \<Rightarrow> None")
     (auto simp: failed refused proxied_count accept_failed_def Let_def)

text \<open>A run does the turns up to the first fatal event.\<close>

lemma run_clients:
  assumes "\<not> tl_returned s"
  shows "tl_closed (tcp_run turn evs s) = tl_closed s @ List.map_filter refused_client (takeWhile (Not \<circ> accept_fatal) evs) \<and>
     pair_bases (tl_proxies (tcp_run turn evs s)) =
       pair_bases (tl_proxies s) @ List.map_filter proxied_pair (takeWhile (Not \<circ> accept_fatal) evs) \<and>
     tl_returned (tcp_run turn evs s) = list_ex accept_fatal evs"
  using assms
proof (induction evs arbitrary: s)
  case Nil
  then show ?case by (simp add: map_filter_simps)
next
  case (Cons e evs)
  have fatal: "refused_client e = None" "proxied_pair e = None" if "accept_fatal e"
    using that by (cases e; simp)+
  show ?case
    using Cons.IH [of "turn e s"] Cons.prems fatal
    by (auto simp: Let_def returns turn_closed turn_proxies map_filter_simps split: option.splits)
qed

lemma run_count:
  "act_counter (tl_act (tcp_run turn evs s)) - of_nat (length (tracked_conns (tl_proxies (tcp_run turn evs s)))) =
   act_counter (tl_act s) - of_nat (length (tracked_conns (tl_proxies s)))"
  by (induction evs arbitrary: s) (simp_all add: Let_def turn_count)

text \<open>Consecutive transient errors that do not end the loop.\<close>

lemma run_transient:
  assumes "list_all (\<lambda>e. \<exists>c. e = AcceptFailed c False False \<and> is_transient_accept_error c) evs" "\<not> tl_returned s"
  shows "tl_waits (tcp_run turn evs s) = tl_waits s @ retry_delays (tl_delay s) (length evs)"
  using assms
proof (induction evs arbitrary: s)
  case (Cons e evs)
  then obtain c where e: "e = AcceptFailed c False False" "is_transient_accept_error c" by auto
  then have t: "turn e s = s\<lparr>tl_delay := next_retry_delay (tl_delay s), tl_waits := tl_waits s @ [next_retry_delay (tl_delay s)]\<rparr>"
    by (simp add: failed accept_failed_def Let_def)
  then show ?case
    using Cons.IH [of "turn e s"] Cons.prems by (simp add: t)
qed simp

lemma run_after_accept:
  assumes "tl_delay (turn (Accepted c a d) s) = 0"
    and "list_all (\<lambda>e. \<exists>c. e = AcceptFailed c False False \<and> is_transient_accept_error c) evs" "\<not> tl_returned s"
  shows "tl_waits (tcp_run turn (Accepted c a d # evs) s) = tl_waits s @ retry_delays 0 (length evs)"
proof -
  have w: "tl_waits (turn (Accepted c a d) s) = tl_waits s"
    by (cases d) (simp_all add: refused proxied_rest)
  show ?thesis
    using run_transient [OF assms(2), of "turn (Accepted c a d) s"] assms(1,3) by (simp add: w returns)
qed

end

interpretation local_tcp: accept_loop "local_tcp_turn cb mapped" cb for cb mapped
  by unfold_locales
     (simp_all add: local_tcp_turn_def Let_def act_increment_def on_created_def counter_increment_def
       tracked_conns_def split: prod.split)

interpretation remote_tcp: accept_loop "remote_tcp_turn cb" cb for cb
  by unfold_locales
     (simp_all add: remote_tcp_turn_def Let_def act_increment_def on_created_def counter_increment_def
       tracked_conns_def split: prod.split)

text \<open>Without a callback the loops leave the accounts alone.\<close>

lemma tcp_untracked:
  "act_counter (tl_act (tcp_run (local_tcp_turn False mapped) evs s)) = act_counter (tl_act s)"
  "act_counter (tl_act (tcp_run (remote_tcp_turn False) evs s)) = act_counter (tl_act s)"
proof -
  have "tl_act (local_tcp_turn False mapped e s) = tl_act s" "tl_act (remote_tcp_turn False e s) = tl_act s" for e s
    by (cases e; simp add: local_tcp_turn_def remote_tcp_turn_def accept_failed_def Let_def split: option.split)+
  then show "act_counter (tl_act (tcp_run (local_tcp_turn False mapped) evs s)) = act_counter (tl_act s)"
    "act_counter (tl_act (tcp_run (remote_tcp_turn False) evs s)) = act_counter (tl_act s)"
    by (induction evs arbitrary: s) (simp_all add: Let_def)
qed

subsection \<open>The end of the proxied connections\<close>

text \<open>
  \<open>ProxyTCP\<close> closes each of its connections once (\<open>proxy_closes_both\<close>); closing a tracked one runs
  \<open>TrackedConnObj.Close\<close>, whose callback may panic.
\<close>

fun close_conn :: "bool \<Rightarrow> conn \<Rightarrow> activity \<Rightarrow> activity" where
  "close_conn panics (Plain n) a = a"
| "close_conn panics (Tracked n cid) a =
     snd (snd (tracked_close panics (None :: unit option) (\<lparr>tc_id = cid, tc_once = False, tc_inner_closed = False\<rparr>, a)))"

definition close_conns :: "bool \<Rightarrow> conn list \<Rightarrow> activity \<Rightarrow> activity" where
  "close_conns panics cs a = fold (close_conn panics) cs a"

lemma close_conns_count: "act_counter (close_conns panics cs a) = act_counter a - of_nat (length (filter conn_is_tracked cs))"
proof (induction cs arbitrary: a)
  case (Cons c cs)
  then show ?case
    by (cases c) (simp_all add: close_conns_def tracked_close_def Let_def act_decrement_def on_closed_def counter_decrement_def)
qed (simp add: close_conns_def)

lemma tracked_conns_filter: "filter conn_is_tracked (tracked_conns ps) = tracked_conns ps"
  by (simp add: tracked_conns_def)

subsection \<open>Properties\<close>

text \<open>
  C8: both accept loops serve every client: until the first fatal error each accepted connection whose dial
  fails is closed and each other one is handed to exactly one \<open>ProxyTCP\<close> with the connection dialled for it,
  in order; after the fatal error nothing is accepted, and the loop returns exactly then.
\<close>

theorem tcp_loops_serve_every_client:
  "(let t = tcp_forward True (local_tcp_turn cb mapped) evs (tcp_start c0 ids); served = takeWhile (Not \<circ> accept_fatal) evs
    in tl_closed t = List.map_filter refused_client served \<and>
       map (map_prod conn_base conn_base) (tl_proxies t) = List.map_filter proxied_pair served \<and>
       tl_returned t = list_ex accept_fatal evs) \<and>
   (let t = tcp_forward True (remote_tcp_turn cb) evs (tcp_start c0 ids); served = takeWhile (Not \<circ> accept_fatal) evs
    in tl_closed t = List.map_filter refused_client served \<and>
       map (map_prod conn_base conn_base) (tl_proxies t) = List.map_filter proxied_pair served \<and>
       tl_returned t = list_ex accept_fatal evs)"
proof -
  have n: "\<not> tl_returned (tcp_start c0 ids)" by (simp add: tcp_start_def)
  show ?thesis
    using local_tcp.run_clients [OF n, of cb mapped evs] remote_tcp.run_clients [OF n, of cb evs]
    by (simp add: Let_def tcp_forward_def) (simp add: tcp_start_def)
qed

text \<open>
  after an accepted connection the \<open>k\<close>-th transient accept error in a row makes either loop wait
  \<open>min 1s (5ms * 2^(k-1))\<close>: the delay doubles from 5 ms, never exceeds one second, and an accepted
  connection resets it.
\<close>

theorem tcp_backoff_doubles:
  assumes "list_all (\<lambda>e. \<exists>c. e = AcceptFailed c False False \<and> is_transient_accept_error c) evs" "\<not> tl_returned s"
  shows "tl_waits (tcp_run (local_tcp_turn cb mapped) (Accepted c a d # evs) s) =
       tl_waits s @ map (\<lambda>k. min (10 ^ 9) (5 * 10 ^ 6 * 2 ^ k)) [0..<length evs] \<and>
     tl_waits (tcp_run (remote_tcp_turn cb) (Accepted c a d # evs) s) =
       tl_waits s @ map (\<lambda>k. min (10 ^ 9) (5 * 10 ^ 6 * 2 ^ k)) [0..<length evs]"
proof -
  have b: "backoff = (\<lambda>k. min (10 ^ 9) (5 * 10 ^ 6 * 2 ^ k))"
    by (simp add: backoff_def fun_eq_iff accept_retry_max_def accept_retry_initial_def)
  have "tl_delay (local_tcp_turn cb mapped (Accepted c a d) s) = 0" "tl_delay (remote_tcp_turn cb (Accepted c a d) s) = 0"
    by (cases d; simp add: local_tcp.refused local_tcp.proxied_rest remote_tcp.refused remote_tcp.proxied_rest)+
  then show ?thesis
    using local_tcp.run_after_accept [OF _ assms] remote_tcp.run_after_accept [OF _ assms]
    by (simp only: retry_delays_zero b)
qed

theorem tcp_backoff_doubles_witness:
  "tl_waits (tcp_run (remote_tcp_turn True)
     (Accepted 1 ''[200::1]:5'' (Some 2) # replicate 10 (AcceptFailed [\<lparr>el_net_error = True, el_temporary = True\<rparr>] False False))
     (tcp_start 0 0)) =
   [5000000, 10000000, 20000000, 40000000, 80000000, 160000000, 320000000, 640000000, 1000000000, 1000000000]"
proof -
  let ?e = "AcceptFailed [\<lparr>el_net_error = True, el_temporary = True\<rparr>] False False"
  have h: "list_all (\<lambda>e. \<exists>c. e = AcceptFailed c False False \<and> is_transient_accept_error c) (replicate 10 ?e)"
    by (simp add: list_all_length is_transient_accept_error_def)
  have n: "\<not> tl_returned (tcp_start 0 0)" by (simp add: tcp_start_def)
  have "[0..<10] = [0, 1, 2, 3, 4, 5, 6, 7, 8, 9::nat]" by (simp add: upt_rec)
  then show ?thesis
    using conjunct2 [OF tcp_backoff_doubles [OF h n, of True "''''" 1 "''[200::1]:5''" "Some 2"]]
    by (simp add: tcp_start_def)
qed

text \<open>
  the counter of tracked connections is released: when the tracked ends of all pairs a loop handed to
  \<open>ProxyTCP\<close> have been closed, whether the callback panicked or not, the counter has its initial value again.
\<close>

theorem tcp_counter_returns:
  "act_counter (close_conns p (tracked_conns (tl_proxies (tcp_run (local_tcp_turn cb mapped) evs (tcp_start c0 ids))))
      (tl_act (tcp_run (local_tcp_turn cb mapped) evs (tcp_start c0 ids)))) = c0 \<and>
   act_counter (close_conns p (tracked_conns (tl_proxies (tcp_run (remote_tcp_turn cb) evs (tcp_start c0 ids))))
      (tl_act (tcp_run (remote_tcp_turn cb) evs (tcp_start c0 ids)))) = c0"
  using local_tcp.run_count [of cb mapped evs "tcp_start c0 ids"] remote_tcp.run_count [of cb evs "tcp_start c0 ids"]
  by (simp add: close_conns_count tracked_conns_filter) (simp add: tcp_start_def tracked_conns_def)

end
