(* ===== verification/Socks.thy ===== *)
theory Socks
  imports Activity
begin

text \<open>
  The SOCKS5 front end (\<open>mod/mapping/socks.go\<close>, \<open>func.go\<close>): the listener on a TCP address or a Unix
  socket, the recovery from a stale socket file, and the tracked dial function it hands to the SOCKS server.

  The SOCKS5 protocol itself is a third-party package. What the operating system answers to the calls of
  \<open>StartSocks\<close> is the record \<open>socks_env\<close>, one field per call in the order of the code; what \<open>StartSocks\<close>
  does is the list of effects it returns besides its result.
\<close>

subsection \<open>Is the address already in use?\<close>

text \<open>An error under \<open>Unwrap\<close>, outermost link first.\<close>

datatype os_error_link = OsSyscallError | Errno nat | OtherError

fun errno_of :: "os_error_link \<Rightarrow> nat option" where
  "errno_of (Errno n) = Some n"
| "errno_of _ = None"

text \<open>\<open>eaddrinuse\<close> is \<open>syscall.EADDRINUSE\<close> of the platform, \<open>windows\<close> is \<open>runtime.GOOS == "windows"\<close>.\<close>

definition wsaeaddrinuse :: nat where
  "wsaeaddrinuse = 10048"

definition is_error_address_already_in_use :: "bool \<Rightarrow> nat \<Rightarrow> os_error_link list \<Rightarrow> bool" where
  "is_error_address_already_in_use windows eaddrinuse chain =
     (case dropWhile (\<lambda>l. l \<noteq> OsSyscallError) chain of
        [] \<Rightarrow> False
      | rest \<Rightarrow>
          (case List.map_filter errno_of rest of
             [] \<Rightarrow> False
           | n # _ \<Rightarrow> n = eaddrinuse \<or> windows \<and> n = wsaeaddrinuse))"

subsection \<open>Removing a stale socket\<close>

datatype socks_error =
    LstatFailed string
  | RefusedSymlink string
  | RemoveFailed string
  | ListenTcpFailed string
  | ListenUnixFailed string
  | AnotherInstance string

datatype socks_effect =
    RemovedFile string
  | ProbeClosed
  | ReadyClosed
  | ServeStarted

text \<open>\<open>lstat\<close> is None where \<open>os.Lstat\<close> fails, otherwise whether the mode has the symlink bit.\<close>

definition remove_unix_socket :: "string \<Rightarrow> bool option \<Rightarrow> bool \<Rightarrow> socks_error option \<times> socks_effect list" where
  "remove_unix_socket path lstat remove_ok =
     (case lstat of
        None \<Rightarrow> (Some (LstatFailed path), [])
      | Some is_symlink \<Rightarrow>
          if is_symlink then (Some (RefusedSymlink path), [])
          else if \<not> remove_ok then (Some (RemoveFailed path), [])
          else (None, [RemovedFile path]))"

subsection \<open>Start\<close>

record socks_env =
  se_listen :: "os_error_link list + nat"    \<comment> \<open>\<open>net.Listen\<close>: an error or a listener\<close>
  se_probe :: bool                            \<comment> \<open>does \<open>net.Dial\<close> reach somebody\<close>
  se_lstat :: "bool option"
  se_remove :: bool
  se_relisten :: "os_error_link list + nat"
  se_windows :: bool
  se_eaddrinuse :: nat

record socks_result =
  sr_listener :: nat
  sr_is_unix :: bool

definition socks_listen :: "string \<Rightarrow> socks_env \<Rightarrow> (socks_error + socks_result) \<times> socks_effect list" where
  "socks_listen addr env =
     (if CHR '':'' \<in> set addr then
        (case se_listen env of
           Inl e \<Rightarrow> (Inl (ListenTcpFailed addr), [])
         | Inr l \<Rightarrow> (Inr \<lparr>sr_listener = l, sr_is_unix = False\<rparr>, []))
      else
        (case se_listen env of
           Inr l \<Rightarrow> (Inr \<lparr>sr_listener = l, sr_is_unix = True\<rparr>, [])
         | Inl e \<Rightarrow>
             if is_error_address_already_in_use (se_windows env) (se_eaddrinuse env) e then
               if \<not> se_probe env then
                 (case remove_unix_socket addr (se_lstat env) (se_remove env) of
                    (Some err, fx) \<Rightarrow> (Inl err, fx)
                  | (None, fx) \<Rightarrow>
                      (case se_relisten env of
                         Inr l \<Rightarrow> (Inr \<lparr>sr_listener = l, sr_is_unix = True\<rparr>, fx)
                       | Inl e2 \<Rightarrow> (Inl (ListenUnixFailed addr), fx)))
               else (Inl (AnotherInstance addr), [ProbeClosed])
             else (Inl (ListenUnixFailed addr), [])))"

text \<open>\<open>ready\<close> says whether there is a channel to close when the listener is up.\<close>

definition start_socks :: "string \<Rightarrow> bool \<Rightarrow> socks_env \<Rightarrow> (socks_error + socks_result) \<times> socks_effect list" where
  "start_socks addr ready env =
     (case socks_listen addr env of
        (Inl err, fx) \<Rightarrow> (Inl err, fx)
      | (Inr r, fx) \<Rightarrow> (Inr r, fx @ (if ready then [ReadyClosed] else []) @ [ServeStarted]))"

subsection \<open>The dial function of the SOCKS server\<close>

text \<open>
  \<open>dialled\<close> is what \<open>ns.DialContext\<close> returns. With a callback the connection is announced, counted and
  wrapped; without one it is passed through.
\<close>

definition socks_dial ::
  "bool \<Rightarrow> string \<Rightarrow> 'e + nat \<Rightarrow> int64 \<times> activity \<Rightarrow> ('e + nat \<times> string option) \<times> int64 \<times> activity" where
  "socks_dial cb addr dialled s = (case dialled of
       Inl e \<Rightarrow> (Inl e, s)
     | Inr c \<Rightarrow>
         if cb then
           (case generate_conn_id ''socks'' addr (fst s) of (ids, cid) \<Rightarrow>
              (Inr (c, Some cid), ids, act_increment (on_created cid ''socks'' (snd s))))
         else (Inr (c, None), s))"

lemma socks_listen_tcp:
  "CHR '':'' \<in> set addr \<Longrightarrow> snd (socks_listen addr env) = []"
  by (simp add: socks_listen_def split: sum.split)

lemma removed_file:
  "RemovedFile p \<in> set (snd (socks_listen addr env)) \<longleftrightarrow>
   p = addr \<and> CHR '':'' \<notin> set addr \<and>
   (\<exists>e. se_listen env = Inl e \<and> is_error_address_already_in_use (se_windows env) (se_eaddrinuse env) e) \<and>
   \<not> se_probe env \<and> se_lstat env = Some False \<and> se_remove env"
  by (cases "se_lstat env") (auto simp: socks_listen_def remove_unix_socket_def split: sum.splits)

lemma listen_effects:
  "ReadyClosed \<notin> set (snd (socks_listen addr env))" "ServeStarted \<notin> set (snd (socks_listen addr env))"
  by (cases "se_lstat env"; auto simp: socks_listen_def remove_unix_socket_def split: sum.splits)+

subsection \<open>Properties\<close>

text \<open>
  \<open>StartSocks\<close> removes a file only at its own path, when that path is no TCP address, the listen failed
  because the address is in use, nobody answers on the socket, and the path is not a symbolic link.
\<close>

theorem socks_removes_only_stale_socket:
  "(RemovedFile p \<in> set (snd (start_socks addr ready env))) =
   (p = addr \<and> CHR '':'' \<notin> set addr \<and>
    (\<exists>e. se_listen env = Inl e \<and> is_error_address_already_in_use (se_windows env) (se_eaddrinuse env) e) \<and>
    \<not> se_probe env \<and> se_lstat env = Some False \<and> se_remove env)"
  unfolding removed_file [symmetric]
  by (auto simp: start_socks_def split: prod.splits sum.splits)

text \<open>
  the readiness channel is closed, and the server started, exactly when \<open>StartSocks\<close> succeeds, and the
  result says that the listener is a Unix socket exactly when the address has no colon.
\<close>

theorem socks_ready_iff_listening:
  "(ServeStarted \<in> set (snd (start_socks addr ready env))) = (\<not> isl (fst (start_socks addr ready env))) \<and>
   count_list (snd (start_socks addr ready env)) ReadyClosed = of_bool (ready \<and> \<not> isl (fst (start_socks addr ready env))) \<and>
   (case fst (start_socks addr ready env) of Inr r \<Rightarrow> sr_is_unix r = (CHR '':'' \<notin> set addr) | Inl e \<Rightarrow> True)"
proof -
  have n: "count_list (snd (socks_listen addr env)) ReadyClosed = 0"
    using listen_effects(1) [of addr env] by (simp add: count_list_0_iff)
  have u: "case fst (socks_listen addr env) of Inr r \<Rightarrow> sr_is_unix r = (CHR '':'' \<notin> set addr) | Inl e \<Rightarrow> True"
    by (cases "se_lstat env") (auto simp: socks_listen_def remove_unix_socket_def split: sum.splits)
  obtain r fx where l: "socks_listen addr env = (r, fx)" by (cases "socks_listen addr env")
  show ?thesis
    using n u listen_effects(2) [of addr env] by (cases r) (auto simp: start_socks_def l)
qed

text \<open>
  a connection dialled through SOCKS with a callback is announced and counted, and closing it any number
  of times brings the counter back; a failed dial and a proxy without a callback leave the accounts alone.
\<close>

theorem socks_dial_accounts:
  "(case socks_dial cb addr dialled (ids, a) of
      (Inr (c, Some cid), ids', a') \<Rightarrow>
        cb \<and> act_counter a' = act_counter a + 1 \<and> act_events a' = act_events a @ [ConnCreated cid ''socks''] \<and>
        act_counter (snd (fold tracked_close_state (x # xs) (\<lparr>tc_id = cid, tc_once = False, tc_inner_closed = False\<rparr>, a')))
          = act_counter a
    | (_, ids', a') \<Rightarrow> ids' = ids \<and> a' = a \<and> (isl dialled \<or> cb = False))"
proof -
  have "act_counter (snd (fold tracked_close_state (x # xs) (\<lparr>tc_id = cid, tc_once = False, tc_inner_closed = False\<rparr>, a')))
      = act_counter a' - 1" for cid a'
    using tracked.count_close_many [of "(\<lparr>tc_id = cid, tc_once = False, tc_inner_closed = False\<rparr>, a')" x xs]
    by (simp only: fst_conv snd_conv tracked_conn.select_convs simp_thms)
  then show ?thesis
    by (auto simp: socks_dial_def act_increment_def on_created_def counter_increment_def split: sum.split prod.split)
qed

end
