(* ===== verification/LowPower.thy ===== *)
theory LowPower
  imports GoPrelude
begin

text \<open>
  Low power mode (\<open>mod/lowpower\<close>): the manager that puts an idle node to sleep and wakes it, and the wake
  trigger that listens on the SOCKS address in between.

  The manager drives a node it knows only through \<open>NodeControlInterface\<close>: the record \<open>node_ops\<close> holds
  its methods, over an abstract node state. A method that never returns is the value None. The locale
  \<open>node_control\<close> states what the manager relies on; the node's own adapter is its interpretation. All
  transitions belong to the goroutine \<open>Run\<close>, so the manager is a function of the events it selects;
  signals of other goroutines are events of their own, and those arriving while a transition is under way
  are part of its environment.
\<close>

subsection \<open>The node as the manager sees it\<close>

record ('n, 'cfg, 'e) node_ops =
  op_stop :: "'n \<Rightarrow> 'n option"
  op_start :: "'cfg option \<Rightarrow> 'e \<Rightarrow> 'n \<Rightarrow> (bool \<times> 'n) option"   \<comment> \<open>the flag is \<open>err == nil\<close>\<close>
  op_count :: "'n \<Rightarrow> int"
  op_socks_addr :: "'n \<Rightarrow> string"
  op_socks_is_unix :: "'n \<Rightarrow> bool"
  op_ready :: "'n \<Rightarrow> bool option"    \<comment> \<open>None for a nil channel, else whether it is closed\<close>

locale node_control =
  fixes ops :: "('n, 'cfg, 'e) node_ops"
    and up :: "'n \<Rightarrow> bool"
    and down :: "'n \<Rightarrow> bool"
  assumes stop_up: "up n \<Longrightarrow> \<exists>m. op_stop ops n = Some m \<and> down m"
    and start_down: "down n \<Longrightarrow> \<exists>ok m. op_start ops c e n = Some (ok, m) \<and> (if ok then up m else down m)"

subsection \<open>State\<close>

datatype power_state = FullPower | Stopping | LowPower | Starting

record ('n, 'cfg) manager =
  lm_node :: 'n
  lm_state :: power_state
  lm_cancelled :: bool
  lm_wake :: bool                 \<comment> \<open>\<open>wakeCh\<close>, of capacity 1\<close>
  lm_idle_timeout :: int          \<comment> \<open>nanoseconds\<close>
  lm_orig :: "'cfg option"
  lm_listener :: "string option"  \<comment> \<open>address of the wake listener\<close>
  lm_last :: int                  \<comment> \<open>\<open>lastActivityAt\<close>, in seconds\<close>

definition default_idle_timeout :: int where
  "default_idle_timeout = 60 * 10 ^ 9"

definition new_manager :: "'n \<Rightarrow> int \<Rightarrow> int \<Rightarrow> ('n, 'cfg) manager" where
  "new_manager n timeout now =
     \<lparr>lm_node = n, lm_state = FullPower, lm_cancelled = False, lm_wake = False,
      lm_idle_timeout = (if timeout \<le> 0 then default_idle_timeout else timeout),
      lm_orig = None, lm_listener = None, lm_last = now\<rparr>"

definition touch_activity :: "int \<Rightarrow> ('n, 'cfg) manager \<Rightarrow> ('n, 'cfg) manager" where
  "touch_activity now m = m\<lparr>lm_last := now\<rparr>"

definition idle_seconds :: "int \<Rightarrow> ('n, 'cfg) manager \<Rightarrow> int" where
  "idle_seconds now m = now - lm_last m"

definition transition_to_full_power :: "('n, 'cfg) manager \<Rightarrow> ('n, 'cfg) manager" where
  "transition_to_full_power m = m\<lparr>lm_wake := True\<rparr>"

definition is_low_power :: "('n, 'cfg) manager \<Rightarrow> bool" where
  "is_low_power m \<longleftrightarrow> lm_state m = LowPower \<or> lm_state m = Stopping"

definition get_state :: "('n, 'cfg) manager \<Rightarrow> power_state" where
  "get_state m = lm_state m"

definition set_orig_config :: "'cfg option \<Rightarrow> ('n, 'cfg) manager \<Rightarrow> ('n, 'cfg) manager" where
  "set_orig_config c m = m\<lparr>lm_orig := c\<rparr>"

subsection \<open>The wake trigger\<close>

text \<open>\<open>listen_ok\<close> is whether \<open>net.Listen\<close> succeeds; a failure leaves the trigger as it is.\<close>

definition start_wake_trigger :: "bool \<Rightarrow> string \<Rightarrow> ('n, 'cfg) manager \<Rightarrow> bool \<times> ('n, 'cfg) manager" where
  "start_wake_trigger listen_ok addr m = (if listen_ok then (True, m\<lparr>lm_listener := Some addr\<rparr>) else (False, m))"

definition close_wake_listener :: "('n, 'cfg) manager \<Rightarrow> ('n, 'cfg) manager" where
  "close_wake_listener m = m\<lparr>lm_listener := None\<rparr>"

text \<open>
  A connection accepted by the trigger. After the wake request the handler looks at the readiness channel
  the node has at that moment and waits for it, for the timeout, or for the manager to stop; then it
  dials the SOCKS address and proxies. The environment says whether an open channel gets closed before the
  timeout, whether the manager stops first, and whether the dial succeeds.
\<close>

record handler_env =
  he_ready :: bool
  he_stopped :: bool
  he_dial :: bool

datatype wake_result =
    WakeDropped              \<comment> \<open>SOCKS not ready within the timeout, connection closed\<close>
  | WakeAborted              \<comment> \<open>the manager stopped, connection closed\<close>
  | WakeDialFailed string    \<comment> \<open>connection closed\<close>
  | WakeProxied string       \<comment> \<open>handed to \<open>ProxyTCP\<close> with a connection to this address\<close>

definition handle_wake_connection ::
  "('n, 'cfg, 'e) node_ops \<Rightarrow> handler_env \<Rightarrow> ('n, 'cfg) manager \<Rightarrow> wake_result \<times> ('n, 'cfg) manager" where
  "handle_wake_connection ops env m =
     (let m1 = transition_to_full_power m;
          ready = (case op_ready ops (lm_node m1) of
                     None \<Rightarrow> False | Some closed \<Rightarrow> closed \<or> he_ready env);
          addr = op_socks_addr ops (lm_node m1)
      in if \<not> ready then (if he_stopped env then WakeAborted else WakeDropped, m1)
         else if \<not> he_dial env then (WakeDialFailed addr, m1)
         else (WakeProxied addr, m1))"

subsection \<open>Transitions\<close>

record 'e wake_env =
  we_start :: 'e
  we_relisten :: bool
  we_now :: int

record 'e sleep_env =
  sv_listen :: bool          \<comment> \<open>does the wake trigger get its listener\<close>
  sv_restart :: 'e           \<comment> \<open>environment of the restart where it does not\<close>
  sv_woken :: bool           \<comment> \<open>does a wake request arrive during the transition\<close>
  sv_wake :: "'e wake_env"

text \<open>Falling asleep, in two halves: up to the call that stops the node, and from its return.\<close>

definition finish_sleep ::
  "('n, 'cfg, 'e) node_ops \<Rightarrow> int \<Rightarrow> 'e sleep_env \<Rightarrow> string \<Rightarrow> ('n, 'cfg) manager \<Rightarrow> ('n, 'cfg) manager option" where
  "finish_sleep ops now env addr m =
     (if addr \<noteq> '''' then
        (case start_wake_trigger (sv_listen env) addr m of
           (True, m1) \<Rightarrow> Some (m1\<lparr>lm_state := LowPower\<rparr>)
         | (False, m1) \<Rightarrow>
             (case op_start ops (lm_orig m1) (sv_restart env) (lm_node m1) of
                None \<Rightarrow> None
              | Some (False, n) \<Rightarrow> Some (m1\<lparr>lm_node := n, lm_state := LowPower\<rparr>)
              | Some (True, n) \<Rightarrow> Some ((touch_activity now (m1\<lparr>lm_node := n\<rparr>))\<lparr>lm_state := FullPower\<rparr>)))
      else Some (m\<lparr>lm_state := LowPower\<rparr>))"

definition begin_sleep :: "('n, 'cfg) manager \<Rightarrow> ('n, 'cfg) manager" where
  "begin_sleep m = m\<lparr>lm_state := Stopping\<rparr>"

definition transition_to_low_power ::
  "('n, 'cfg, 'e) node_ops \<Rightarrow> int \<Rightarrow> 'e sleep_env \<Rightarrow> ('n, 'cfg) manager \<Rightarrow> ('n, 'cfg) manager option" where
  "transition_to_low_power ops now env m =
     (if lm_state m \<noteq> FullPower then Some m
      else
        let m1 = begin_sleep m; addr = op_socks_addr ops (lm_node m1) in
        (case op_stop ops (lm_node m1) of
           None \<Rightarrow> None
         | Some n \<Rightarrow> finish_sleep ops now env addr (m1\<lparr>lm_node := n\<rparr>)))"

lemmas sleep_defs = transition_to_low_power_def finish_sleep_def begin_sleep_def

text \<open>Waking up, in two halves: up to the close of the wake listener, and from the start of the node.\<close>

definition begin_wake :: "('n, 'cfg) manager \<Rightarrow> ('n, 'cfg) manager" where
  "begin_wake m = close_wake_listener (m\<lparr>lm_state := Starting\<rparr>)"

definition finish_wake ::
  "('n, 'cfg, 'e) node_ops \<Rightarrow> 'e wake_env \<Rightarrow> ('n, 'cfg) manager \<Rightarrow> ('n, 'cfg) manager option" where
  "finish_wake ops env m =
     (case op_start ops (lm_orig m) (we_start env) (lm_node m) of
        None \<Rightarrow> None
      | Some (False, n) \<Rightarrow>
          let m1 = m\<lparr>lm_node := n\<rparr>; addr = op_socks_addr ops n;
              m2 = (if addr \<noteq> '''' then snd (start_wake_trigger (we_relisten env) addr m1) else m1)
          in Some (m2\<lparr>lm_state := LowPower\<rparr>)
      | Some (True, n) \<Rightarrow>
          Some ((touch_activity (we_now env) (m\<lparr>lm_node := n\<rparr>))\<lparr>lm_state := FullPower\<rparr>))"

definition do_transition_to_full_power ::
  "('n, 'cfg, 'e) node_ops \<Rightarrow> 'e wake_env \<Rightarrow> ('n, 'cfg) manager \<Rightarrow> ('n, 'cfg) manager option" where
  "do_transition_to_full_power ops env m = finish_wake ops env (begin_wake m)"

subsection \<open>Run\<close>

text \<open>\<open>Stop\<close> as far as the manager's own state goes; the handlers it waits for end with the context.\<close>

definition stop_manager :: "('n, 'cfg) manager \<Rightarrow> ('n, 'cfg) manager" where
  "stop_manager m = close_wake_listener (m\<lparr>lm_cancelled := True\<rparr>)"

text \<open>
  What \<open>Run\<close> selects, one event for each turn of its loop, between the signals of other goroutines. An event
  whose channel is not ready is skipped. When the context is done as well, \<open>select\<close> is free to take another
  channel that is ready first, so a wake request or a tick may still be served after \<open>Stop\<close>.
\<close>

datatype 'e run_event =
    Signal                         \<comment> \<open>\<open>TransitionToFullPower\<close> by another goroutine\<close>
  | StopSignal                     \<comment> \<open>\<open>Stop\<close> by another goroutine\<close>
  | DoneEvent
  | WakeEvent "'e wake_env"
  | TickEvent int "'e sleep_env"   \<comment> \<open>the Unix time\<close>

definition run_tick ::
  "('n, 'cfg, 'e) node_ops \<Rightarrow> int \<Rightarrow> 'e sleep_env \<Rightarrow> ('n, 'cfg) manager \<Rightarrow> ('n, 'cfg) manager option" where
  "run_tick ops now env m =
     (if lm_state m \<noteq> FullPower then Some m
      else if op_count ops (lm_node m) > 0 then Some (touch_activity now m)
      else if idle_seconds now m * 10 ^ 9 \<ge> lm_idle_timeout m then
        (case transition_to_low_power ops now env m of
           None \<Rightarrow> None
         | Some m1 \<Rightarrow>
             let m2 = (if sv_woken env then transition_to_full_power m1 else m1) in
             if lm_wake m2 then do_transition_to_full_power ops (sv_wake env) (m2\<lparr>lm_wake := False\<rparr>) else Some m2)
      else Some m)"

definition run_turn ::
  "('n, 'cfg, 'e) node_ops \<Rightarrow> 'e run_event \<Rightarrow> ('n, 'cfg) manager \<Rightarrow> ('n, 'cfg) manager option" where
  "run_turn ops ev m = (case ev of
       Signal \<Rightarrow> Some (transition_to_full_power m)
     | StopSignal \<Rightarrow> Some (stop_manager m)
     | DoneEvent \<Rightarrow> Some m
     | WakeEvent env \<Rightarrow>
         if \<not> lm_wake m then Some m
         else
           let m1 = m\<lparr>lm_wake := False\<rparr> in
           if lm_state m1 \<noteq> FullPower then do_transition_to_full_power ops env m1 else Some m1
     | TickEvent now env \<Rightarrow> run_tick ops now env m)"

fun run_manager ::
  "('n, 'cfg, 'e) node_ops \<Rightarrow> 'e run_event list \<Rightarrow> ('n, 'cfg) manager \<Rightarrow> ('n, 'cfg) manager option" where
  "run_manager ops [] m = Some m"
| "run_manager ops (e # es) m =
     (if e = DoneEvent \<and> lm_cancelled m then Some m
      else (case run_turn ops e m of None \<Rightarrow> None | Some m1 \<Rightarrow> run_manager ops es m1))"

text \<open>The ticker: it fires at least once in each interval; times are Unix seconds.\<close>

definition idle_check_interval :: int where
  "idle_check_interval = 10 * 10 ^ 9"

definition tick_seconds :: int where
  "tick_seconds = idle_check_interval div 10 ^ 9"

definition tick :: "int \<times> 'e sleep_env \<Rightarrow> 'e run_event" where
  "tick x = TickEvent (fst x) (snd x)"

lemma tick_not_done [simp]: "tick x \<noteq> DoneEvent"
  by (simp add: tick_def)

fun ticks_within :: "int \<Rightarrow> (int \<times> 'e sleep_env) list \<Rightarrow> bool" where
  "ticks_within t [] = True"
| "ticks_within t ((now, env) # ts) = (t \<le> now \<and> now \<le> t + tick_seconds \<and> ticks_within now ts)"

subsection \<open>What holds between two turns\<close>

text \<open>
  A sleep that fails to get its wake listener restarts the node; if a wake request is pending then, the node
  is started a second time. \<open>calm\<close> excludes a failing wake listener together with a pending request.
\<close>

fun calm :: "'e run_event \<Rightarrow> ('n, 'cfg) manager \<Rightarrow> bool" where
  "calm (TickEvent now env) m = (sv_listen env \<or> \<not> (lm_wake m \<or> sv_woken env))"
| "calm _ m = True"

fun calm_run :: "('n, 'cfg, 'e) node_ops \<Rightarrow> 'e run_event list \<Rightarrow> ('n, 'cfg) manager \<Rightarrow> bool" where
  "calm_run ops [] m = True"
| "calm_run ops (e # es) m =
     (calm e m \<and> (case run_turn ops e m of None \<Rightarrow> True | Some m1 \<Rightarrow> calm_run ops es m1))"

definition power_inv :: "('n \<Rightarrow> bool) \<Rightarrow> ('n \<Rightarrow> bool) \<Rightarrow> ('n, 'cfg) manager \<Rightarrow> bool" where
  "power_inv up down m \<longleftrightarrow> (case lm_state m of
       FullPower \<Rightarrow> up (lm_node m) \<and> lm_listener m = None
     | LowPower \<Rightarrow> down (lm_node m)
     | _ \<Rightarrow> False)"

lemmas lm_updates = stop_manager_def touch_activity_def transition_to_full_power_def start_wake_trigger_def close_wake_listener_def

context node_control begin

lemma wake_from_sleep:
  assumes "down (lm_node m)"
  shows "\<exists>m'. do_transition_to_full_power ops env m = Some m' \<and> power_inv up down m' \<and> lm_cancelled m' = lm_cancelled m"
proof -
  obtain ok n where n: "op_start ops (lm_orig m) (we_start env) (lm_node m) = Some (ok, n)" "if ok then up n else down n"
    using start_down [OF assms] by blast
  then show ?thesis
    by (cases ok) (auto simp: do_transition_to_full_power_def finish_wake_def begin_wake_def lm_updates
        power_inv_def Let_def)
qed

lemma sleep:
  assumes "lm_state m = FullPower" "power_inv up down m"
  shows "\<exists>m'. transition_to_low_power ops now env m = Some m' \<and> power_inv up down m' \<and>
    lm_cancelled m' = lm_cancelled m \<and> lm_wake m' = lm_wake m \<and> (sv_listen env \<longrightarrow> lm_state m' = LowPower)"
proof -
  obtain n where n: "op_stop ops (lm_node m) = Some n" "down n"
    using stop_up assms by (auto simp: power_inv_def)
  obtain ok k where k: "op_start ops (lm_orig m) (sv_restart env) n = Some (ok, k)" "if ok then up k else down k"
    using start_down [OF n(2)] by blast
  show ?thesis
    using assms n k
    by (cases ok) (auto simp: sleep_defs Let_def lm_updates power_inv_def)
qed

lemma sleep_from:
  assumes "lm_state m = FullPower" "power_inv up down m"
  obtains m' where "transition_to_low_power ops now env m = Some m'" "power_inv up down m'"
    "lm_wake m' = lm_wake m" "sv_listen env \<Longrightarrow> lm_state m' = LowPower"
  using sleep [OF assms, of now env] by blast

lemma turn_keeps:
  assumes inv: "power_inv up down m" and calm: "calm e m"
  shows "\<exists>m'. run_turn ops e m = Some m' \<and> power_inv up down m'"
proof (cases e)
  case Signal
  then show ?thesis using inv by (auto simp: run_turn_def lm_updates power_inv_def split: power_state.splits)
next
  case StopSignal
  then show ?thesis using inv by (auto simp: run_turn_def lm_updates power_inv_def split: power_state.splits)
next
  case DoneEvent
  then show ?thesis using inv by (simp add: run_turn_def)
next
  case (WakeEvent env)
  show ?thesis
  proof (cases "lm_wake m \<and> lm_state m \<noteq> FullPower")
    case True
    then have "down (lm_node (m\<lparr>lm_wake := False\<rparr>))" using inv by (auto simp: power_inv_def split: power_state.splits)
    then show ?thesis
      using True WakeEvent wake_from_sleep [of "m\<lparr>lm_wake := False\<rparr>" env] by (auto simp: run_turn_def Let_def)
  next
    case False
    then show ?thesis using inv WakeEvent by (auto simp: run_turn_def Let_def power_inv_def split: power_state.splits)
  qed
next
  case (TickEvent now env)
  show ?thesis
  proof (cases "lm_state m = FullPower \<and> op_count ops (lm_node m) \<le> 0 \<and> idle_seconds now m * 10 ^ 9 \<ge> lm_idle_timeout m")
    case True
    then obtain m1 where m1: "transition_to_low_power ops now env m = Some m1" "power_inv up down m1"
        "lm_wake m1 = lm_wake m" "sv_listen env \<Longrightarrow> lm_state m1 = LowPower"
      using sleep_from [OF _ inv, of now env] by metis
    show ?thesis
    proof (cases "lm_wake m \<or> sv_woken env")
      case woken: True
      with calm TickEvent m1 have "down (lm_node m1)" by (auto simp: power_inv_def)
      then obtain m2 where "do_transition_to_full_power ops (sv_wake env) (m1\<lparr>lm_wake := False\<rparr>) = Some m2" "power_inv up down m2"
        using wake_from_sleep [of "m1\<lparr>lm_wake := False\<rparr>" "sv_wake env"] by auto
      then show ?thesis
        using True m1 woken TickEvent by (auto simp: run_turn_def run_tick_def lm_updates Let_def)
    next
      case False
      then show ?thesis
        using True m1 TickEvent by (auto simp: run_turn_def run_tick_def lm_updates Let_def)
    qed
  next
    case False
    then show ?thesis
      using inv TickEvent by (auto simp: run_turn_def run_tick_def lm_updates power_inv_def split: power_state.splits)
  qed
qed

lemma run_keeps:
  "power_inv up down m \<Longrightarrow> calm_run ops es m \<Longrightarrow> \<exists>m'. run_manager ops es m = Some m' \<and> power_inv up down m'"
proof (induction es arbitrary: m)
  case (Cons e es)
  then obtain m1 where "run_turn ops e m = Some m1" "power_inv up down m1"
    using turn_keeps [of m e] by auto
  with Cons show ?case by auto
qed auto

lemma tick_not_idle:
  "lm_state m = FullPower \<Longrightarrow> op_count ops (lm_node m) \<le> 0 \<Longrightarrow> idle_seconds now m * 10 ^ 9 < lm_idle_timeout m \<Longrightarrow>
   run_turn ops (TickEvent now env) m = Some m"
  by (simp add: run_turn_def run_tick_def)

lemma tick_idle:
  assumes "lm_state m = FullPower" "power_inv up down m" "op_count ops (lm_node m) \<le> 0" "\<not> lm_wake m"
    "lm_idle_timeout m \<le> idle_seconds now m * 10 ^ 9" "sv_listen env" "\<not> sv_woken env"
  shows "\<exists>m'. run_turn ops (TickEvent now env) m = Some m' \<and> lm_state m' = LowPower \<and> down (lm_node m')"
proof -
  obtain m' where m': "transition_to_low_power ops now env m = Some m'" "power_inv up down m'" "lm_wake m' = lm_wake m"
      "sv_listen env \<Longrightarrow> lm_state m' = LowPower"
    using sleep_from [OF assms(1,2), of now env] by metis
  then show ?thesis using assms by (auto simp: run_turn_def run_tick_def power_inv_def)
qed

text \<open>The ticks of an idle node: those before the idle timeout change nothing, the first one after it puts it to sleep.\<close>

lemma idle_ticks:
  assumes "lm_state m = FullPower" "power_inv up down m" "op_count ops (lm_node m) \<le> 0" "\<not> lm_wake m"
    "lm_idle_timeout m \<le> secs * 10 ^ 9" "(secs - 1) * 10 ^ 9 < lm_idle_timeout m"
    "ticks_within t ts" "t < lm_last m + secs" "\<exists>x \<in> set ts. lm_last m + secs \<le> fst x"
    "list_all (\<lambda>x. sv_listen (snd x) \<and> \<not> sv_woken (snd x)) ts"
  shows "\<exists>us x vs m'. ts = us @ x # vs \<and> run_manager ops (map tick us) m = Some m \<and> run_turn ops (tick x) m = Some m' \<and>
     lm_state m' = LowPower \<and> down (lm_node m') \<and> fst x < lm_last m + secs + tick_seconds"
  using assms(7-10)
proof (induction ts arbitrary: t)
  case (Cons x ts)
  show ?case
  proof (cases "lm_last m + secs \<le> fst x")
    case True
    then have "lm_idle_timeout m \<le> idle_seconds (fst x) m * 10 ^ 9"
      using assms(5) by (simp add: idle_seconds_def)
    then obtain m' where "run_turn ops (tick x) m = Some m'" "lm_state m' = LowPower" "down (lm_node m')"
      using tick_idle [OF assms(1-4), of "fst x" "snd x"] Cons.prems(4) by (auto simp: tick_def)
    moreover have "fst x < lm_last m + secs + tick_seconds" using Cons.prems(1,2) by (cases x) simp
    ultimately show ?thesis
      by - (rule exI [of _ "[]"], rule exI [of _ x], rule exI [of _ ts], rule exI [of _ m'], simp)
  next
    case False
    then have "idle_seconds (fst x) m * 10 ^ 9 < lm_idle_timeout m"
      using assms(6) by (simp add: idle_seconds_def)
    then have r: "run_turn ops (tick x) m = Some m"
      using tick_not_idle [OF assms(1,3)] by (simp add: tick_def)
    have "ticks_within (fst x) ts" "fst x < lm_last m + secs" using Cons.prems(1) False by (cases x; simp)+
    from Cons.IH [OF this] Cons.prems(3,4) False obtain us y vs m' where "ts = us @ y # vs"
        "run_manager ops (map tick us) m = Some m" "run_turn ops (tick y) m = Some m'" "lm_state m' = LowPower"
        "down (lm_node m')" "fst y < lm_last m + secs + tick_seconds"
      by auto
    then show ?thesis
      using r
      by - (rule exI [of _ "x # us"], rule exI [of _ y], rule exI [of _ vs], rule exI [of _ m'], simp)
  qed
qed simp

end

subsection \<open>Properties\<close>

text \<open>
  a node in full power leaves it only on a tick that finds no tracked connection open and at least the idle
  timeout passed since the last activity; an open connection seen by a tick counts as activity.
\<close>

theorem sleeps_only_when_idle:
  assumes "lm_state m = FullPower" "run_turn ops ev m = Some m'" "lm_state m' \<noteq> FullPower"
  shows "\<exists>now env. ev = TickEvent now env \<and> op_count ops (lm_node m) \<le> 0 \<and>
     lm_idle_timeout m \<le> (now - lm_last m) * 10 ^ 9"
proof (cases ev)
  case (TickEvent now env)
  then show ?thesis
    using assms by (auto simp: run_turn_def run_tick_def idle_seconds_def lm_updates split: if_splits)
qed (use assms in \<open>auto simp: run_turn_def lm_updates Let_def split: if_splits\<close>)

definition demo_ops :: "(nat, nat, nat) node_ops" where
  "demo_ops = \<lparr>op_stop = (\<lambda>n. Some n), op_start = (\<lambda>c e n. Some (True, n)), op_count = (\<lambda>n. 0),
     op_socks_addr = (\<lambda>n. '':1080''), op_socks_is_unix = (\<lambda>n. False), op_ready = (\<lambda>n. None)\<rparr>"

theorem sleeps_only_when_idle_witness:
  "\<exists>m'. run_turn demo_ops (TickEvent 60 \<lparr>sv_listen = True, sv_restart = 0, sv_woken = False,
       sv_wake = \<lparr>we_start = 0, we_relisten = True, we_now = 60\<rparr>\<rparr>) (new_manager 0 0 0) = Some m' \<and>
     lm_state m' = LowPower \<and> lm_idle_timeout (new_manager 0 0 0 :: (nat, nat) manager) \<le> 60 * 10 ^ 9"
proof -
  let ?m = "new_manager 0 0 0 :: (nat, nat) manager"
  let ?e = "TickEvent 60 \<lparr>sv_listen = True, sv_restart = 0, sv_woken = False,
       sv_wake = \<lparr>we_start = 0, we_relisten = True, we_now = 60\<rparr>\<rparr>"
  have "\<exists>m'. run_turn demo_ops ?e ?m = Some m' \<and> lm_state m' = LowPower"
    by (simp add: run_turn_def run_tick_def sleep_defs demo_ops_def new_manager_def idle_seconds_def
        default_idle_timeout_def lm_updates Let_def)
  then obtain m' where m': "run_turn demo_ops ?e ?m = Some m'" "lm_state m' = LowPower" by blast
  have "lm_state ?m = FullPower" "lm_state m' \<noteq> FullPower" "lm_last ?m = 0"
    using m' by (simp_all add: new_manager_def)
  with sleeps_only_when_idle [OF this(1) m'(1) this(2)] m' show ?thesis by auto
qed

text \<open>
  a wake request is never lost while the node sleeps: however many requests were made, the next time \<open>Run\<close>
  takes the request it starts the node, and where the start succeeds the manager is in full power with the
  listener closed.
\<close>

theorem wake_request_served:
  assumes "lm_state m = LowPower" "op_start ops (lm_orig m) (we_start env) (lm_node m) = Some (ok, n)"
  shows "\<exists>m'. run_turn ops (WakeEvent env) ((transition_to_full_power ^^ Suc k) m) = Some m' \<and> lm_node m' = n \<and>
     lm_state m' = (if ok then FullPower else LowPower) \<and> \<not> lm_wake m' \<and>
     lm_listener m' = (if ok \<or> op_socks_addr ops n = '''' \<or> \<not> we_relisten env then None else Some (op_socks_addr ops n))"
proof -
  have "(transition_to_full_power ^^ Suc k) m = m\<lparr>lm_wake := True\<rparr>"
    by (induction k) (simp_all add: transition_to_full_power_def)
  then show ?thesis
    using assms by (cases ok) (simp_all add: run_turn_def do_transition_to_full_power_def finish_wake_def begin_wake_def
        lm_updates Let_def del: funpow.simps)
qed

theorem wake_request_served_witness:
  "\<exists>m'. run_turn demo_ops (WakeEvent \<lparr>we_start = 0, we_relisten = True, we_now = 9\<rparr>)
     ((transition_to_full_power ^^ Suc 2) ((new_manager 0 0 0)\<lparr>lm_state := LowPower\<rparr>)) = Some m' \<and> lm_state m' = FullPower"
proof -
  have "lm_state ((new_manager 0 0 0 :: (nat, nat) manager)\<lparr>lm_state := LowPower\<rparr>) = LowPower"
    "op_start demo_ops (lm_orig ((new_manager 0 0 0)\<lparr>lm_state := LowPower\<rparr>))
       (we_start \<lparr>we_start = 0, we_relisten = True, we_now = 9\<rparr>) (lm_node ((new_manager 0 0 0)\<lparr>lm_state := LowPower\<rparr>)) = Some (True, 0)"
    by (simp_all add: demo_ops_def new_manager_def)
  from wake_request_served [OF this, of 2] show ?thesis by auto
qed

end
