(* ===== verification/WakeTrigger.thy ===== *)
theory WakeTrigger
  imports LowPower Activity
begin

text \<open>
  The goroutines of the wake trigger (\<open>mod/lowpower/wake_trigger.go\<close>): the accept loop \<open>startWakeTrigger\<close>
  leaves behind, the handlers it starts, and the shutdown that closes the listener and waits for the handlers.
  What one handler does is \<open>handle_wake_connection\<close> of \<open>LowPower\<close>; here its life is one event. The loop takes
  two steps for a connection, the \<open>Accept\<close> and the test under the mutex, between which others can move.
\<close>

subsection \<open>State and events\<close>

record trigger =
  wt_listener :: bool     \<comment> \<open>the field \<open>listener\<close> is set\<close>
  wt_open :: bool         \<comment> \<open>the listener of the operating system\<close>
  wt_loop :: bool         \<comment> \<open>the accept loop runs\<close>
  wt_accepted :: nat      \<comment> \<open>connections accepted so far\<close>
  wt_pending :: bool      \<comment> \<open>one of them has not been decided on\<close>
  wt_wg :: nat            \<comment> \<open>handlers running\<close>
  wt_handled :: nat       \<comment> \<open>handlers ended\<close>
  wt_closed :: nat        \<comment> \<open>connections the loop closed\<close>

text \<open>A trigger that has just been started.\<close>

definition new_trigger :: trigger where
  "new_trigger = \<lparr>wt_listener = True, wt_open = True, wt_loop = True, wt_accepted = 0, wt_pending = False,
     wt_wg = 0, wt_handled = 0, wt_closed = 0\<rparr>"

datatype trigger_event =
    Accepted            \<comment> \<open>\<open>Accept\<close> returns a connection\<close>
  | AcceptFails         \<comment> \<open>\<open>Accept\<close> returns an error, whatever its kind\<close>
  | Decide              \<comment> \<open>the test under the mutex\<close>
  | HandlerEnds
  | CloseListener       \<comment> \<open>\<open>closeWakeListener\<close>\<close>

text \<open>\<open>closeWakeListener\<close>: the first call closes the listener, further ones do nothing.\<close>

definition close_trigger :: "trigger \<Rightarrow> trigger" where
  "close_trigger w = (if wt_listener w then w\<lparr>wt_listener := False, wt_open := False\<rparr> else w)"

interpretation wake_listener: close_once "\<lambda>w. \<not> wt_listener w" "\<lambda>_ :: unit. close_trigger"
  by unfold_locales (simp_all add: close_trigger_def)

definition trigger_turn :: "trigger_event \<Rightarrow> trigger \<Rightarrow> trigger" where
  "trigger_turn e w = (case e of
       Accepted \<Rightarrow>
         if wt_loop w \<and> wt_open w \<and> \<not> wt_pending w then w\<lparr>wt_pending := True, wt_accepted := wt_accepted w + 1\<rparr> else w
     | AcceptFails \<Rightarrow> if wt_loop w \<and> \<not> wt_pending w then w\<lparr>wt_loop := False\<rparr> else w
     | Decide \<Rightarrow>
         if \<not> wt_pending w then w
         else if wt_listener w then w\<lparr>wt_pending := False, wt_wg := wt_wg w + 1\<rparr>
         else w\<lparr>wt_pending := False, wt_closed := wt_closed w + 1, wt_loop := False\<rparr>
     | HandlerEnds \<Rightarrow> if 0 < wt_wg w then w\<lparr>wt_wg := wt_wg w - 1, wt_handled := wt_handled w + 1\<rparr> else w
     | CloseListener \<Rightarrow> close_trigger w)"

definition trigger_run :: "trigger_event list \<Rightarrow> trigger \<Rightarrow> trigger" where
  "trigger_run es w = fold trigger_turn es w"

text \<open>\<open>stopWakeTrigger\<close> waits until the handlers have ended.\<close>

definition wait_returns :: "trigger \<Rightarrow> bool" where
  "wait_returns w \<longleftrightarrow> wt_wg w = 0"

subsection \<open>Properties\<close>

definition balanced :: "trigger \<Rightarrow> bool" where
  "balanced w \<longleftrightarrow> wt_accepted w = wt_wg w + wt_handled w + wt_closed w + (if wt_pending w then 1 else 0)"

lemma balanced_turn: "balanced w \<Longrightarrow> balanced (trigger_turn e w)"
  by (cases e) (auto simp: balanced_def trigger_turn_def close_trigger_def)

lemma balanced_run: "balanced w \<Longrightarrow> balanced (trigger_run es w)"
  unfolding trigger_run_def by (rule fold_invariant [where Q = "\<lambda>_. True"]) (simp_all add: balanced_turn)

lemma closed_turn: "\<not> wt_listener w \<Longrightarrow> \<not> wt_listener (trigger_turn e w) \<and> wt_wg (trigger_turn e w) \<le> wt_wg w"
  by (cases e) (auto simp: trigger_turn_def wake_listener.closed_noop)

lemma closed_run:
  assumes "\<not> wt_listener w"
  shows "\<not> wt_listener (trigger_run es w) \<and> wt_wg (trigger_run es w) \<le> wt_wg w"
  unfolding trigger_run_def
  by (rule fold_invariant [where P = "\<lambda>v. \<not> wt_listener v \<and> wt_wg v \<le> wt_wg w" and Q = "\<lambda>_. True"])
     (use assms closed_turn le_trans in \<open>blast+\<close>)

text \<open>
  every connection the trigger accepts is handled or closed, exactly once, or still open in a handler or
  before the test; and once the listener has been closed no handler starts any more, so the wait of the shutdown
  returns and stays returned after as many handlers have ended as were running.
\<close>

theorem trigger_accounts_and_stops:
  "(let w = trigger_run es new_trigger in
      wt_accepted w = wt_handled w + wt_closed w + wt_wg w + (if wt_pending w then 1 else 0)) \<and>
   (let w = trigger_run (es @ [CloseListener]) new_trigger in
      wt_wg (trigger_run es' w) \<le> wt_wg w \<and>
      wait_returns (trigger_run (replicate (wt_wg w) HandlerEnds @ es') w))"
proof
  have "balanced (trigger_run es new_trigger)" by (rule balanced_run) (simp add: balanced_def new_trigger_def)
  then show "let w = trigger_run es new_trigger in
      wt_accepted w = wt_handled w + wt_closed w + wt_wg w + (if wt_pending w then 1 else 0)"
    by (simp add: balanced_def Let_def)
  let ?w = "trigger_run (es @ [CloseListener]) new_trigger"
  have c: "\<not> wt_listener ?w" using wake_listener.closes by (simp add: trigger_run_def trigger_turn_def)
  have ends: "fold trigger_turn (replicate n HandlerEnds) w = w\<lparr>wt_wg := 0, wt_handled := wt_handled w + n\<rparr>"
    if "wt_wg w = n" for n w
    using that
  proof (induction n arbitrary: w)
    case (Suc n)
    then show ?case by (simp add: trigger_turn_def)
  qed simp
  have "wait_returns (trigger_run (replicate (wt_wg ?w) HandlerEnds @ es') ?w)"
    using closed_run [of "?w\<lparr>wt_wg := 0, wt_handled := wt_handled ?w + wt_wg ?w\<rparr>" es'] c ends [of ?w "wt_wg ?w"]
    by (simp add: wait_returns_def trigger_run_def)
  with closed_run [OF c, of es'] show "let w = ?w in
      wt_wg (trigger_run es' w) \<le> wt_wg w \<and> wait_returns (trigger_run (replicate (wt_wg w) HandlerEnds @ es') w)"
    by (simp add: Let_def)
qed

text \<open>
  an error of \<open>Accept\<close>, even a passing one, makes the trigger deaf: the loop ends while the listener stays open
  and registered, and from then on no connection is accepted, so a sleeping node is not woken by its clients.
\<close>

theorem accept_error_makes_trigger_deaf:
  assumes "wt_loop w" "wt_listener w" "wt_open w" "\<not> wt_pending w" "CloseListener \<notin> set es"
  shows "wt_accepted (trigger_run (AcceptFails # es) w) = wt_accepted w \<and>
     wt_listener (trigger_run (AcceptFails # es) w) \<and> wt_open (trigger_run (AcceptFails # es) w)"
proof -
  have "wt_accepted (fold trigger_turn es v) = wt_accepted v \<and> wt_listener (fold trigger_turn es v) \<and> wt_open (fold trigger_turn es v)"
    if "\<not> wt_loop v" "wt_listener v" "wt_open v" "\<not> wt_pending v" for v
    using that assms(5)
  proof (induction es arbitrary: v)
    case (Cons e es)
    have "\<not> wt_loop (trigger_turn e v) \<and> wt_listener (trigger_turn e v) \<and> wt_open (trigger_turn e v) \<and>
        \<not> wt_pending (trigger_turn e v) \<and> wt_accepted (trigger_turn e v) = wt_accepted v"
      using Cons.prems by (cases e) (auto simp: trigger_turn_def)
    then show ?case using Cons.IH [of "trigger_turn e v"] Cons.prems(5) by simp
  qed simp
  then show ?thesis using assms(1-4) by (simp add: trigger_run_def trigger_turn_def)
qed

theorem accept_error_makes_trigger_deaf_witness:
  "wt_accepted (trigger_run [AcceptFails, Accepted, Decide, Accepted] new_trigger) = 0 \<and>
   wt_open (trigger_run [AcceptFails, Accepted, Decide, Accepted] new_trigger)"
  using accept_error_makes_trigger_deaf [of new_trigger "[Accepted, Decide, Accepted]"] by (simp add: new_trigger_def)

end
