(* ===== verification/Node.thy ===== *)
theory Node
  imports Socks LowPower MappingSpec
begin

text \<open>
  The node (\<open>mod/yggstack\<close>): construction, start and stop of its components, shutdown, and the guards of its
  API.

  The components are third-party objects (core, admin socket, multicast, netstack) and listeners. The model
  keeps their life cycle: every object the code creates enters the ledger \<open>nd_live\<close> under a fresh number,
  and leaves it when the code closes it, so an object that is live but that no field refers to is a leak.
  Goroutines counted by \<open>componentsWg\<close> are values of \<open>goroutine\<close>, which say what ends them;
  \<open>componentsWg.Wait\<close> returns when all of them end. A call that never returns is the value None. Which
  third-party constructors succeed is the environment of an operation; whether \<open>core.Stop\<close> hangs is a
  property of the network, \<open>nd_hangs\<close>.
\<close>

subsection \<open>Configuration\<close>

record mc_interface =
  mc_regex :: string
  mc_beacon :: bool
  mc_listen :: bool
  mc_port :: nat
  mc_priority :: "64 word"
  mc_password :: string

text \<open>
  The fields of yggdrasil's \<open>NodeConfig\<close> the code reads or writes; \<open>nc_interface_peers\<close> in the order Go visits
  the map; the self-signed certificate by the private key it holds.
\<close>

record node_config =
  nc_private_key :: bytes
  nc_private_key_path :: string
  nc_certificate :: "bytes option"
  nc_node_info :: string
  nc_privacy :: bool
  nc_listen :: "string list"
  nc_peers :: "string list"
  nc_interface_peers :: "(string \<times> string list) list"
  nc_allowed_keys :: "string list"
  nc_admin_listen :: string
  nc_log_lookups :: bool
  nc_multicast :: "mc_interface list"

type_synonym forward_spec = "net_addr \<times> net_addr"   \<comment> \<open>listen and mapped address of a mapping\<close>

record config_obj =
  co_config :: "node_config option"
  co_multicast_logger :: bool
  co_socks_addr :: string
  co_nameserver :: string
  co_local_tcp :: "forward_spec list"
  co_local_udp :: "forward_spec list"
  co_remote_tcp :: "forward_spec list"
  co_remote_udp :: "forward_spec list"
  co_udp_timeout :: int
  co_activity_callback :: bool
  co_peer_callback :: bool
  co_core_stop_timeout :: int
  co_low_power :: "int option"        \<comment> \<open>its idle timeout\<close>

datatype start_error =
    AllowedKeyError hex_error
  | CoreNewError
  | AdminNewError
  | MulticastRegexError string
  | MulticastNewError
  | NetstackError
  | SocksError socks_error
  | NotConfigObj

datatype core_option =
    OptNodeInfo string
  | OptPrivacy bool
  | OptListen string
  | OptPeer string string             \<comment> \<open>URI, source interface\<close>
  | OptAllowedKey bytes

fun allowed_key_options :: "string list \<Rightarrow> start_error + core_option list" where
  "allowed_key_options [] = Inr []"
| "allowed_key_options (k # ks) =
     (case hex_decode k of
        Inl e \<Rightarrow> Inl (AllowedKeyError e)
      | Inr b \<Rightarrow> try_bind (allowed_key_options ks) (\<lambda>os. Inr (OptAllowedKey b # os)))"

definition core_options :: "node_config \<Rightarrow> start_error + core_option list" where
  "core_options nc =
     (let base = [OptNodeInfo (nc_node_info nc), OptPrivacy (nc_privacy nc)] @
        map OptListen (nc_listen nc) @
        map (\<lambda>p. OptPeer p '''') (nc_peers nc) @
        concat (map (\<lambda>(intf, ps). map (\<lambda>p. OptPeer p intf) ps) (nc_interface_peers nc))
      in try_bind (allowed_key_options (nc_allowed_keys nc)) (\<lambda>ks. Inr (base @ ks)))"

datatype admin_option = OptAdminListen string | OptLogLookups

definition admin_options :: "node_config \<Rightarrow> admin_option list" where
  "admin_options nc = OptAdminListen (nc_admin_listen nc) # (if nc_log_lookups nc then [OptLogLookups] else [])"

record mc_option =
  mo_regex :: string
  mo_beacon :: bool
  mo_listen :: bool
  mo_port :: nat
  mo_priority :: "8 word"
  mo_password :: string

text \<open>\<open>regex_ok\<close> says which expressions \<open>regexp.Compile\<close> accepts.\<close>

fun multicast_options :: "(string \<Rightarrow> bool) \<Rightarrow> mc_interface list \<Rightarrow> start_error + mc_option list" where
  "multicast_options regex_ok [] = Inr []"
| "multicast_options regex_ok (i # is) =
     (if \<not> regex_ok (mc_regex i) then Inl (MulticastRegexError (mc_regex i))
      else try_bind (multicast_options regex_ok is) (\<lambda>os. Inr
        (\<lparr>mo_regex = mc_regex i, mo_beacon = mc_beacon i, mo_listen = mc_listen i, mo_port = mc_port i,
          mo_priority = ucast (mc_priority i), mo_password = mc_password i\<rparr> # os)))"

subsection \<open>State\<close>

datatype res_kind = KCore | KAdmin | KMulticast | KNetstack | KSocks | KForward

datatype goroutine =
    GMonitor nat nat          \<comment> \<open>the monitor, its parent context\<close>
  | GSocksServe nat           \<comment> \<open>the listener\<close>
  | GTcpLoop nat nat          \<comment> \<open>listener, context\<close>
  | GUdpLoop nat nat
  | GUdpCleanup nat

record node =
  nd_config :: node_config
  nd_core :: "nat option"
  nd_admin :: "nat option"
  nd_multicast :: "nat option"
  nd_netstack :: "nat option"
  nd_monitor :: "nat option"
  nd_socks :: "nat option"            \<comment> \<open>\<open>socksListener\<close>\<close>
  nd_ready :: "bool option"           \<comment> \<open>\<open>socksReadyCh\<close>: nil, or whether it is closed\<close>
  nd_socks_addr :: string
  nd_socks_unix :: bool
  nd_stop_timeout :: int
  nd_hangs :: bool
  nd_closers :: "nat list"
  nd_ctx :: "nat option"              \<comment> \<open>\<open>componentsCtx\<close> and \<open>componentsCancel\<close>\<close>
  nd_cancelled :: "nat set"           \<comment> \<open>contexts that have been cancelled\<close>
  nd_monitors_off :: "nat set"
  nd_root_cancelled :: bool
  nd_close_once :: bool
  nd_goroutines :: "goroutine list"   \<comment> \<open>\<open>componentsWg\<close>\<close>
  nd_live :: "(res_kind \<times> nat) set"
  nd_next :: nat
  nd_count :: int64                   \<comment> \<open>\<open>connCounter\<close>\<close>
  nd_activity_callback :: bool        \<comment> \<open>\<open>activityCallback\<close> is set\<close>

definition alloc :: "res_kind \<Rightarrow> node \<Rightarrow> nat \<times> node" where
  "alloc k n = (nd_next n, n\<lparr>nd_next := nd_next n + 1, nd_live := insert (k, nd_next n) (nd_live n)\<rparr>)"

definition release :: "res_kind \<Rightarrow> nat \<Rightarrow> node \<Rightarrow> node" where
  "release k i n = n\<lparr>nd_live := nd_live n - {(k, i)}\<rparr>"

definition add_closer :: "nat \<Rightarrow> node \<Rightarrow> node" where
  "add_closer l n = n\<lparr>nd_closers := nd_closers n @ [l]\<rparr>"

definition spawn :: "goroutine list \<Rightarrow> node \<Rightarrow> node" where
  "spawn gs n = n\<lparr>nd_goroutines := nd_goroutines n @ gs\<rparr>"

definition ctx_done :: "node \<Rightarrow> nat \<Rightarrow> bool" where
  "ctx_done n c \<longleftrightarrow> nd_root_cancelled n \<or> c \<in> nd_cancelled n"

text \<open>
  What makes a goroutine end: the monitor's contexts; a closed listener, and for the UDP loop, which goes on
  after a read error, the context too.
\<close>

fun goroutine_ends :: "node \<Rightarrow> goroutine \<Rightarrow> bool" where
  "goroutine_ends n (GMonitor m c) = (m \<in> nd_monitors_off n \<or> ctx_done n c)"
| "goroutine_ends n (GSocksServe l) = ((KSocks, l) \<notin> nd_live n)"
| "goroutine_ends n (GTcpLoop l c) = ((KForward, l) \<notin> nd_live n)"
| "goroutine_ends n (GUdpLoop l c) = ((KForward, l) \<notin> nd_live n \<and> ctx_done n c)"
| "goroutine_ends n (GUdpCleanup c) = ctx_done n c"

definition wait_components :: "node \<Rightarrow> node option" where
  "wait_components n = (if list_all (goroutine_ends n) (nd_goroutines n) then Some (n\<lparr>nd_goroutines := []\<rparr>) else None)"

subsection \<open>Initialisation\<close>

datatype admin_outcome = AdminFails | AdminDisabled | AdminRuns

datatype forward_kind = LocalTCP | LocalUDP | RemoteTCP | RemoteUDP

record start_env =
  ev_core :: "bytes option \<Rightarrow> core_option list \<Rightarrow> bool"
  ev_admin :: "admin_option list \<Rightarrow> admin_outcome"
  ev_regex :: "string \<Rightarrow> bool"
  ev_multicast :: "mc_option list \<Rightarrow> bool"
  ev_netstack :: bool
  ev_socks :: socks_env
  ev_listen :: "forward_kind \<Rightarrow> net_addr \<Rightarrow> bool"

definition init_core :: "start_env \<Rightarrow> node \<Rightarrow> start_error option \<times> node" where
  "init_core env n = (case core_options (nd_config n) of
       Inl e \<Rightarrow> (Some e, n)
     | Inr opts \<Rightarrow>
         if ev_core env (nc_certificate (nd_config n)) opts then (case alloc KCore n of (i, m) \<Rightarrow> (None, m\<lparr>nd_core := Some i\<rparr>))
         else (Some CoreNewError, n\<lparr>nd_core := None\<rparr>))"

definition init_admin :: "start_env \<Rightarrow> node \<Rightarrow> start_error option \<times> node" where
  "init_admin env n = (case ev_admin env (admin_options (nd_config n)) of
       AdminFails \<Rightarrow> (Some AdminNewError, n\<lparr>nd_admin := None\<rparr>)
     | AdminDisabled \<Rightarrow> (None, n\<lparr>nd_admin := None\<rparr>)
     | AdminRuns \<Rightarrow> (case alloc KAdmin n of (i, m) \<Rightarrow> (None, m\<lparr>nd_admin := Some i\<rparr>)))"

definition init_multicast :: "config_obj \<Rightarrow> start_env \<Rightarrow> node \<Rightarrow> start_error option \<times> node" where
  "init_multicast cfg env n =
     (if \<not> co_multicast_logger cfg then (None, n)
      else (case multicast_options (ev_regex env) (nc_multicast (nd_config n)) of
         Inl e \<Rightarrow> (Some e, n)
       | Inr opts \<Rightarrow>
           if ev_multicast env opts then (case alloc KMulticast n of (i, m) \<Rightarrow> (None, m\<lparr>nd_multicast := Some i\<rparr>))
           else (Some MulticastNewError, n\<lparr>nd_multicast := None\<rparr>)))"

text \<open>
  One forwarding goroutine up to its first \<open>Accept\<close> or \<open>ReadFrom\<close>: it listens, registers the listener with
  \<open>AddCloser\<close> and enters its loop; where the listen fails it ends.
\<close>

definition start_forward :: "start_env \<Rightarrow> forward_kind \<Rightarrow> forward_spec \<Rightarrow> node \<Rightarrow> node" where
  "start_forward env k spec n =
     (if \<not> ev_listen env k (fst spec) then n
      else (case alloc KForward n of (l, m) \<Rightarrow>
        let c = (case nd_ctx n of Some c \<Rightarrow> c | None \<Rightarrow> 0) in
        spawn (if k = LocalTCP \<or> k = RemoteTCP then [GTcpLoop l c] else [GUdpLoop l c, GUdpCleanup c]) (add_closer l m)))"

definition start_local_tcp :: "start_env \<Rightarrow> forward_spec list \<Rightarrow> node \<Rightarrow> node" where
  "start_local_tcp env mappings n = fold (start_forward env LocalTCP) mappings n"

definition start_remote_tcp :: "start_env \<Rightarrow> forward_spec list \<Rightarrow> node \<Rightarrow> node" where
  "start_remote_tcp env mappings n = fold (start_forward env RemoteTCP) mappings n"

definition start_local_udp :: "start_env \<Rightarrow> forward_spec list \<Rightarrow> node \<Rightarrow> node" where
  "start_local_udp env mappings n = fold (start_forward env LocalUDP) mappings n"

definition start_remote_udp :: "start_env \<Rightarrow> forward_spec list \<Rightarrow> node \<Rightarrow> node" where
  "start_remote_udp env mappings n = fold (start_forward env RemoteUDP) mappings n"

definition start_forwards :: "config_obj \<Rightarrow> start_env \<Rightarrow> node \<Rightarrow> node" where
  "start_forwards cfg env n =
     start_remote_udp env (co_remote_udp cfg) (start_remote_tcp env (co_remote_tcp cfg)
       (start_local_udp env (co_local_udp cfg) (start_local_tcp env (co_local_tcp cfg) n)))"

lemmas start_forwards_defs = start_forwards_def start_local_tcp_def start_remote_tcp_def start_local_udp_def start_remote_udp_def

definition start_monitor :: "config_obj \<Rightarrow> node \<Rightarrow> node" where
  "start_monitor cfg n =
     (if co_peer_callback cfg then
        let i = nd_next n; c = (case nd_ctx n of Some c \<Rightarrow> c | None \<Rightarrow> 0) in
        spawn [GMonitor i c] (n\<lparr>nd_next := i + 1, nd_monitor := Some i\<rparr>)
      else n)"

definition init_socks :: "config_obj \<Rightarrow> start_env \<Rightarrow> node \<Rightarrow> start_error option \<times> node" where
  "init_socks cfg env n =
     (if co_socks_addr cfg = '''' then (None, n)
      else (case fst (start_socks (co_socks_addr cfg) (nd_ready n \<noteq> None) (ev_socks env)) of
         Inl e \<Rightarrow> (Some (SocksError e), n)
       | Inr r \<Rightarrow>
           (case alloc KSocks n of (l, m) \<Rightarrow>
              (None, spawn [GSocksServe l]
                 (m\<lparr>nd_socks := Some l, nd_socks_unix := sr_is_unix r, nd_socks_addr := co_socks_addr cfg,
                    nd_ready := map_option (\<lambda>_. True) (nd_ready n)\<rparr>)))))"

definition init_networking :: "config_obj \<Rightarrow> start_env \<Rightarrow> node \<Rightarrow> start_error option \<times> node" where
  "init_networking cfg env n =
     (let n1 = start_monitor cfg n in
      if \<not> ev_netstack env then (Some NetstackError, n1)
      else (case alloc KNetstack n1 of (i, n2) \<Rightarrow>
        (case init_socks cfg env (n2\<lparr>nd_netstack := Some i\<rparr>) of
           (Some e, n3) \<Rightarrow> (Some e, n3)
         | (None, n3) \<Rightarrow> (None, start_forwards cfg env n3))))"

text \<open>The four steps in order, with the early return of the first that fails.\<close>

definition init_all :: "config_obj \<Rightarrow> start_env \<Rightarrow> node \<Rightarrow> start_error option \<times> node" where
  "init_all cfg env n =
     (case init_core env n of
        (Some e, n1) \<Rightarrow> (Some e, n1)
      | (None, n1) \<Rightarrow>
          (case init_admin env n1 of
             (Some e, n2) \<Rightarrow> (Some e, n2)
           | (None, n2) \<Rightarrow>
               (case init_multicast cfg env n2 of
                  (Some e, n3) \<Rightarrow> (Some e, n3)
                | (None, n3) \<Rightarrow> init_networking cfg env n3)))"

subsection \<open>Teardown\<close>

text \<open>
  \<open>stopCoreWithTimeout\<close>: without a time limit a hanging \<open>core.Stop\<close> blocks; with one the node gives up on
  it, and the core stays live in the background.
\<close>

definition stop_core_with_timeout :: "node \<Rightarrow> node option" where
  "stop_core_with_timeout n = (case nd_core n of
       None \<Rightarrow> Some n
     | Some i \<Rightarrow>
         if nd_hangs n then (if nd_stop_timeout n = 0 then None else Some (n\<lparr>nd_core := None\<rparr>))
         else Some ((release KCore i n)\<lparr>nd_core := None\<rparr>))"

text \<open>\<open>netstackPtr.Swap(nil)\<close> followed by \<open>closeWithTimeout(ns.Close)\<close>.\<close>

definition close_netstack :: "node \<Rightarrow> node option" where
  "close_netstack n = (case nd_netstack n of
       None \<Rightarrow> Some n
     | Some i \<Rightarrow>
         let m = n\<lparr>nd_netstack := None\<rparr> in
         if nd_hangs n then (if nd_stop_timeout n = 0 then None else Some m)
         else Some (release KNetstack i m))"

definition cancel_monitor :: "node \<Rightarrow> node" where
  "cancel_monitor n = (case nd_monitor n of
       None \<Rightarrow> n
     | Some i \<Rightarrow> n\<lparr>nd_monitor := None, nd_monitors_off := insert i (nd_monitors_off n)\<rparr>)"

definition close_socks :: "node \<Rightarrow> node" where
  "close_socks n = (case nd_socks n of None \<Rightarrow> n | Some l \<Rightarrow> (release KSocks l n)\<lparr>nd_socks := None\<rparr>)"

definition stop_multicast :: "node \<Rightarrow> node" where
  "stop_multicast n = (case nd_multicast n of None \<Rightarrow> n | Some i \<Rightarrow> (release KMulticast i n)\<lparr>nd_multicast := None\<rparr>)"

definition stop_admin :: "node \<Rightarrow> node" where
  "stop_admin n = (case nd_admin n of None \<Rightarrow> n | Some i \<Rightarrow> (release KAdmin i n)\<lparr>nd_admin := None\<rparr>)"

definition close_closers :: "node \<Rightarrow> node" where
  "close_closers n = (fold (release KForward) (nd_closers n) n)\<lparr>nd_closers := []\<rparr>"

definition cancel_components :: "node \<Rightarrow> node" where
  "cancel_components n = (case nd_ctx n of None \<Rightarrow> n | Some c \<Rightarrow> n\<lparr>nd_cancelled := insert c (nd_cancelled n)\<rparr>)"

definition rollback_components :: "node \<Rightarrow> node option" where
  "rollback_components n =
     Option.bind (stop_core_with_timeout (stop_admin (stop_multicast (close_socks (cancel_monitor n))))) close_netstack"

definition stop_signal :: "node \<Rightarrow> node" where
  "stop_signal n = close_closers (close_socks (cancel_components n))"

definition stop_teardown :: "node \<Rightarrow> node option" where
  "stop_teardown n =
     Option.bind (stop_core_with_timeout (stop_admin (stop_multicast (cancel_monitor n))))
       (\<lambda>m. Option.bind (close_netstack m) (\<lambda>m. Some (m\<lparr>nd_ctx := None\<rparr>)))"

definition stop_components :: "node \<Rightarrow> node option" where
  "stop_components n = Option.bind (wait_components (stop_signal n)) stop_teardown"

subsection \<open>Start\<close>

text \<open>The deferred function of \<open>startComponents\<close> when it returns an error.\<close>

definition start_failed :: "node \<Rightarrow> node option" where
  "start_failed n =
     Option.bind (rollback_components (n\<lparr>nd_netstack := None\<rparr>))
       (\<lambda>m. Option.bind (wait_components (cancel_components m)) (\<lambda>m. Some (m\<lparr>nd_ctx := None\<rparr>)))"

definition new_generation :: "config_obj \<Rightarrow> node \<Rightarrow> node" where
  "new_generation cfg n = n\<lparr>nd_ctx := Some (nd_next n), nd_next := nd_next n + 1,
     nd_ready := (if co_socks_addr cfg \<noteq> '''' then Some False else nd_ready n)\<rparr>"

definition start_components :: "config_obj \<Rightarrow> start_env \<Rightarrow> node \<Rightarrow> (start_error option \<times> node) option" where
  "start_components cfg env n =
     (case init_all cfg env (new_generation cfg n) of
        (None, m) \<Rightarrow> Some (None, m)
      | (Some e, m) \<Rightarrow> Option.bind (start_failed m) (\<lambda>k. Some (Some e, k)))"

subsection \<open>New and Close\<close>

definition default_udp_timeout :: int where
  "default_udp_timeout = 120 * 10 ^ 9"

definition new_defaults :: "config_obj \<Rightarrow> config_obj" where
  "new_defaults cfg = (if co_udp_timeout cfg = 0 then cfg\<lparr>co_udp_timeout := default_udp_timeout\<rparr> else cfg)"

text \<open>\<open>generated\<close> is what \<open>config.GenerateConfig\<close> returns.\<close>

definition effective_config :: "node_config \<Rightarrow> config_obj \<Rightarrow> node_config" where
  "effective_config generated cfg = (case co_config cfg of
       Some nc \<Rightarrow> nc | None \<Rightarrow> generated\<lparr>nc_admin_listen := ''none''\<rparr>)"

definition blank_node :: "node_config \<Rightarrow> config_obj \<Rightarrow> bool \<Rightarrow> node" where
  "blank_node generated cfg hangs =
     \<lparr>nd_config = effective_config generated cfg, nd_core = None, nd_admin = None, nd_multicast = None,
      nd_netstack = None, nd_monitor = None, nd_socks = None, nd_ready = None, nd_socks_addr = co_socks_addr cfg,
      nd_socks_unix = False, nd_stop_timeout = co_core_stop_timeout cfg, nd_hangs = hangs, nd_closers = [],
      nd_ctx = Some 0, nd_cancelled = {}, nd_monitors_off = {}, nd_root_cancelled = False, nd_close_once = False,
      nd_goroutines = [], nd_live = {}, nd_next = 1, nd_count = 0, nd_activity_callback = co_activity_callback cfg\<rparr>"

text \<open>\<open>New\<close> up to the low power manager; its error path cancels both contexts after the rollback.\<close>

definition new_node :: "node_config \<Rightarrow> config_obj \<Rightarrow> bool \<Rightarrow> start_env \<Rightarrow> (start_error option \<times> node) option" where
  "new_node generated cfg0 hangs env =
     (let cfg = new_defaults cfg0 in
      (case init_all cfg env (blank_node generated cfg hangs) of
         (None, m) \<Rightarrow> Some (None, m)
       | (Some e, m) \<Rightarrow>
           Option.bind (rollback_components m)
             (\<lambda>k. Some (Some e, (cancel_components k)\<lparr>nd_root_cancelled := True\<rparr>))))"

text \<open>Low power mode needs both its configuration and an activity callback.\<close>

definition new_low_power :: "config_obj \<Rightarrow> int \<Rightarrow> node \<Rightarrow> (node, config_obj) manager option" where
  "new_low_power cfg now n = (case co_low_power cfg of
       Some timeout \<Rightarrow>
         if co_activity_callback cfg then Some (set_orig_config (Some cfg) (new_manager n timeout now)) else None
     | None \<Rightarrow> None)"

definition close_node :: "node \<Rightarrow> node option" where
  "close_node n =
     (if nd_close_once n then Some n
      else stop_components (n\<lparr>nd_close_once := True, nd_root_cancelled := True\<rparr>))"

subsection \<open>API guards\<close>

datatype api_error = NetstackNotAvailable | NodeNotRunning | NetError string | PeerError string

definition node_address :: "(nat \<Rightarrow> bytes) \<Rightarrow> node \<Rightarrow> bytes option" where
  "node_address core_address n = map_option core_address (nd_core n)"

definition node_subnet :: "(nat \<Rightarrow> 's) \<Rightarrow> 's \<Rightarrow> node \<Rightarrow> 's" where
  "node_subnet core_subnet empty_net n = (case nd_core n of None \<Rightarrow> empty_net | Some c \<Rightarrow> core_subnet c)"

definition node_public_key :: "(nat \<Rightarrow> bytes) \<Rightarrow> node \<Rightarrow> bytes option" where
  "node_public_key core_key n = map_option core_key (nd_core n)"

text \<open>\<open>DialContext\<close>, \<open>DialTCP\<close>, \<open>DialUDP\<close>: the call of the netstack, where there is one.\<close>

definition node_dial :: "(nat \<Rightarrow> 'a \<Rightarrow> api_error + 'c) \<Rightarrow> 'a \<Rightarrow> node \<Rightarrow> api_error + 'c" where
  "node_dial ns_dial a n = (case nd_netstack n of None \<Rightarrow> Inl NetstackNotAvailable | Some ns \<Rightarrow> ns_dial ns a)"

text \<open>\<open>ListenTCP\<close>, \<open>ListenUDP\<close>: a new listener is registered for shutdown.\<close>

definition node_listen :: "(nat \<Rightarrow> 'a \<Rightarrow> api_error option) \<Rightarrow> 'a \<Rightarrow> node \<Rightarrow> (api_error + nat) \<times> node" where
  "node_listen ns_listen a n = (case nd_netstack n of
       None \<Rightarrow> (Inl NetstackNotAvailable, n)
     | Some ns \<Rightarrow>
         (case ns_listen ns a of
            Some e \<Rightarrow> (Inl e, n)
          | None \<Rightarrow> (case alloc KForward n of (l, m) \<Rightarrow> (Inr l, add_closer l m))))"

definition node_active_connections :: "node \<Rightarrow> int" where
  "node_active_connections n = sint (nd_count n)"

definition node_is_low_power :: "(node, config_obj) manager option \<Rightarrow> bool" where
  "node_is_low_power lp = (case lp of None \<Rightarrow> False | Some m \<Rightarrow> is_low_power m)"

datatype wake_error = LowPowerNotEnabled

definition node_wake_low_power ::
  "(node, config_obj) manager option \<Rightarrow> wake_error option \<times> (node, config_obj) manager option" where
  "node_wake_low_power lp = (case lp of
       None \<Rightarrow> (Some LowPowerNotEnabled, None)
     | Some m \<Rightarrow> (None, Some (if is_low_power m then transition_to_full_power m else m)))"

subsection \<open>The adapter for the low power manager\<close>

definition start_for_manager :: "config_obj option \<Rightarrow> start_env \<Rightarrow> node \<Rightarrow> (bool \<times> node) option" where
  "start_for_manager c env n = (case c of
       None \<Rightarrow> Some (False, n)
     | Some cfg \<Rightarrow> map_option (\<lambda>(e, m). (e = None, m)) (start_components cfg env n))"

definition node_control_obj :: "(node, config_obj, start_env) node_ops" where
  "node_control_obj = \<lparr>op_stop = stop_components, op_start = start_for_manager,
     op_count = node_active_connections, op_socks_addr = nd_socks_addr, op_socks_is_unix = nd_socks_unix,
     op_ready = nd_ready\<rparr>"

subsection \<open>The ledger\<close>

definition opt_res :: "res_kind \<Rightarrow> nat option \<Rightarrow> (res_kind \<times> nat) set" where
  "opt_res k x = (case x of None \<Rightarrow> {} | Some i \<Rightarrow> {(k, i)})"

lemma opt_res_simps [simp]: "opt_res k None = {}" "opt_res k (Some i) = {(k, i)}"
  by (simp_all add: opt_res_def)

lemma opt_res_mem: "(k, i) \<in> opt_res k' x \<longleftrightarrow> k = k' \<and> x = Some i"
  by (auto simp: opt_res_def split: option.splits)

text \<open>What the fields of the node refer to.\<close>

definition owned :: "node \<Rightarrow> (res_kind \<times> nat) set" where
  "owned n = opt_res KCore (nd_core n) \<union> opt_res KAdmin (nd_admin n) \<union> opt_res KMulticast (nd_multicast n) \<union>
     opt_res KNetstack (nd_netstack n) \<union> opt_res KSocks (nd_socks n) \<union> Pair KForward ` set (nd_closers n)"

text \<open>The teardown functions as updates.\<close>

lemma fold_release: "fold (release k) ls n = n\<lparr>nd_live := nd_live n - Pair k ` set ls\<rparr>"
proof (induction ls arbitrary: n)
  case (Cons l ls)
  have "nd_live n - {(k, l)} - Pair k ` set ls = nd_live n - Pair k ` set (l # ls)" by auto
  with Cons show ?case by (simp add: release_def)
qed simp

lemma close_closers_eq:
  "close_closers n = n\<lparr>nd_live := nd_live n - Pair KForward ` set (nd_closers n), nd_closers := []\<rparr>"
  by (simp add: close_closers_def fold_release)

lemma close_socks_eq: "close_socks n = n\<lparr>nd_live := nd_live n - opt_res KSocks (nd_socks n), nd_socks := None\<rparr>"
  by (cases n) (simp add: close_socks_def release_def split: option.split)

lemma stop_multicast_eq:
  "stop_multicast n = n\<lparr>nd_live := nd_live n - opt_res KMulticast (nd_multicast n), nd_multicast := None\<rparr>"
  by (cases n) (simp add: stop_multicast_def release_def split: option.split)

lemma stop_admin_eq: "stop_admin n = n\<lparr>nd_live := nd_live n - opt_res KAdmin (nd_admin n), nd_admin := None\<rparr>"
  by (cases n) (simp add: stop_admin_def release_def split: option.split)

lemma cancel_monitor_eq:
  "cancel_monitor n = n\<lparr>nd_monitor := None, nd_monitors_off := nd_monitors_off n \<union> set_option (nd_monitor n)\<rparr>"
  by (cases n) (simp add: cancel_monitor_def split: option.split)

lemma cancel_components_eq: "cancel_components n = n\<lparr>nd_cancelled := nd_cancelled n \<union> set_option (nd_ctx n)\<rparr>"
  by (cases n) (simp add: cancel_components_def split: option.split)

definition stoppable :: "node \<Rightarrow> bool" where
  "stoppable n \<longleftrightarrow> \<not> nd_hangs n \<or> nd_stop_timeout n \<noteq> 0"

lemma stop_core_eq:
  "stoppable n \<Longrightarrow> stop_core_with_timeout n =
     Some (n\<lparr>nd_live := nd_live n - (if nd_hangs n then {} else opt_res KCore (nd_core n)), nd_core := None\<rparr>)"
  by (cases n) (auto simp: stop_core_with_timeout_def release_def stoppable_def split: option.split)

lemma close_netstack_eq:
  "stoppable n \<Longrightarrow> close_netstack n =
     Some (n\<lparr>nd_live := nd_live n - (if nd_hangs n then {} else opt_res KNetstack (nd_netstack n)), nd_netstack := None\<rparr>)"
  by (cases n) (auto simp: close_netstack_def release_def stoppable_def Let_def split: option.split)

lemma stoppable_updates [simp]:
  "stoppable (n\<lparr>nd_live := a\<rparr>) = stoppable n" "stoppable (n\<lparr>nd_admin := b\<rparr>) = stoppable n"
  "stoppable (n\<lparr>nd_multicast := b\<rparr>) = stoppable n" "stoppable (n\<lparr>nd_socks := b\<rparr>) = stoppable n"
  "stoppable (n\<lparr>nd_core := b\<rparr>) = stoppable n" "stoppable (n\<lparr>nd_netstack := b\<rparr>) = stoppable n"
  "stoppable (n\<lparr>nd_monitor := b\<rparr>) = stoppable n" "stoppable (n\<lparr>nd_monitors_off := c\<rparr>) = stoppable n"
  "stoppable (n\<lparr>nd_cancelled := c\<rparr>) = stoppable n" "stoppable (n\<lparr>nd_closers := d\<rparr>) = stoppable n"
  "stoppable (n\<lparr>nd_goroutines := g\<rparr>) = stoppable n" "stoppable (n\<lparr>nd_ctx := b\<rparr>) = stoppable n"
  "stoppable (n\<lparr>nd_next := i\<rparr>) = stoppable n" "stoppable (n\<lparr>nd_ready := r\<rparr>) = stoppable n"
  "stoppable (n\<lparr>nd_socks_unix := u\<rparr>) = stoppable n" "stoppable (n\<lparr>nd_socks_addr := t\<rparr>) = stoppable n"
  "stoppable (n\<lparr>nd_close_once := u\<rparr>) = stoppable n" "stoppable (n\<lparr>nd_root_cancelled := u\<rparr>) = stoppable n"
  by (simp_all add: stoppable_def)

text \<open>What a teardown leaves live of the node's own objects: nothing, unless stopping the core hangs.\<close>

definition abandoned :: "node \<Rightarrow> (res_kind \<times> nat) set" where
  "abandoned n = (if nd_hangs n then opt_res KCore (nd_core n) \<union> opt_res KNetstack (nd_netstack n) else {})"

definition cleared :: "node \<Rightarrow> bool" where
  "cleared n \<longleftrightarrow> nd_core n = None \<and> nd_admin n = None \<and> nd_multicast n = None \<and> nd_netstack n = None \<and>
     nd_monitor n = None \<and> nd_socks n = None"

text \<open>Fields no start or stop touches.\<close>

definition same_frame :: "node \<Rightarrow> node \<Rightarrow> bool" where
  "same_frame n m \<longleftrightarrow> nd_config m = nd_config n \<and> nd_stop_timeout m = nd_stop_timeout n \<and> nd_hangs m = nd_hangs n \<and>
     nd_close_once m = nd_close_once n \<and> nd_root_cancelled m = nd_root_cancelled n \<and> nd_count m = nd_count n \<and>
     nd_activity_callback m = nd_activity_callback n"

text \<open>What \<open>rollbackComponents\<close> and \<open>stopComponents\<close> make of a node that can be stopped.\<close>

definition rolled_back :: "node \<Rightarrow> node" where
  "rolled_back n = n\<lparr>nd_live := nd_live n - (owned n - Pair KForward ` set (nd_closers n) - abandoned n),
     nd_monitor := None, nd_monitors_off := nd_monitors_off n \<union> set_option (nd_monitor n),
     nd_socks := None, nd_multicast := None, nd_admin := None, nd_core := None, nd_netstack := None\<rparr>"

definition stopped :: "node \<Rightarrow> node" where
  "stopped n = n\<lparr>nd_live := nd_live n - (owned n - abandoned n),
     nd_monitor := None, nd_monitors_off := nd_monitors_off n \<union> set_option (nd_monitor n),
     nd_cancelled := nd_cancelled n \<union> set_option (nd_ctx n), nd_ctx := None, nd_closers := [], nd_goroutines := [],
     nd_socks := None, nd_multicast := None, nd_admin := None, nd_core := None, nd_netstack := None\<rparr>"

lemma live_after_rollback:
  "nd_live n - (owned n - Pair KForward ` set (nd_closers n) - abandoned n) =
     nd_live n - opt_res KSocks (nd_socks n) - opt_res KMulticast (nd_multicast n) - opt_res KAdmin (nd_admin n) -
       (if nd_hangs n then {} else opt_res KCore (nd_core n)) - (if nd_hangs n then {} else opt_res KNetstack (nd_netstack n))"
  (is "?L = ?R")
proof (rule set_eqI)
  fix e :: "res_kind \<times> nat"
  obtain k i where e: "e = (k, i)" by (cases e)
  show "(e \<in> ?L) = (e \<in> ?R)"
    by (cases k) (simp_all add: e owned_def abandoned_def opt_res_mem image_iff)
qed

lemma live_after_stop:
  "nd_live n - (owned n - abandoned n) =
     nd_live n - opt_res KSocks (nd_socks n) - Pair KForward ` set (nd_closers n) - opt_res KMulticast (nd_multicast n) -
       opt_res KAdmin (nd_admin n) - (if nd_hangs n then {} else opt_res KCore (nd_core n)) -
       (if nd_hangs n then {} else opt_res KNetstack (nd_netstack n))"
  (is "?L = ?R")
proof (rule set_eqI)
  fix e :: "res_kind \<times> nat"
  obtain k i where e: "e = (k, i)" by (cases e)
  show "(e \<in> ?L) = (e \<in> ?R)"
    by (cases k) (simp_all add: e owned_def abandoned_def opt_res_mem image_iff)
qed

lemma rollback_eq: "stoppable n \<Longrightarrow> rollback_components n = Some (rolled_back n)"
  unfolding rolled_back_def live_after_rollback
  by (simp add: rollback_components_def cancel_monitor_eq close_socks_eq stop_multicast_eq stop_admin_eq
      stop_core_eq close_netstack_eq)

lemma stop_signal_eq:
  "stop_signal n = n\<lparr>nd_live := nd_live n - opt_res KSocks (nd_socks n) - Pair KForward ` set (nd_closers n),
     nd_cancelled := nd_cancelled n \<union> set_option (nd_ctx n), nd_socks := None, nd_closers := []\<rparr>"
  by (simp add: stop_signal_def cancel_components_eq close_closers_eq close_socks_eq)

lemma teardown_eq:
  "stoppable n \<Longrightarrow> stop_teardown n =
     Some (n\<lparr>nd_live := nd_live n - opt_res KMulticast (nd_multicast n) - opt_res KAdmin (nd_admin n) -
         (if nd_hangs n then {} else opt_res KCore (nd_core n)) - (if nd_hangs n then {} else opt_res KNetstack (nd_netstack n)),
       nd_monitor := None, nd_monitors_off := nd_monitors_off n \<union> set_option (nd_monitor n),
       nd_multicast := None, nd_admin := None, nd_core := None, nd_netstack := None, nd_ctx := None\<rparr>)"
  by (simp add: stop_teardown_def cancel_monitor_eq stop_multicast_eq stop_admin_eq stop_core_eq close_netstack_eq)

lemma stop_eq:
  assumes "stoppable n" "list_all (goroutine_ends (stop_signal n)) (nd_goroutines n)"
  shows "stop_components n = Some (stopped n)"
proof -
  have "nd_goroutines (stop_signal n) = nd_goroutines n" "stoppable ((stop_signal n)\<lparr>nd_goroutines := []\<rparr>)"
    using assms(1) by (simp_all add: stop_signal_eq)
  then have "stop_components n = stop_teardown ((stop_signal n)\<lparr>nd_goroutines := []\<rparr>)"
    using assms(2) by (simp add: stop_components_def wait_components_def)
  also have "\<dots> = Some (stopped n)"
    unfolding teardown_eq [OF \<open>stoppable ((stop_signal n)\<lparr>nd_goroutines := []\<rparr>)\<close>] stopped_def live_after_stop
    by (simp add: stop_signal_eq)
  finally show ?thesis .
qed

lemma same_frame_teardown: "same_frame n (rolled_back n)" "same_frame n (stopped n)"
  by (simp_all add: same_frame_def rolled_back_def stopped_def)

lemma cleared_teardown: "cleared (rolled_back n)" "cleared (stopped n)"
  by (simp_all add: cleared_def rolled_back_def stopped_def)

subsection \<open>What holds of a node at any time\<close>

text \<open>Every goroutine belongs to the current generation and to an object the node still refers to.\<close>

fun gor_ok :: "node \<Rightarrow> goroutine \<Rightarrow> bool" where
  "gor_ok n (GMonitor m c) = (nd_monitor n = Some m \<and> nd_ctx n = Some c)"
| "gor_ok n (GSocksServe l) = (nd_socks n = Some l)"
| "gor_ok n (GTcpLoop l c) = (l \<in> set (nd_closers n) \<and> nd_ctx n = Some c)"
| "gor_ok n (GUdpLoop l c) = (l \<in> set (nd_closers n) \<and> nd_ctx n = Some c)"
| "gor_ok n (GUdpCleanup c) = (nd_ctx n = Some c)"

definition gors_ok :: "node \<Rightarrow> bool" where
  "gors_ok n \<longleftrightarrow> list_all (gor_ok n) (nd_goroutines n)"

text \<open>The ledger holds what the node owns and the leaks \<open>L\<close>, under numbers already given out.\<close>

definition ledger :: "(res_kind \<times> nat) set \<Rightarrow> node \<Rightarrow> bool" where
  "ledger L n \<longleftrightarrow> nd_live n = owned n \<union> L \<and> owned n \<inter> L = {} \<and> (\<forall>e \<in> nd_live n. snd e < nd_next n)"

definition up :: "node \<Rightarrow> bool" where
  "up n \<longleftrightarrow> stoppable n \<and> gors_ok n \<and> nd_core n \<noteq> None \<and> nd_netstack n \<noteq> None \<and> nd_ctx n \<noteq> None"

definition down :: "node \<Rightarrow> bool" where
  "down n \<longleftrightarrow> stoppable n \<and> cleared n \<and> nd_closers n = [] \<and> nd_goroutines n = []"

lemma ends_after_signal: "gor_ok n g \<Longrightarrow> goroutine_ends (stop_signal n) g"
  by (cases g) (auto simp: stop_signal_eq ctx_done_def opt_res_mem)

lemma stop_spec: "stoppable n \<Longrightarrow> gors_ok n \<Longrightarrow> stop_components n = Some (stopped n)"
  by (rule stop_eq) (auto simp: gors_ok_def list_all_iff ends_after_signal)

lemma stopped_down: "stoppable n \<Longrightarrow> down (stopped n)"
  unfolding down_def by (simp add: cleared_teardown) (simp add: stopped_def)

lemma owned_cleared: "cleared n \<Longrightarrow> nd_closers n = [] \<Longrightarrow> owned n = {}"
  by (simp add: cleared_def owned_def)

lemma abandoned_owned: "abandoned n \<subseteq> owned n"
  by (auto simp: abandoned_def owned_def)

lemma ledger_stopped: "ledger L n \<Longrightarrow> ledger (L \<union> abandoned n) (stopped n)"
  using abandoned_owned [of n] owned_cleared [OF cleared_teardown(2) [of n]]
  by (auto simp: ledger_def stopped_def)

subsection \<open>What the initialisation makes of a cleared node\<close>

definition sound :: "(res_kind \<times> nat) set \<Rightarrow> node \<Rightarrow> bool" where
  "sound L n \<longleftrightarrow> stoppable n \<and> gors_ok n \<and> ledger L n"

text \<open>Creating an object and storing it in an empty field keeps the node sound.\<close>

lemma ledger_put:
  assumes l: "ledger L n" and o1: "owned m = insert (k, nd_next n) (owned n)"
    and m: "nd_live m = insert (k, nd_next n) (nd_live n)" "nd_next m = nd_next n + 1"
  shows "ledger L m"
proof -
  have "(k, nd_next n) \<notin> nd_live n" using l by (force simp: ledger_def)
  then have "(k, nd_next n) \<notin> L" using l by (auto simp: ledger_def)
  then show ?thesis using l by (auto simp: ledger_def o1 m intro: less_SucI)
qed

lemma gors_ok_mono:
  "gors_ok n \<Longrightarrow> nd_goroutines m = nd_goroutines n @ gs \<Longrightarrow> list_all (gor_ok m) gs \<Longrightarrow>
   nd_ctx m = nd_ctx n \<Longrightarrow> (nd_monitor n \<noteq> None \<Longrightarrow> nd_monitor m = nd_monitor n) \<Longrightarrow>
   (nd_socks n \<noteq> None \<Longrightarrow> nd_socks m = nd_socks n) \<Longrightarrow> set (nd_closers n) \<subseteq> set (nd_closers m) \<Longrightarrow> gors_ok m"
  unfolding gors_ok_def list_all_iff
proof (intro ballI)
  fix g assume a: "\<forall>g\<in>set (nd_goroutines n). gor_ok n g" "nd_goroutines m = nd_goroutines n @ gs"
    "\<forall>g\<in>set gs. gor_ok m g" "nd_ctx m = nd_ctx n" "nd_monitor n \<noteq> None \<Longrightarrow> nd_monitor m = nd_monitor n"
    "nd_socks n \<noteq> None \<Longrightarrow> nd_socks m = nd_socks n" "set (nd_closers n) \<subseteq> set (nd_closers m)" "g \<in> set (nd_goroutines m)"
  show "gor_ok m g"
  proof (cases "g \<in> set gs")
    case False
    then have "gor_ok n g" using a by simp
    then show ?thesis using a by (cases g) auto
  qed (use a in blast)
qed

text \<open>The part of the state that the steps before the forwarding leave alone.\<close>

definition same_part :: "node \<Rightarrow> node \<Rightarrow> bool" where
  "same_part n m \<longleftrightarrow> same_frame n m \<and> nd_ctx m = nd_ctx n \<and> nd_cancelled m = nd_cancelled n \<and>
     nd_monitors_off m = nd_monitors_off n"

lemma same_part_refl: "same_part n n"
  by (simp add: same_part_def same_frame_def)

lemma same_part_trans: "same_part n m \<Longrightarrow> same_part m k \<Longrightarrow> same_part n k"
  by (simp add: same_part_def same_frame_def)

lemma same_part_stoppable: "same_part n m \<Longrightarrow> stoppable m = stoppable n"
  by (simp add: same_part_def same_frame_def stoppable_def)

lemmas put_defs = alloc_def spawn_def add_closer_def

lemma init_core_spec:
  assumes "sound L n" "nd_core n = None" "init_core env n = (r, m)"
  shows "sound L m \<and> same_part n m \<and> (r = None \<longleftrightarrow> nd_core m \<noteq> None) \<and>
     nd_admin m = nd_admin n \<and> nd_multicast m = nd_multicast n \<and> nd_netstack m = nd_netstack n \<and>
     nd_monitor m = nd_monitor n \<and> nd_socks m = nd_socks n \<and> nd_closers m = nd_closers n \<and>
     nd_ready m = nd_ready n \<and> nd_goroutines m = nd_goroutines n \<and> (\<forall>s. r \<noteq> Some (SocksError s))"
proof -
  let ?m = "n\<lparr>nd_next := nd_next n + 1, nd_live := insert (KCore, nd_next n) (nd_live n), nd_core := Some (nd_next n)\<rparr>"
  have keys: "allowed_key_options ks \<noteq> Inl (SocksError s)" for ks s
    by (induction ks rule: allowed_key_options.induct) (auto simp: try_bind_eq_Inl split: sum.splits)
  have id: "n\<lparr>nd_core := None\<rparr> = n" using assms(2) by (cases n) simp
  have "(r = None \<and> m = ?m) \<or> (r \<noteq> None \<and> m = n)"
    using assms(3) by (auto simp: init_core_def put_defs id split: sum.splits if_splits)
  moreover have "\<forall>s. r \<noteq> Some (SocksError s)"
    using assms(3) keys
    by (auto simp: init_core_def put_defs core_options_def Let_def try_bind_eq_Inl split: sum.splits if_splits prod.splits)
  moreover have "sound L ?m"
    using assms(1,2) unfolding sound_def
    by (auto intro!: ledger_put [of L n] gors_ok_mono [of n _ "[]"] simp: owned_def)
  ultimately show ?thesis
    using assms(1,2) by (auto simp: same_part_def same_frame_def)
qed

lemma init_admin_spec:
  assumes "sound L n" "nd_admin n = None" "init_admin env n = (r, m)"
  shows "sound L m \<and> same_part n m \<and> nd_core m = nd_core n \<and>
     nd_multicast m = nd_multicast n \<and> nd_netstack m = nd_netstack n \<and>
     nd_monitor m = nd_monitor n \<and> nd_socks m = nd_socks n \<and> nd_closers m = nd_closers n \<and>
     nd_ready m = nd_ready n \<and> nd_goroutines m = nd_goroutines n \<and> (\<forall>s. r \<noteq> Some (SocksError s))"
proof -
  let ?m = "n\<lparr>nd_next := nd_next n + 1, nd_live := insert (KAdmin, nd_next n) (nd_live n), nd_admin := Some (nd_next n)\<rparr>"
  have id: "n\<lparr>nd_admin := None\<rparr> = n" using assms(2) by (cases n) simp
  have "(r = None \<and> m = ?m) \<or> ((r = None \<or> r = Some AdminNewError) \<and> m = n)"
    using assms(3) by (auto simp: init_admin_def put_defs id split: admin_outcome.splits)
  moreover have "sound L ?m"
    using assms(1,2) unfolding sound_def
    by (auto intro!: ledger_put [of L n] gors_ok_mono [of n _ "[]"] simp: owned_def)
  ultimately show ?thesis
    using assms(1,2) by (auto simp: same_part_def same_frame_def)
qed

lemma init_multicast_spec:
  assumes "sound L n" "nd_multicast n = None" "init_multicast cfg env n = (r, m)"
  shows "sound L m \<and> same_part n m \<and> nd_core m = nd_core n \<and>
     nd_admin m = nd_admin n \<and> nd_netstack m = nd_netstack n \<and>
     nd_monitor m = nd_monitor n \<and> nd_socks m = nd_socks n \<and> nd_closers m = nd_closers n \<and>
     nd_ready m = nd_ready n \<and> nd_goroutines m = nd_goroutines n \<and> (\<forall>s. r \<noteq> Some (SocksError s))"
proof -
  let ?m = "n\<lparr>nd_next := nd_next n + 1, nd_live := insert (KMulticast, nd_next n) (nd_live n), nd_multicast := Some (nd_next n)\<rparr>"
  have id: "n\<lparr>nd_multicast := None\<rparr> = n" using assms(2) by (cases n) simp
  have opts: "multicast_options f is \<noteq> Inl (SocksError s)" for f "is" s
    by (induction "is") (auto simp: try_bind_eq_Inl)
  have "(r = None \<and> m = ?m) \<or> m = n"
    using assms(3) by (auto simp: init_multicast_def put_defs id split: sum.splits if_splits)
  moreover have "\<forall>s. r \<noteq> Some (SocksError s)"
    using assms(3) opts by (auto simp: init_multicast_def put_defs split: sum.splits if_splits)
  moreover have "sound L ?m"
    using assms(1,2) unfolding sound_def
    by (auto intro!: ledger_put [of L n] gors_ok_mono [of n _ "[]"] simp: owned_def)
  ultimately show ?thesis
    using assms(1,2) by (auto simp: same_part_def same_frame_def)
qed

lemma start_monitor_spec:
  assumes "sound L n" "nd_monitor n = None" "nd_ctx n \<noteq> None"
  shows "sound L (start_monitor cfg n) \<and> same_part n (start_monitor cfg n) \<and> nd_core (start_monitor cfg n) = nd_core n \<and>
     nd_netstack (start_monitor cfg n) = nd_netstack n \<and> nd_socks (start_monitor cfg n) = nd_socks n \<and>
     nd_closers (start_monitor cfg n) = nd_closers n \<and> nd_ready (start_monitor cfg n) = nd_ready n"
proof -
  obtain c where c: "nd_ctx n = Some c" using assms(3) by auto
  let ?m = "n\<lparr>nd_next := nd_next n + 1, nd_monitor := Some (nd_next n), nd_goroutines := nd_goroutines n @ [GMonitor (nd_next n) c]\<rparr>"
  have "start_monitor cfg n = ?m \<or> start_monitor cfg n = n"
    by (simp add: start_monitor_def spawn_def c Let_def)
  moreover have "owned ?m = owned n" by (simp add: owned_def)
  then have "ledger L ?m"
    using assms(1) by (simp add: sound_def ledger_def less_SucI)
  then have "sound L ?m"
    using assms(1,2) c unfolding sound_def
    by (auto intro!: gors_ok_mono [of n _ "[GMonitor (nd_next n) c]"])
  ultimately show ?thesis
    using assms(1) by (auto simp: same_part_def same_frame_def)
qed

lemma put_netstack_spec:
  assumes "sound L n" "nd_netstack n = None" "alloc KNetstack n = (i, m)"
  shows "sound L (m\<lparr>nd_netstack := Some i\<rparr>) \<and> same_part n (m\<lparr>nd_netstack := Some i\<rparr>) \<and> nd_core m = nd_core n \<and>
     nd_socks m = nd_socks n \<and> nd_closers m = nd_closers n \<and> nd_ready m = nd_ready n"
proof -
  have m: "i = nd_next n" "m = n\<lparr>nd_next := nd_next n + 1, nd_live := insert (KNetstack, nd_next n) (nd_live n)\<rparr>"
    using assms(3) by (auto simp: alloc_def)
  have "sound L (m\<lparr>nd_netstack := Some i\<rparr>)"
    using assms(1,2) unfolding sound_def m
    by (auto intro!: ledger_put [of L n] gors_ok_mono [of n _ "[]"] simp: owned_def)
  then show ?thesis by (simp add: m same_part_def same_frame_def)
qed

lemma init_socks_spec:
  assumes "sound L n" "nd_socks n = None" "init_socks cfg env n = (r, m)"
  shows "sound L m \<and> same_part n m \<and> nd_core m = nd_core n \<and> nd_netstack m = nd_netstack n \<and>
     nd_closers m = nd_closers n \<and> (r \<noteq> None \<longrightarrow> nd_socks m = None \<and> (\<exists>e. r = Some (SocksError e)))"
proof (cases r)
  case None
  let ?a = "n\<lparr>nd_next := nd_next n + 1, nd_live := insert (KSocks, nd_next n) (nd_live n), nd_socks := Some (nd_next n)\<rparr>"
  show ?thesis
  proof (cases "co_socks_addr cfg = ''''")
    case True
    then show ?thesis using assms None by (simp add: init_socks_def same_part_refl)
  next
    case False
    obtain u t f where m: "m = ?a\<lparr>nd_socks_unix := u, nd_socks_addr := t, nd_ready := f,
        nd_goroutines := nd_goroutines n @ [GSocksServe (nd_next n)]\<rparr>"
      using assms(3) None False by (auto simp: init_socks_def put_defs split: sum.splits)
    have "sound L m"
      using assms(1,2) unfolding sound_def
      by (auto intro!: ledger_put [of L n] gors_ok_mono [of n _ "[GSocksServe (nd_next n)]"] simp: owned_def m)
    then show ?thesis using None by (simp add: m same_part_def same_frame_def)
  qed
next
  case (Some e)
  then have "m = n" "\<exists>e. r = Some (SocksError e)"
    using assms(3) by (auto simp: init_socks_def put_defs split: if_splits sum.splits)
  then show ?thesis using assms(1,2) by (simp add: same_part_refl)
qed

text \<open>What the forwarding goroutines do to the node.\<close>

definition forwarded :: "(res_kind \<times> nat) set \<Rightarrow> node \<Rightarrow> node \<Rightarrow> bool" where
  "forwarded L n m \<longleftrightarrow> sound L m \<and> same_part n m \<and> nd_core m = nd_core n \<and> nd_netstack m = nd_netstack n \<and> nd_ctx n \<noteq> None"

lemma forwarded_refl: "sound L n \<Longrightarrow> nd_ctx n \<noteq> None \<Longrightarrow> forwarded L n n"
  by (simp add: forwarded_def same_part_refl)

lemma forwarded_trans: "forwarded L n m \<Longrightarrow> forwarded L m k \<Longrightarrow> forwarded L n k"
  unfolding forwarded_def using same_part_trans by metis

lemma forwarded_end: "forwarded L n m \<Longrightarrow> sound L m \<and> nd_ctx m \<noteq> None"
  by (simp add: forwarded_def same_part_def)

lemma start_forward_spec:
  assumes "sound L n" "nd_ctx n \<noteq> None"
  shows "forwarded L n (start_forward env k spec n)"
proof -
  obtain c where c: "nd_ctx n = Some c" using assms(2) by auto
  let ?gs = "if k = LocalTCP \<or> k = RemoteTCP then [GTcpLoop (nd_next n) c] else [GUdpLoop (nd_next n) c, GUdpCleanup c]"
  let ?m = "n\<lparr>nd_next := nd_next n + 1, nd_live := insert (KForward, nd_next n) (nd_live n),
     nd_closers := nd_closers n @ [nd_next n], nd_goroutines := nd_goroutines n @ ?gs\<rparr>"
  have "start_forward env k spec n = ?m \<or> start_forward env k spec n = n"
    by (simp add: start_forward_def put_defs c Let_def)
  moreover have "sound L ?m"
    using assms(1) c unfolding sound_def
    by (auto intro!: ledger_put [of L n] gors_ok_mono [of n _ ?gs] simp: owned_def)
  ultimately show ?thesis
    using assms by (auto simp: forwarded_def same_part_def same_frame_def)
qed

lemma fold_forward_spec:
  "sound L n \<Longrightarrow> nd_ctx n \<noteq> None \<Longrightarrow> forwarded L n (fold (start_forward env k) specs n)"
proof (induction specs arbitrary: n)
  case (Cons sp specs)
  from start_forward_spec [OF Cons.prems, of env k sp]
  show ?case
    using Cons.IH forwarded_end forwarded_trans by (metis fold_simps(2))
qed (simp add: forwarded_refl)

lemma start_forwards_spec:
  assumes "sound L n" "nd_ctx n \<noteq> None"
  shows "forwarded L n (start_forwards cfg env n)"
proof -
  note a = fold_forward_spec [OF assms, of env LocalTCP "co_local_tcp cfg"]
  note b = forwarded_trans [OF a fold_forward_spec [OF conjunct1 [OF forwarded_end [OF a]] conjunct2 [OF forwarded_end [OF a]],
    of env LocalUDP "co_local_udp cfg"]]
  note c = forwarded_trans [OF b fold_forward_spec [OF conjunct1 [OF forwarded_end [OF b]] conjunct2 [OF forwarded_end [OF b]],
    of env RemoteTCP "co_remote_tcp cfg"]]
  show ?thesis
    unfolding start_forwards_defs
    by (rule forwarded_trans [OF c fold_forward_spec [OF conjunct1 [OF forwarded_end [OF c]] conjunct2 [OF forwarded_end [OF c]]]])
qed

lemma init_networking_spec:
  assumes s: "sound L n" and clear: "nd_monitor n = None" "nd_netstack n = None" "nd_socks n = None"
    and ctx: "nd_ctx n \<noteq> None" and i: "init_networking cfg env n = (r, m)"
  shows "sound L m \<and> same_part n m \<and> nd_core m = nd_core n \<and>
     (if r = None then nd_netstack m \<noteq> None
      else nd_closers m = nd_closers n \<and> nd_socks m = None \<and>
           (nd_netstack m \<noteq> None \<longleftrightarrow> (\<exists>e. r = Some (SocksError e))))"
proof -
  let ?a = "start_monitor cfg n"
  note a = start_monitor_spec [OF s clear(1) ctx, of cfg]
  show ?thesis
  proof (cases "ev_netstack env")
    case False
    then show ?thesis using i a clear by (auto simp: init_networking_def Let_def)
  next
    case True
    obtain j b where j: "alloc KNetstack ?a = (j, b)" by (cases "alloc KNetstack ?a")
    let ?b = "b\<lparr>nd_netstack := Some j\<rparr>"
    have b: "sound L ?b" "same_part ?a ?b" "nd_core ?b = nd_core n" "nd_socks ?b = None" "nd_closers ?b = nd_closers n"
      using put_netstack_spec [OF conjunct1 [OF a] _ j] a clear by simp_all
    have nb: "same_part n ?b" using a b(2) same_part_trans by blast
    obtain q c where q: "init_socks cfg env ?b = (q, c)" by (cases "init_socks cfg env ?b")
    note c = init_socks_spec [OF b(1,4) q]
    have nc: "same_part n c" "nd_core c = nd_core n" "nd_netstack c = Some j"
      using c b by (auto intro: same_part_trans [OF nb])
    show ?thesis
    proof (cases q)
      case None
      then have m: "r = None" "m = start_forwards cfg env c"
        using i True j q by (simp_all add: init_networking_def Let_def)
      have "nd_ctx c \<noteq> None" using nc(1) ctx by (simp add: same_part_def)
      note f = start_forwards_spec [OF conjunct1 [OF c] this, of cfg env]
      then show ?thesis using m nc same_part_trans [of n c m] by (simp add: forwarded_def)
    next
      case (Some e)
      then have "r = q" "m = c" using i True j q by (simp_all add: init_networking_def Let_def)
      then show ?thesis using Some c nc b by auto
    qed
  qed
qed

text \<open>The whole initialisation, from a node without components.\<close>

definition initialised :: "(res_kind \<times> nat) set \<Rightarrow> node \<Rightarrow> start_error option \<Rightarrow> node \<Rightarrow> bool" where
  "initialised L n r m \<longleftrightarrow> sound L m \<and> same_part n m \<and>
     (if r = None then nd_core m \<noteq> None \<and> nd_netstack m \<noteq> None
      else nd_closers m = [] \<and> nd_socks m = None \<and> (nd_netstack m \<noteq> None \<longleftrightarrow> (\<exists>e. r = Some (SocksError e))))"

lemma init_all_spec:
  assumes s: "sound L n" and cl: "cleared n" "nd_closers n = []" and ctx: "nd_ctx n \<noteq> None"
    and i: "init_all cfg env n = (r, m)"
  shows "initialised L n r m"
proof -
  have cl': "nd_core n = None" "nd_admin n = None" "nd_multicast n = None" "nd_netstack n = None" "nd_monitor n = None"
    "nd_socks n = None" using cl(1) by (simp_all add: cleared_def)
  obtain r1 a where a: "init_core env n = (r1, a)" by (cases "init_core env n")
  note A = init_core_spec [OF s cl'(1) a]
  show ?thesis
  proof (cases r1)
    case (Some e)
    then have "r = r1" "m = a" using i a by (simp_all add: init_all_def)
    then show ?thesis using A Some cl' cl by (auto simp: initialised_def)
  next
    case r1: None
    obtain r2 b where b: "init_admin env a = (r2, b)" by (cases "init_admin env a")
    have a2: "nd_admin a = None" using A cl' by simp
    note B = init_admin_spec [OF conjunct1 [OF A] a2 b]
    have nb: "same_part n b" using A B by (auto intro: same_part_trans)
    show ?thesis
    proof (cases r2)
      case (Some e)
      then have "r = r2" "m = b" using i a b r1 by (simp_all add: init_all_def)
      then show ?thesis using A B Some cl' cl nb by (auto simp: initialised_def)
    next
      case r2: None
      obtain r3 c where c: "init_multicast cfg env b = (r3, c)" by (cases "init_multicast cfg env b")
      have b2: "nd_multicast b = None" using A B cl' by simp
      note C = init_multicast_spec [OF conjunct1 [OF B] b2 c]
      have nc: "same_part n c" using C by (auto intro: same_part_trans [OF nb])
      show ?thesis
      proof (cases r3)
        case (Some e)
        then have "r = r3" "m = c" using i a b c r1 r2 by (simp_all add: init_all_def)
        then show ?thesis using A B C Some cl' cl nc by (auto simp: initialised_def)
      next
        case r3: None
        then have d: "init_networking cfg env c = (r, m)" using i a b c r1 r2 by (simp add: init_all_def)
        have c2: "nd_monitor c = None" "nd_netstack c = None" "nd_socks c = None" "nd_closers c = []" "nd_ctx c \<noteq> None"
          using A B C cl' cl ctx by (simp_all add: same_part_def)
        have core: "nd_core c \<noteq> None" using A B C r1 by simp
        note D = init_networking_spec [OF conjunct1 [OF C] c2(1-3) c2(5) d]
        have "same_part n m" using D by (auto intro: same_part_trans [OF nc])
        then show ?thesis using D core c2 by (auto simp: initialised_def split: if_splits)
      qed
    qed
  qed
qed

text \<open>The netstack a failing start forgets: its deferred function clears the pointer before the rollback reads it.\<close>

definition forgotten :: "node \<Rightarrow> (res_kind \<times> nat) set" where
  "forgotten m = opt_res KNetstack (nd_netstack m)"

lemma ends_after_rollback:
  "gor_ok n g \<Longrightarrow> nd_closers n = [] \<Longrightarrow> nd_socks n = None \<Longrightarrow> nd_netstack m = None \<Longrightarrow>
   nd_monitor m = nd_monitor n \<Longrightarrow> nd_ctx m = nd_ctx n \<Longrightarrow> goroutine_ends (cancel_components (rolled_back m)) g"
  by (cases g) (auto simp: cancel_components_eq rolled_back_def ctx_done_def)

lemma start_failed_spec:
  assumes s: "sound L n" and c: "nd_closers n = []" "nd_socks n = None"
  obtains m where "start_failed n = Some m" "down m" "nd_ctx m = None" "same_frame n m" "nd_next m = nd_next n"
    "ledger (L \<union> forgotten n \<union> (if nd_hangs n then opt_res KCore (nd_core n) else {})) m" "nd_ready m = nd_ready n"
    "nd_socks_addr m = nd_socks_addr n"
proof -
  let ?n = "n\<lparr>nd_netstack := None\<rparr>"
  let ?r = "cancel_components (rolled_back ?n)"
  let ?m = "?r\<lparr>nd_goroutines := [], nd_ctx := None\<rparr>"
  have st: "stoppable ?n" using s by (simp add: sound_def)
  have g: "nd_goroutines ?r = nd_goroutines n" by (simp add: cancel_components_eq rolled_back_def)
  have "goroutine_ends ?r g" if "gor_ok n g" for g
    using that c by (intro ends_after_rollback [of n]) simp_all
  then have "list_all (goroutine_ends ?r) (nd_goroutines ?r)"
    using s by (auto simp: sound_def gors_ok_def list_all_iff g)
  then have f: "start_failed n = Some ?m"
    by (simp add: start_failed_def rollback_eq [OF st] wait_components_def)
  have m: "nd_live ?m = nd_live n - (owned ?n - abandoned ?n)" "nd_closers ?m = []" "nd_goroutines ?m = []"
    "nd_next ?m = nd_next n" "nd_ready ?m = nd_ready n" "nd_socks_addr ?m = nd_socks_addr n"
    using c by (simp_all add: cancel_components_eq rolled_back_def)
  have fr: "same_frame n ?m" by (simp add: same_frame_def cancel_components_eq rolled_back_def)
  have cl: "cleared ?m" by (simp add: cleared_def cancel_components_eq rolled_back_def)
  have "owned ?m = {}" by (rule owned_cleared [OF cl m(2)])
  have ab: "abandoned ?n = (if nd_hangs n then opt_res KCore (nd_core n) else {})"
    by (simp add: abandoned_def)
  have ow: "owned n = owned ?n \<union> forgotten n" "owned ?n \<inter> forgotten n = {}"
    by (auto simp: owned_def forgotten_def opt_res_mem)
  have "abandoned ?n \<subseteq> owned ?n" by (rule abandoned_owned)
  then have "ledger (L \<union> forgotten n \<union> abandoned ?n) ?m"
    using s ow \<open>owned ?m = {}\<close> unfolding sound_def ledger_def m by auto
  then show ?thesis
    using that [OF f _ _ fr m(4) _ m(5,6)] cl m(2,3) st fr
    by (auto simp: ab down_def stoppable_def same_frame_def)
qed

lemma new_generation_ok:
  assumes "down n" "ledger L n"
  shows "sound L (new_generation cfg n) \<and> cleared (new_generation cfg n) \<and> nd_closers (new_generation cfg n) = [] \<and>
     nd_ctx (new_generation cfg n) \<noteq> None \<and> same_frame n (new_generation cfg n)"
proof -
  have "owned (new_generation cfg n) = owned n" by (simp add: owned_def new_generation_def)
  then show ?thesis
    using assms by (auto simp: sound_def down_def gors_ok_def ledger_def cleared_def same_frame_def new_generation_def
        stoppable_def less_SucI)
qed

text \<open>Starting a node that is down.\<close>

lemma start_spec:
  assumes d: "down n" and l: "ledger L n"
  obtains (ok) m where "start_components cfg env n = Some (None, m)" "up m" "ledger L m" "same_frame n m"
  | (error) e m K where "start_components cfg env n = Some (Some e, m)" "down m" "ledger (L \<union> K) m" "same_frame n m"
      "K \<inter> L = {}" "\<not> nd_hangs n \<Longrightarrow> if \<exists>s. e = SocksError s then \<exists>i. K = {(KNetstack, i)} else K = {}"
proof -
  let ?g = "new_generation cfg n"
  obtain r m where i: "init_all cfg env ?g = (r, m)" by (cases "init_all cfg env ?g")
  note g = new_generation_ok [OF d l, of cfg]
  have ini: "initialised L ?g r m"
    using g by (intro init_all_spec [OF _ _ _ _ i]) auto
  have fr: "same_frame n m"
    using g ini by (auto simp: initialised_def same_part_def same_frame_def)
  show thesis
  proof (cases r)
    case None
    then show thesis
      using ok [of m] i ini fr g by (simp add: start_components_def initialised_def up_def sound_def same_part_def)
  next
    case (Some e)
    have s: "sound L m" "nd_closers m = []" "nd_socks m = None"
      using ini Some by (simp_all add: initialised_def)
    obtain k where k: "start_failed m = Some k" "down k" "nd_ctx k = None" "same_frame m k"
      "ledger (L \<union> forgotten m \<union> (if nd_hangs m then opt_res KCore (nd_core m) else {})) k"
      by (rule start_failed_spec [OF s]) blast
    let ?K = "forgotten m \<union> (if nd_hangs m then opt_res KCore (nd_core m) else {})"
    have ns: "nd_netstack m \<noteq> None \<longleftrightarrow> (\<exists>s. e = SocksError s)" using ini Some by (simp add: initialised_def)
    have dis: "?K \<inter> L = {}"
      using s(1) by (auto simp: sound_def ledger_def owned_def forgotten_def)
    have h: "nd_hangs m = nd_hangs n" using fr by (simp add: same_frame_def)
    have K: "if \<exists>s. e = SocksError s then \<exists>i. ?K = {(KNetstack, i)} else ?K = {}" if "\<not> nd_hangs n"
      using ns that h by (auto simp: forgotten_def)
    have f: "start_components cfg env n = Some (Some e, k)"
      by (simp add: start_components_def i Some k(1))
    have fk: "same_frame n k" using fr k(4) by (simp add: same_frame_def)
    show thesis
      by (rule error [OF f k(2) _ fk dis K]) (use k(5) in \<open>simp_all add: Un_assoc\<close>)
  qed
qed

text \<open>The readiness channel and the SOCKS address.\<close>

lemma start_forward_ready:
  "nd_ready (start_forward env k spec n) = nd_ready n" "nd_socks_addr (start_forward env k spec n) = nd_socks_addr n"
  by (simp_all add: start_forward_def put_defs Let_def)

lemma fold_forward_ready:
  "nd_ready (fold (start_forward env k) specs n) = nd_ready n"
  "nd_socks_addr (fold (start_forward env k) specs n) = nd_socks_addr n"
  by (induction specs arbitrary: n) (simp_all add: start_forward_ready)

lemma init_core_ready: "init_core env n = (r, m) \<Longrightarrow> nd_ready m = nd_ready n \<and> nd_socks_addr m = nd_socks_addr n"
  by (auto simp: init_core_def put_defs split: sum.splits if_splits)

lemma init_admin_ready: "init_admin env n = (r, m) \<Longrightarrow> nd_ready m = nd_ready n \<and> nd_socks_addr m = nd_socks_addr n"
  by (auto simp: init_admin_def put_defs split: admin_outcome.splits)

lemma init_multicast_ready:
  "init_multicast cfg env n = (r, m) \<Longrightarrow> nd_ready m = nd_ready n \<and> nd_socks_addr m = nd_socks_addr n"
  by (auto simp: init_multicast_def put_defs split: sum.splits if_splits)

lemma start_monitor_ready:
  "nd_ready (start_monitor cfg n) = nd_ready n" "nd_socks_addr (start_monitor cfg n) = nd_socks_addr n"
  by (simp_all add: start_monitor_def spawn_def Let_def)

lemma init_socks_ready:
  "init_socks cfg env n = (None, m) \<Longrightarrow>
   nd_ready m = (if co_socks_addr cfg = '''' then nd_ready n else map_option (\<lambda>_. True) (nd_ready n)) \<and>
   nd_socks_addr m = (if co_socks_addr cfg = '''' then nd_socks_addr n else co_socks_addr cfg)"
  by (auto simp: init_socks_def put_defs split: sum.splits if_splits)

lemma init_all_ready:
  assumes "init_all cfg env n = (None, m)"
  shows "nd_ready m = (if co_socks_addr cfg = '''' then nd_ready n else map_option (\<lambda>_. True) (nd_ready n)) \<and>
    nd_socks_addr m = (if co_socks_addr cfg = '''' then nd_socks_addr n else co_socks_addr cfg)"
proof -
  obtain a b c where steps: "init_core env n = (None, a)" "init_admin env a = (None, b)"
      "init_multicast cfg env b = (None, c)" "init_networking cfg env c = (None, m)"
    using assms by (auto simp: init_all_def split: prod.splits option.splits)
  obtain q where q: "init_socks cfg env ((snd (alloc KNetstack (start_monitor cfg c)))\<lparr>nd_netstack :=
      Some (fst (alloc KNetstack (start_monitor cfg c)))\<rparr>) = (None, q)" "m = start_forwards cfg env q"
    using steps(4) by (auto simp: init_networking_def Let_def split: prod.splits option.splits if_splits)
  show ?thesis
    using init_core_ready [OF steps(1)] init_admin_ready [OF steps(2)] init_multicast_ready [OF steps(3)]
      init_socks_ready [OF q(1)]
    by (simp add: q(2) start_forwards_defs fold_forward_ready start_monitor_ready alloc_def)
qed

lemma blank_sound:
  "\<not> hangs \<or> co_core_stop_timeout cfg \<noteq> 0 \<Longrightarrow> sound {} (blank_node g cfg hangs) \<and> cleared (blank_node g cfg hangs) \<and>
   nd_closers (blank_node g cfg hangs) = [] \<and> nd_ctx (blank_node g cfg hangs) \<noteq> None"
  by (simp add: sound_def gors_ok_def ledger_def owned_def blank_node_def stoppable_def cleared_def)

lemma new_defaults_timeout [simp]: "co_core_stop_timeout (new_defaults cfg) = co_core_stop_timeout cfg"
  "co_socks_addr (new_defaults cfg) = co_socks_addr cfg"
  by (simp_all add: new_defaults_def)

lemma new_spec:
  assumes st: "\<not> hangs \<or> co_core_stop_timeout cfg \<noteq> 0"
  obtains (ok) m where "new_node g cfg hangs env = Some (None, m)" "up m" "ledger {} m" "nd_ready m = None"
      "nd_hangs m = hangs" "nd_close_once m = False" "nd_socks_addr m = co_socks_addr cfg"
  | (error) e m K where "new_node g cfg hangs env = Some (Some e, m)" "cleared m" "nd_live m = K" "hangs \<or> K = {}"
proof -
  let ?c = "new_defaults cfg"
  let ?b = "blank_node g ?c hangs"
  obtain r m where i: "init_all ?c env ?b = (r, m)" by (cases "init_all ?c env ?b")
  have b: "sound {} ?b" "cleared ?b" "nd_closers ?b = []" "nd_ctx ?b \<noteq> None"
    using blank_sound [of hangs ?c g] st by simp_all
  have ini: "initialised {} ?b r m" by (rule init_all_spec [OF b i])
  have h: "nd_hangs m = hangs" "nd_close_once m = False"
    using ini by (simp_all add: initialised_def same_part_def same_frame_def blank_node_def)
  show thesis
  proof (cases r)
    case None
    have "nd_ready m = None" "nd_socks_addr m = co_socks_addr cfg"
      using init_all_ready [OF i [unfolded None]] by (simp_all add: blank_node_def)
    then show thesis
      using ok [of m] i ini None b h
      by (auto simp: new_node_def Let_def initialised_def up_def sound_def same_part_def)
  next
    case (Some e)
    let ?k = "(cancel_components (rolled_back m))\<lparr>nd_root_cancelled := True\<rparr>"
    have s: "sound {} m" "nd_closers m = []" using ini Some by (simp_all add: initialised_def)
    have f: "new_node g cfg hangs env = Some (Some e, ?k)"
      using s(1) by (simp add: new_node_def Let_def i Some rollback_eq sound_def)
    have l: "nd_live ?k = nd_live m - (owned m - abandoned m)"
      using s(2) by (simp add: cancel_components_eq rolled_back_def)
    then have "hangs \<or> nd_live ?k = {}"
      using s(1) h by (auto simp: sound_def ledger_def abandoned_def)
    moreover have "cleared ?k" by (simp add: cleared_def cancel_components_eq rolled_back_def)
    ultimately show thesis using error [OF f] by blast
  qed
qed

lemma up_stop:
  "up n \<Longrightarrow> stop_components n = Some (stopped n) \<and> down (stopped n)"
  by (simp add: up_def stop_spec stopped_down)

subsection \<open>The node as provider of the manager's interface\<close>

definition node_up :: "node \<Rightarrow> bool" where
  "node_up n \<longleftrightarrow> up n \<and> (\<exists>L. ledger L n)"

definition node_down :: "node \<Rightarrow> bool" where
  "node_down n \<longleftrightarrow> down n \<and> (\<exists>L. ledger L n)"

lemma up_stop_node: "node_up n \<Longrightarrow> stop_components n = Some (stopped n) \<and> node_down (stopped n)"
  unfolding node_up_def node_down_def using up_stop ledger_stopped by blast

lemma down_start_node:
  assumes "node_down n"
  shows "\<exists>e m. start_components cfg env n = Some (e, m) \<and> (if e = None then node_up m else node_down m)"
proof -
  obtain L where L: "down n" "ledger L n" using assms by (auto simp: node_down_def)
  from start_spec [OF this, of cfg env] show ?thesis
    unfolding node_up_def node_down_def by cases (metis option.distinct(1))+
qed

interpretation control: node_control node_control_obj node_up node_down
proof unfold_locales
  fix n assume "node_up n"
  then show "\<exists>m. op_stop node_control_obj n = Some m \<and> node_down m"
    using up_stop_node by (simp add: node_control_obj_def)
next
  fix n c e assume d: "node_down n"
  show "\<exists>ok m. op_start node_control_obj c e n = Some (ok, m) \<and> (if ok then node_up m else node_down m)"
  proof (cases c)
    case None
    with d have "op_start node_control_obj c e n = Some (False, n)" "node_down n"
      by (simp_all add: node_control_obj_def start_for_manager_def)
    then show ?thesis by (intro exI [of _ False] exI [of _ n]) simp
  next
    case (Some cfg)
    obtain r m where "start_components cfg e n = Some (r, m)" "if r = None then node_up m else node_down m"
      using down_start_node [OF d, of cfg e] by blast
    then have "op_start node_control_obj c e n = Some (r = None, m)" "if r = None then node_up m else node_down m"
      using Some by (simp_all add: node_control_obj_def start_for_manager_def)
    then show ?thesis by blast
  qed
qed

text \<open>\<open>Close\<close> is a shutdown guarded by \<open>sync.Once\<close>, over nodes whose calls have returned.\<close>

lemma close_once_kept:
  "stop_core_with_timeout n = Some m \<Longrightarrow> nd_close_once m = nd_close_once n"
  "close_netstack n = Some m \<Longrightarrow> nd_close_once m = nd_close_once n"
  by (auto simp: stop_core_with_timeout_def close_netstack_def release_def Let_def split: option.splits if_splits)

lemma stop_close_once: "stop_components n = Some m \<Longrightarrow> nd_close_once m = nd_close_once n"
  by (auto simp: stop_components_def wait_components_def stop_teardown_def bind_eq_Some_conv stop_signal_eq
      cancel_monitor_eq stop_multicast_eq stop_admin_eq split: if_splits dest!: close_once_kept)

lemma close_node_once: "close_node n = Some m \<Longrightarrow> nd_close_once m"
  by (auto simp: close_node_def split: if_splits dest: stop_close_once)

definition close_call :: "unit \<Rightarrow> node option \<Rightarrow> node option" where
  "close_call u n = Option.bind n close_node"

definition close_done :: "node option \<Rightarrow> bool" where
  "close_done n \<longleftrightarrow> (case n of None \<Rightarrow> True | Some m \<Rightarrow> nd_close_once m)"

interpretation closing: close_once close_done close_call
  by unfold_locales
     (auto simp: close_done_def close_call_def close_node_once split: option.splits bind_splits,
      simp add: close_node_def)

end
