(* ===== verification/NodeLife.thy ===== *)
theory NodeLife
  imports Node
begin

text \<open>
  Properties of the node's life cycle: what a start, a failing start, a stop, and a shutdown leave behind, and
  the node under the low power manager (\<open>mod/yggstack\<close> together with \<open>mod/lowpower\<close>).
\<close>

subsection \<open>Concrete configurations for the examples\<close>

definition demo_node_config :: node_config where
  "demo_node_config = \<lparr>nc_private_key = [1], nc_private_key_path = [], nc_certificate = Some [1], nc_node_info = '''', nc_privacy = False, nc_listen = [], nc_peers = [''tls://a:1''],
     nc_interface_peers = [], nc_allowed_keys = [], nc_admin_listen = ''none'', nc_log_lookups = False, nc_multicast = []\<rparr>"

definition demo_config :: config_obj where
  "demo_config = \<lparr>co_config = None, co_multicast_logger = False, co_socks_addr = '':1080'', co_nameserver = '''', co_local_tcp = [],
     co_local_udp = [], co_remote_tcp = [], co_remote_udp = [], co_udp_timeout = 0, co_activity_callback = True,
     co_peer_callback = False, co_core_stop_timeout = 0, co_low_power = Some 0\<rparr>"

definition demo_socks :: "bool \<Rightarrow> socks_env" where
  "demo_socks ok = \<lparr>se_listen = (if ok then Inr 0 else Inl [OsSyscallError, Errno 98]), se_probe = False, se_lstat = None,
     se_remove = False, se_relisten = Inr 0, se_windows = False, se_eaddrinuse = 98\<rparr>"

text \<open>All constructors succeed; the flag is for the SOCKS listener.\<close>

definition demo_env :: "bool \<Rightarrow> start_env" where
  "demo_env socks_ok = \<lparr>ev_core = (\<lambda>_ _. True), ev_admin = (\<lambda>_. AdminDisabled), ev_regex = (\<lambda>_. True),
     ev_multicast = (\<lambda>_. True), ev_netstack = True, ev_socks = demo_socks socks_ok, ev_listen = (\<lambda>_ _. True)\<rparr>"

lemmas demo_defs = demo_node_config_def demo_config_def demo_socks_def demo_env_def

lemmas node_eval = new_node_def new_defaults_def effective_config_def blank_node_def init_all_def init_core_def
  init_admin_def init_multicast_def init_networking_def init_socks_def start_monitor_def start_forwards_defs
  core_options_def alloc_def spawn_def start_socks_def socks_listen_def start_components_def new_generation_def
  start_failed_def rollback_components_def wait_components_def stop_components_def stop_signal_def stop_teardown_def
  stop_core_with_timeout_def close_netstack_def cancel_monitor_def close_socks_def stop_multicast_def stop_admin_def
  close_closers_def cancel_components_def release_def close_node_def default_udp_timeout_def ctx_done_def Let_def

text \<open>A running node from \<open>New\<close>, the same node asleep, and awake again.\<close>

definition demo_up :: node where
  "demo_up = snd (the (new_node demo_node_config demo_config False (demo_env True)))"

definition demo_down :: node where
  "demo_down = the (stop_components demo_up)"

lemma demo_new: "new_node demo_node_config demo_config False (demo_env True) = Some (None, demo_up)"
  by (simp add: demo_up_def node_eval demo_defs)

lemma demo_up_ok: "node_up demo_up" "ledger {} demo_up" "\<not> nd_hangs demo_up"
proof -
  have "up demo_up \<and> ledger {} demo_up \<and> \<not> nd_hangs demo_up"
    by (rule new_spec [of False demo_config demo_node_config "demo_env True"]) (use demo_new in auto)
  then show "node_up demo_up" "ledger {} demo_up" "\<not> nd_hangs demo_up"
    by (auto simp: node_up_def)
qed

lemma demo_stop: "stop_components demo_up = Some demo_down"
  using up_stop_node [OF demo_up_ok(1)] by (simp add: demo_down_def)

lemma demo_down_ok: "node_down demo_down" "ledger {} demo_down" "\<not> nd_hangs demo_down"
proof -
  have e: "demo_down = stopped demo_up" "node_down (stopped demo_up)"
    using up_stop_node [OF demo_up_ok(1)] demo_stop by auto
  show "node_down demo_down" unfolding e(1) by (rule e(2))
  show "ledger {} demo_down" "\<not> nd_hangs demo_down"
    using ledger_stopped [OF demo_up_ok(2)] demo_up_ok(3) same_frame_teardown(2) [of demo_up]
    unfolding e(1) by (simp_all add: abandoned_def same_frame_def)
qed

subsection \<open>Starts that fail\<close>

lemma start_error_spec:
  assumes "down n" "ledger L n" "\<not> nd_hangs n" "start_components cfg env n = Some (Some e, m)"
  shows "down m \<and> same_frame n m \<and> (\<exists>K. ledger (L \<union> K) m \<and> K \<inter> L = {} \<and>
     (if \<exists>s. e = SocksError s then \<exists>i. K = {(KNetstack, i)} else K = {}))"
  using assms(3,4) by (cases rule: start_spec [OF assms(1,2), of cfg env]) auto

lemma ledger_down_live: "ledger L n \<Longrightarrow> down n \<Longrightarrow> nd_live n = L"
  using owned_cleared by (auto simp: ledger_def down_def)

text \<open>A sleeping node that tries to start again and again, as it does for each wake request.\<close>

fun retry_starts :: "config_obj \<Rightarrow> start_env list \<Rightarrow> node \<Rightarrow> (start_error option list \<times> node) option" where
  "retry_starts cfg [] n = Some ([], n)"
| "retry_starts cfg (e # es) n =
     (case start_components cfg e n of
        None \<Rightarrow> None
      | Some (r, m) \<Rightarrow> map_option (\<lambda>(rs, k). (r # rs, k)) (retry_starts cfg es m))"




lemma demo_start_fails:
  "\<exists>m. start_components demo_config (demo_env False) demo_down = Some (Some (SocksError (ListenTcpFailed '':1080'')), m)"
  by (simp add: demo_down_def demo_up_def node_eval demo_defs)


text \<open>
  the leak accumulates: a sleeping node whose SOCKS address stays taken leaks one netstack for each wake
  request it tries to serve.
\<close>

theorem retries_leak_a_netstack_each:
  assumes "node_down n" "\<not> nd_hangs n" "finite (nd_live n)" "retry_starts cfg envs n = Some (rs, m)"
    "list_all (\<lambda>r. \<exists>s. r = Some (SocksError s)) rs"
  shows "nd_netstack m = None \<and> card (nd_live m) = card (nd_live n) + length envs"
  using assms
proof (induction envs arbitrary: n rs)
  case Nil
  then show ?case by (simp add: node_down_def down_def cleared_def)
next
  case (Cons e es)
  obtain r k rs' where s: "start_components cfg e n = Some (r, k)" "retry_starts cfg es k = Some (rs', m)" "rs = r # rs'"
    using Cons.prems(4) by (auto split: option.splits)
  obtain x where r: "r = Some (SocksError x)" using Cons.prems(5) s(3) by auto
  obtain L where L: "down n" "ledger L n" using Cons.prems(1) by (auto simp: node_down_def)
  obtain K i where K: "down k" "ledger (L \<union> K) k" "K \<inter> L = {}" "K = {(KNetstack, i)}" "same_frame n k"
    using start_error_spec [OF L Cons.prems(2) s(1) [unfolded r]] by auto
  have live: "nd_live n = L" "nd_live k = insert (KNetstack, i) L"
    using ledger_down_live L K by auto
  have k: "node_down k" "\<not> nd_hangs k" "finite (nd_live k)" "card (nd_live k) = card (nd_live n) + 1"
    using K Cons.prems(2,3) live by (auto simp: node_down_def same_frame_def)
  show ?case
    using Cons.IH [OF k(1-3) s(2)] Cons.prems(5) s(3) k(4) by simp
qed

lemma demo_retry:
  "\<exists>m. retry_starts demo_config [demo_env False, demo_env False] demo_down =
     Some ([Some (SocksError (ListenTcpFailed '':1080'')), Some (SocksError (ListenTcpFailed '':1080''))], m)"
  by (simp add: demo_down_def demo_up_def node_eval demo_defs)

theorem retries_leak_a_netstack_each_witness:
  "\<exists>rs m. retry_starts demo_config [demo_env False, demo_env False] demo_down = Some (rs, m) \<and> card (nd_live m) = 2"
proof -
  obtain m where m: "retry_starts demo_config [demo_env False, demo_env False] demo_down =
     Some ([Some (SocksError (ListenTcpFailed '':1080'')), Some (SocksError (ListenTcpFailed '':1080''))], m)"
    using demo_retry by blast
  have "nd_live demo_down = {}"
    using demo_down_ok ledger_down_live by (auto simp: node_down_def)
  with retries_leak_a_netstack_each [OF demo_down_ok(1,3) _ m] m show ?thesis by auto
qed

subsection \<open>Stopping and closing\<close>

text \<open>A node that came out of \<open>New\<close> and has at most been listened on since.\<close>

definition fresh :: "bool \<Rightarrow> node \<Rightarrow> bool" where
  "fresh hangs n \<longleftrightarrow> up n \<and> ledger {} n \<and> \<not> nd_close_once n \<and> nd_hangs n = hangs"

lemma new_fresh:
  assumes "new_node g cfg hangs env = Some (None, n)" "\<not> hangs \<or> co_core_stop_timeout cfg \<noteq> 0"
  shows "fresh hangs n"
  by (rule new_spec [OF assms(2), of g env]) (use assms(1) in \<open>auto simp: fresh_def\<close>)

lemma close_fresh:
  assumes "fresh hangs n"
  obtains m where "close_node n = Some m" "down m" "nd_close_once m" "hangs \<or> nd_live m = {}"
proof -
  have n: "up n \<and> ledger {} n \<and> \<not> nd_close_once n \<and> nd_hangs n = hangs" using assms by (simp add: fresh_def)
  let ?n = "n\<lparr>nd_close_once := True, nd_root_cancelled := True\<rparr>"
  have "gor_ok ?n x = gor_ok n x" for x by (cases x) simp_all
  then have g: "gors_ok ?n" "stoppable ?n"
    using n by (auto simp: up_def gors_ok_def list_all_iff)
  have "owned ?n = owned n" by (simp add: owned_def)
  then have l: "ledger {} ?n" using n by (simp add: ledger_def)
  have c: "close_node n = Some (stopped ?n)"
    using n stop_spec [OF g(2,1)] by (simp add: close_node_def)
  have d: "down (stopped ?n)" by (rule stopped_down [OF g(2)])
  have "hangs \<or> nd_live (stopped ?n) = {}"
    using ledger_down_live [OF ledger_stopped [OF l] d] n by (simp add: abandoned_def)
  then show ?thesis
    using that [OF c d] by (simp add: stopped_def)
qed

text \<open>Closing a node that came out of \<open>New\<close>, also one whose core hangs, provided there is a time limit.\<close>

lemma close_after_new:
  assumes "new_node g cfg hangs env = Some (None, n)" "\<not> hangs \<or> co_core_stop_timeout cfg \<noteq> 0"
  obtains m where "close_node n = Some m" "down m" "nd_close_once m" "hangs \<or> nd_live m = {}"
  using close_fresh [OF new_fresh [OF assms]] .

lemma listen_put:
  assumes "node_listen ns_listen b n = (r, m)"
  shows "(\<exists>e. r = Inl e) \<and> m = n \<or> r = Inr (nd_next n) \<and>
     m = n\<lparr>nd_next := nd_next n + 1, nd_live := insert (KForward, nd_next n) (nd_live n), nd_closers := nd_closers n @ [nd_next n]\<rparr>"
  using assms by (auto simp: node_listen_def put_defs split: option.splits)

lemma listen_up:
  assumes "up n" "ledger L n" "node_listen ns_listen b n = (r, m)"
  shows "up m \<and> ledger L m \<and> same_frame n m"
proof (cases r)
  case (Inl e)
  then show ?thesis using assms listen_put [OF assms(3)] by (auto simp: same_frame_def)
next
  case (Inr x)
  then have m: "m = n\<lparr>nd_next := nd_next n + 1, nd_live := insert (KForward, nd_next n) (nd_live n),
      nd_closers := nd_closers n @ [nd_next n]\<rparr>"
    using listen_put [OF assms(3)] by auto
  have l: "ledger L m"
    using assms(2) by (rule ledger_put [where k = KForward]) (auto simp: m owned_def)
  have "gors_ok m"
    using assms(1) by (intro gors_ok_mono [of n m "[]"]) (auto simp: m up_def)
  then show ?thesis using l assms(1) by (simp add: up_def m same_frame_def)
qed

lemma listen_fresh: "fresh hangs n \<Longrightarrow> node_listen ns_listen p n = (r, m) \<Longrightarrow> fresh hangs m"
  using listen_up [of n "{}" ns_listen p r m] by (auto simp: fresh_def same_frame_def)

lemma new_frame:
  assumes "new_node g cfg hangs env = Some (None, n)" "\<not> hangs \<or> co_core_stop_timeout cfg \<noteq> 0"
  shows "nd_config n = effective_config g cfg" "nd_count n = 0"
proof -
  let ?c = "new_defaults cfg"
  let ?b = "blank_node g ?c hangs"
  have i: "init_all ?c env ?b = (None, n)"
    using assms(1) by (auto simp: new_node_def Let_def bind_eq_Some_conv split: prod.splits option.splits)
  have "sound {} ?b" "cleared ?b" "nd_closers ?b = []" "nd_ctx ?b \<noteq> None"
    using blank_sound [of hangs ?c g] assms(2) by simp_all
  then have "initialised {} ?b None n" by (rule init_all_spec [OF _ _ _ _ i])
  then have "nd_config n = nd_config ?b" "nd_count n = nd_count ?b"
    by (simp_all add: initialised_def same_part_def same_frame_def)
  then show "nd_config n = effective_config g cfg" "nd_count n = 0"
    by (simp_all add: blank_node_def effective_config_def new_defaults_def)
qed




lemma demo_restart: "\<exists>m. start_components demo_config (demo_env True) demo_down = Some (None, m)"
  by (simp add: demo_down_def demo_up_def node_eval demo_defs)


subsection \<open>The API while the node sleeps\<close>

text \<open>
  the API follows the state of the node: on a running node every call reaches the core or the netstack; on
  a stopped one dialling and listening fail with an error, the address and key are nil, and nothing changes.
\<close>

theorem api_follows_state:
  assumes "node_up n" "node_down d"
  shows "(\<exists>ns. node_dial ns_dial a n = ns_dial ns a) \<and> (\<exists>c. node_address addr n = Some (addr c)) \<and>
     (\<exists>c. node_public_key key n = Some (key c)) \<and> (\<exists>c. node_subnet sub empty_net n = sub c) \<and>
     node_dial ns_dial a d = Inl NetstackNotAvailable \<and> node_address addr d = None \<and> node_public_key key d = None \<and>
     node_subnet sub empty_net d = empty_net \<and> node_listen ns_listen b d = (Inl NetstackNotAvailable, d)"
  using assms by (auto simp: node_up_def node_down_def up_def down_def cleared_def node_dial_def node_address_def
      node_public_key_def node_listen_def node_subnet_def)

theorem api_follows_state_witness:
  "node_dial (\<lambda>ns (a :: nat). Inr a) 7 demo_up = Inr 7 \<and> node_address (\<lambda>_. [2]) demo_down = None"
  using api_follows_state [OF demo_up_ok(1) demo_down_ok(1), of "\<lambda>ns (a :: nat). Inr a" 7 "\<lambda>_. [2]" "\<lambda>_. []" "\<lambda>_. ()" "()" "\<lambda>_ _. None" "()"]
  by auto

text \<open>
  a listener opened through the API of a running node lives exactly until the node stops: it is registered,
  the node stays sound, and the next stop returns and closes it.
\<close>

theorem api_listener_closed_on_stop:
  assumes "node_up n" "node_listen ns_listen b n = (Inr l, m)"
  shows "node_up m \<and> (KForward, l) \<in> nd_live m \<and> l \<in> set (nd_closers m) \<and>
     (\<exists>k. stop_components m = Some k \<and> (KForward, l) \<notin> nd_live k)"
proof -
  obtain L where n: "up n" "ledger L n" using assms(1) by (auto simp: node_up_def)
  have u: "up m" and l: "ledger L m" using listen_up [OF n assms(2)] by simp_all
  have m: "l = nd_next n" "m = n\<lparr>nd_next := nd_next n + 1, nd_live := insert (KForward, nd_next n) (nd_live n),
      nd_closers := nd_closers n @ [nd_next n]\<rparr>"
    using listen_put [OF assms(2)] by auto
  have live: "(KForward, l) \<in> owned m" by (simp add: m owned_def)
  have "nd_live (stopped m) = L \<union> abandoned m"
    using ledger_down_live [OF ledger_stopped [OF l]] up_stop [OF u] by simp
  moreover have "(KForward, l) \<notin> L \<union> abandoned m"
    using l live by (auto simp: ledger_def abandoned_def opt_res_mem)
  ultimately show ?thesis
    using u l up_stop [OF u] live by (auto simp: node_up_def ledger_def m)
qed

theorem api_listener_closed_on_stop_witness:
  "\<exists>l m k. node_listen (\<lambda>_ _. None) () demo_up = (Inr l, m) \<and> stop_components m = Some k \<and> (KForward, l) \<notin> nd_live k"
proof -
  have "nd_netstack demo_up \<noteq> None" using demo_up_ok(1) by (auto simp: node_up_def up_def)
  then obtain l m where m: "node_listen (\<lambda>_ _. None) () demo_up = (Inr l, m)"
    by (auto simp: node_listen_def put_defs)
  from api_listener_closed_on_stop [OF demo_up_ok(1) m] m show ?thesis by blast
qed

subsection \<open>Under the low power manager\<close>


definition demo_wake_env :: "bool \<Rightarrow> start_env wake_env" where
  "demo_wake_env ok = \<lparr>we_start = demo_env ok, we_relisten = True, we_now = 0\<rparr>"

definition demo_sleep_env :: "bool \<Rightarrow> bool \<Rightarrow> start_env sleep_env" where
  "demo_sleep_env listen woken = \<lparr>sv_listen = listen, sv_restart = demo_env True, sv_woken = woken, sv_wake = demo_wake_env False\<rparr>"

definition demo_manager :: "(node, config_obj) manager" where
  "demo_manager = the (new_low_power (new_defaults demo_config) 0 demo_up)"

lemma demo_manager_eq:
  "new_low_power (new_defaults demo_config) 0 demo_up = Some demo_manager"
  by (simp add: demo_manager_def new_low_power_def new_defaults_def demo_config_def)


text \<open>
  C19: an idle node falls asleep in time: if the ticker fires every ten seconds, nobody wakes the node and no
  connection is tracked, the manager of a running node puts it to sleep on the first tick that is at least the
  idle timeout after the last activity, so before ten seconds more than the timeout, in whole seconds, have passed.
\<close>

theorem idle_node_sleeps_in_time:
  assumes "lm_state m = FullPower" "node_up (lm_node m)" "lm_listener m = None" "sint (nd_count (lm_node m)) \<le> 0"
    "\<not> lm_wake m" "lm_idle_timeout m \<le> secs * 10 ^ 9" "(secs - 1) * 10 ^ 9 < lm_idle_timeout m" "0 < secs"
    "ticks_within (lm_last m) ts" "\<exists>x \<in> set ts. lm_last m + secs \<le> fst x"
    "list_all (\<lambda>x. sv_listen (snd x) \<and> \<not> sv_woken (snd x)) ts"
  shows "\<exists>us x vs m'. ts = us @ x # vs \<and> run_manager node_control_obj (map tick us) m = Some m \<and>
     run_turn node_control_obj (tick x) m = Some m' \<and> get_state m' = LowPower \<and> node_down (lm_node m') \<and>
     fst x < lm_last m + secs + 10"
proof -
  have "power_inv node_up node_down m" using assms(1-3) by (simp add: power_inv_def)
  moreover have "op_count node_control_obj (lm_node m) \<le> 0"
    using assms(4) by (simp add: node_control_obj_def node_active_connections_def)
  ultimately show ?thesis
    using control.idle_ticks [of m secs "lm_last m" ts] assms
    by (simp add: get_state_def tick_seconds_def idle_check_interval_def)
qed

theorem idle_node_sleeps_in_time_witness:
  "\<exists>x m'. x \<in> {(10, demo_sleep_env True False), (20, demo_sleep_env True False)} \<and>
     run_turn node_control_obj (tick x) (demo_manager\<lparr>lm_idle_timeout := 15 * 10 ^ 9\<rparr>) = Some m' \<and> get_state m' = LowPower"
proof -
  let ?m = "demo_manager\<lparr>lm_idle_timeout := 15 * 10 ^ 9\<rparr>"
  let ?ts = "[(10, demo_sleep_env True False), (20, demo_sleep_env True False)]"
  have m: "lm_state ?m = FullPower" "lm_node ?m = demo_up" "lm_listener ?m = None" "\<not> lm_wake ?m" "lm_last ?m = 0"
    by (simp_all add: demo_manager_def new_low_power_def set_orig_config_def new_manager_def new_defaults_def demo_config_def)
  have c: "nd_count demo_up = 0" by (simp add: demo_up_def node_eval demo_defs)
  have "\<exists>us x vs m'. ?ts = us @ x # vs \<and> run_manager node_control_obj (map tick us) ?m = Some ?m \<and>
     run_turn node_control_obj (tick x) ?m = Some m' \<and> get_state m' = LowPower \<and> node_down (lm_node m') \<and>
     fst x < lm_last ?m + 15 + 10"
    by (rule idle_node_sleeps_in_time)
       (use m c demo_up_ok(1) in \<open>simp_all add: tick_seconds_def idle_check_interval_def demo_sleep_env_def\<close>)
  then obtain us x vs m' where x: "?ts = us @ x # vs" "run_turn node_control_obj (tick x) ?m = Some m'" "get_state m' = LowPower"
    by blast
  from x(1) have "x \<in> set ?ts" by (metis in_set_conv_decomp)
  then have "x \<in> {(10, demo_sleep_env True False), (20, demo_sleep_env True False)}" by simp
  with x(2,3) show ?thesis by blast
qed

text \<open>
  outside that condition the manager does start a running node: the first core stays live although the
  node sleeps, and no field refers to it. Here the wake listener cannot be opened, the restart succeeds, and the
  pending wake request starts the node once more, which fails because the first restart holds the SOCKS address.
\<close>

theorem wake_during_failed_sleep_leaks_core:
  "\<exists>m i. run_manager node_control_obj [TickEvent 61 (demo_sleep_env False True)] demo_manager = Some m \<and>
     lm_state m = LowPower \<and> nd_core (lm_node m) = None \<and> (KCore, i) \<in> nd_live (lm_node m)"
  by (simp add: demo_manager_def new_low_power_def set_orig_config_def new_manager_def run_turn_def run_tick_def
      sleep_defs lm_updates do_transition_to_full_power_def begin_wake_def finish_wake_def
      node_control_obj_def start_for_manager_def node_active_connections_def idle_seconds_def default_idle_timeout_def
      demo_sleep_env_def demo_wake_env_def demo_up_def node_eval demo_defs) (rule exI [of _ 5], simp)

text \<open>
  the connection that wakes the node from its first sleep is lost when its handler looks at the readiness
  channel before \<open>Run\<close> has recreated it: until the first restart that channel is nil, so the handler waits for
  the whole timeout and closes the connection, although the wake request it made is served.
\<close>

theorem first_wake_connection_dropped:
  assumes "new_node g cfg False env = Some (None, n)" "stop_components n = Some k"
  shows "fst (handle_wake_connection node_control_obj h (m\<lparr>lm_node := k\<rparr>)) \<in> {WakeDropped, WakeAborted} \<and>
     lm_wake (snd (handle_wake_connection node_control_obj h (m\<lparr>lm_node := k\<rparr>)))"
proof -
  have n: "up n \<and> nd_ready n = None"
    by (rule new_spec [of False cfg g env]) (use assms in auto)
  then have "nd_ready k = None"
    using up_stop [of n] assms(2) by (auto simp: stopped_def)
  then show ?thesis
    by (simp add: handle_wake_connection_def node_control_obj_def lm_updates Let_def)
qed

theorem first_wake_connection_dropped_witness:
  "fst (handle_wake_connection node_control_obj \<lparr>he_ready = True, he_stopped = False, he_dial = True\<rparr>
     (demo_manager\<lparr>lm_node := demo_down\<rparr>)) \<noteq> WakeProxied '':1080''"
  using first_wake_connection_dropped [OF demo_new demo_stop,
      of "\<lparr>he_ready = True, he_stopped = False, he_dial = True\<rparr>" demo_manager] by auto

text \<open>
  from the second sleep on the channel is the one an earlier start closed, so a handler that looks at it
  before the next start does not wait at all: it dials the SOCKS address at once, while the wake listener itself
  still holds that address.
\<close>

theorem later_wake_dials_itself:
  assumes "node_down k0" "start_components cfg env k0 = Some (None, n)" "co_socks_addr cfg \<noteq> ''''" "lm_node m = n"
    "lm_state m = FullPower" "transition_to_low_power node_control_obj now sv m = Some m'" "sv_listen sv" "he_dial h"
  shows "fst (handle_wake_connection node_control_obj h m') = WakeProxied (co_socks_addr cfg) \<and>
     lm_listener m' = Some (co_socks_addr cfg)"
proof -
  have n: "node_up n" using down_start_node [OF assms(1), of cfg env] assms(2) by simp
  have i: "init_all cfg env (new_generation cfg k0) = (None, n)"
    using assms(2) by (auto simp: start_components_def bind_eq_Some_conv split: prod.splits option.splits)
  have r: "nd_ready n = Some True" "nd_socks_addr n = co_socks_addr cfg"
    using init_all_ready [OF i] assms(3) by (simp_all add: new_generation_def)
  have s: "stop_components n = Some (stopped n)" using up_stop_node [OF n] by blast
  have m': "m' = m\<lparr>lm_node := stopped n, lm_listener := Some (co_socks_addr cfg), lm_state := LowPower\<rparr>"
    using assms(3-7) s r by (simp add: sleep_defs node_control_obj_def lm_updates Let_def)
  have "nd_ready (stopped n) = Some True" "nd_socks_addr (stopped n) = co_socks_addr cfg"
    using r by (simp_all add: stopped_def)
  then show ?thesis
    using assms(8) by (simp add: handle_wake_connection_def node_control_obj_def lm_updates Let_def m')
qed

theorem later_wake_dials_itself_witness:
  "\<exists>n m'. start_components demo_config (demo_env True) demo_down = Some (None, n) \<and>
     fst (handle_wake_connection node_control_obj \<lparr>he_ready = False, he_stopped = False, he_dial = True\<rparr> m') =
       WakeProxied '':1080'' \<and> lm_listener m' = Some '':1080''"
proof -
  obtain n where n: "start_components demo_config (demo_env True) demo_down = Some (None, n)"
    using demo_restart by blast
  let ?m = "demo_manager\<lparr>lm_node := n\<rparr>"
  let ?sv = "demo_sleep_env True False"
  let ?h = "\<lparr>he_ready = False, he_stopped = False, he_dial = True\<rparr>"
  have u: "node_up n" using down_start_node [OF demo_down_ok(1), of demo_config "demo_env True"] n by simp
  have c: "co_socks_addr demo_config = '':1080''" by (simp add: demo_config_def)
  have m: "lm_node ?m = n" "lm_state ?m = FullPower"
    by (simp_all add: demo_manager_def new_low_power_def set_orig_config_def new_manager_def new_defaults_def demo_config_def)
  have "transition_to_low_power node_control_obj 0 ?sv ?m \<noteq> None"
    using up_stop_node [OF u] m
    by (simp add: sleep_defs node_control_obj_def lm_updates Let_def demo_sleep_env_def)
  then obtain m' where t: "transition_to_low_power node_control_obj 0 ?sv ?m = Some m'" by blast
  have "co_socks_addr demo_config \<noteq> ''''" "sv_listen ?sv" "he_dial ?h"
    by (simp_all add: c demo_sleep_env_def)
  from later_wake_dials_itself [OF demo_down_ok(1) n this(1) m t this(2,3)] n show ?thesis
    unfolding c by blast
qed

text \<open>
  \<open>Close\<close> does not wait for \<open>Run\<close>: when it comes between the two halves of a wake-up, the start that
  follows succeeds, the node runs although it was closed, and no further \<open>Close\<close> stops it.
\<close>

theorem close_during_wake_leaves_node_running:
  assumes "node_down (lm_node m)" "\<not> nd_close_once (lm_node m)" "close_node (lm_node (begin_wake m)) = Some k"
    "finish_wake node_control_obj env ((begin_wake m)\<lparr>lm_node := k\<rparr>) = Some m'" "lm_state m' = FullPower"
  shows "node_up (lm_node m') \<and> nd_close_once (lm_node m') \<and> nd_core (lm_node m') \<noteq> None \<and>
     close_node (lm_node m') = Some (lm_node m')"
proof -
  let ?n = "(lm_node m)\<lparr>nd_close_once := True, nd_root_cancelled := True\<rparr>"
  obtain L where L: "down (lm_node m)" "ledger L (lm_node m)" using assms(1) by (auto simp: node_down_def)
  have "owned ?n = owned (lm_node m)" by (simp add: owned_def)
  then have n: "stoppable ?n" "gors_ok ?n" "ledger L ?n"
    using L by (simp_all add: down_def gors_ok_def ledger_def)
  have k: "k = stopped ?n"
    using assms(2,3) stop_spec [OF n(1,2)] by (simp add: close_node_def begin_wake_def lm_updates)
  then have d: "node_down k"
    using stopped_down [OF n(1)] ledger_stopped [OF n(3)] by (auto simp: node_down_def)
  obtain cfg where c: "lm_orig m = Some cfg"
    using assms(4,5) by (cases "lm_orig m")
      (auto simp: finish_wake_def begin_wake_def lm_updates node_control_obj_def start_for_manager_def Let_def)
  obtain r x where x: "start_components cfg (we_start env) k = Some (r, x)" "if r = None then node_up x else node_down x"
    using down_start_node [OF d, of cfg "we_start env"] by blast
  have r: "r = None" "lm_node m' = x"
    using assms(4,5) x(1) c
    by (cases r; auto simp: finish_wake_def begin_wake_def lm_updates node_control_obj_def start_for_manager_def Let_def)+
  have ck: "nd_close_once k" by (simp add: k stopped_def)
  obtain K where "down k" "ledger K k" using d by (auto simp: node_down_def)
  then have "same_frame k x"
    by (rule start_spec [of k K cfg "we_start env"]) (use x(1) r in auto)
  then have "nd_close_once x" using ck by (simp add: same_frame_def)
  then show ?thesis
    using x(2) r by (auto simp: close_node_def node_up_def up_def)
qed

theorem close_during_wake_leaves_node_running_witness:
  "\<exists>k m'. close_node demo_down = Some k \<and>
     finish_wake node_control_obj (demo_wake_env True) ((begin_wake (demo_manager\<lparr>lm_node := demo_down\<rparr>))\<lparr>lm_node := k\<rparr>) = Some m' \<and>
     nd_core (lm_node m') \<noteq> None"
proof -
  let ?m = "demo_manager\<lparr>lm_node := demo_down\<rparr>"
  let ?k = "stopped (demo_down\<lparr>nd_close_once := True, nd_root_cancelled := True\<rparr>)"
  have once: "\<not> nd_close_once demo_down"
    by (simp add: demo_down_def demo_up_def node_eval demo_defs)
  have nd: "stoppable demo_down" "nd_goroutines demo_down = []"
    using demo_down_ok(1) by (simp_all add: node_down_def down_def)
  then have k: "close_node demo_down = Some ?k"
    using once stop_spec [of "demo_down\<lparr>nd_close_once := True, nd_root_cancelled := True\<rparr>"]
    by (simp add: close_node_def gors_ok_def)
  have d: "node_down (lm_node ?m)" "\<not> nd_close_once (lm_node ?m)" "close_node (lm_node (begin_wake ?m)) = Some ?k"
    using demo_down_ok(1) once k by (simp_all add: begin_wake_def lm_updates)
  have "\<exists>x. start_components (new_defaults demo_config) (demo_env True) ?k = Some (None, x)"
    by (simp add: stopped_def demo_down_def demo_up_def node_eval demo_defs)
  then obtain x where x: "start_components (new_defaults demo_config) (demo_env True) ?k = Some (None, x)" by blast
  have o1: "lm_orig demo_manager = Some (new_defaults demo_config)"
    by (simp add: demo_manager_def new_low_power_def set_orig_config_def new_defaults_def demo_config_def)
  let ?m' = "(touch_activity 0 ((begin_wake ?m)\<lparr>lm_node := x\<rparr>))\<lparr>lm_state := FullPower\<rparr>"
  have f: "finish_wake node_control_obj (demo_wake_env True) ((begin_wake ?m)\<lparr>lm_node := ?k\<rparr>) = Some ?m'"
    using x by (simp add: finish_wake_def node_control_obj_def start_for_manager_def begin_wake_def lm_updates o1 demo_wake_env_def)
  have "lm_state ?m' = FullPower" by simp
  from close_during_wake_leaves_node_running [OF d f this] k f show ?thesis by blast
qed

end
