(* ===== verification/StopRace.thy ===== *)
theory StopRace
  imports GoPrelude
begin

text \<open>
  Stopping the components while forwarding goroutines are still starting (\<open>stopComponents\<close> in
  \<open>mod/yggstack/func.go\<close> against the goroutines of \<open>mod/mapping/tcp.go\<close> and \<open>udp.go\<close>). \<open>NodeLife\<close> lets every
  goroutine reach its loop before anything else happens; here the two sides take their steps in any order.

  A goroutine first listens, then registers its listener with \<open>AddCloser\<close>, then serves until its listener is
  closed and the context is cancelled. The stop cancels the context, closes and forgets the registered
  listeners, and waits for all goroutines. Serving a client changes nothing here and is no step.
\<close>

datatype forward_pc = Listening | Registering | Serving | Finished

datatype stop_pc = Idle | Cancelled | Waiting | Stopped

record race =
  rc_pcs :: "forward_pc list"
  rc_open :: "nat set"        \<comment> \<open>goroutines whose listener is open\<close>
  rc_closers :: "nat list"    \<comment> \<open>registered\<close>
  rc_stop :: stop_pc

inductive race_step :: "race \<Rightarrow> race \<Rightarrow> bool" where
  listen_ok: "i < length (rc_pcs s) \<Longrightarrow> rc_pcs s ! i = Listening \<Longrightarrow>
     race_step s (s\<lparr>rc_pcs := (rc_pcs s)[i := Registering], rc_open := insert i (rc_open s)\<rparr>)"
| listen_fails: "i < length (rc_pcs s) \<Longrightarrow> rc_pcs s ! i = Listening \<Longrightarrow>
     race_step s (s\<lparr>rc_pcs := (rc_pcs s)[i := Finished]\<rparr>)"
| register: "i < length (rc_pcs s) \<Longrightarrow> rc_pcs s ! i = Registering \<Longrightarrow>
     race_step s (s\<lparr>rc_pcs := (rc_pcs s)[i := Serving], rc_closers := rc_closers s @ [i]\<rparr>)"
| accept_closed: "i < length (rc_pcs s) \<Longrightarrow> rc_pcs s ! i = Serving \<Longrightarrow> i \<notin> rc_open s \<Longrightarrow> rc_stop s \<noteq> Idle \<Longrightarrow>
     race_step s (s\<lparr>rc_pcs := (rc_pcs s)[i := Finished]\<rparr>)"
| stop_cancel: "rc_stop s = Idle \<Longrightarrow> race_step s (s\<lparr>rc_stop := Cancelled\<rparr>)"
| stop_drain: "rc_stop s = Cancelled \<Longrightarrow>
     race_step s (s\<lparr>rc_open := rc_open s - set (rc_closers s), rc_closers := [], rc_stop := Waiting\<rparr>)"
| stop_wait: "rc_stop s = Waiting \<Longrightarrow> list_all (\<lambda>p. p = Finished) (rc_pcs s) \<Longrightarrow>
     race_step s (s\<lparr>rc_stop := Stopped\<rparr>)"

inductive_cases race_stepE: "race_step s s'"

inductive race_steps :: "race \<Rightarrow> race \<Rightarrow> bool" where
  refl [simp, intro]: "race_steps s s"
| step: "race_step s t \<Longrightarrow> race_steps t u \<Longrightarrow> race_steps s u"

lemma race_steps_trans: "race_steps a b \<Longrightarrow> race_steps b c \<Longrightarrow> race_steps a c"
  by (induction rule: race_steps.induct) (auto intro: race_steps.step)

definition race_stuck :: "race \<Rightarrow> bool" where
  "race_stuck s \<longleftrightarrow> (\<forall>t. \<not> race_step s t)"

definition started :: "nat \<Rightarrow> race" where
  "started n = \<lparr>rc_pcs = replicate n Listening, rc_open = {}, rc_closers = [], rc_stop = Idle\<rparr>"

text \<open>Every step is progress, so runs are bounded.\<close>

fun pc_rank :: "forward_pc \<Rightarrow> nat" where
  "pc_rank Listening = 3"
| "pc_rank Registering = 2"
| "pc_rank Serving = 1"
| "pc_rank Finished = 0"

fun stop_rank :: "stop_pc \<Rightarrow> nat" where
  "stop_rank Idle = 3"
| "stop_rank Cancelled = 2"
| "stop_rank Waiting = 1"
| "stop_rank Stopped = 0"

definition race_measure :: "race \<Rightarrow> nat" where
  "race_measure s = sum_list (map pc_rank (rc_pcs s)) + stop_rank (rc_stop s)"

lemma sum_list_update_less:
  "i < length xs \<Longrightarrow> f y < f (xs ! i) \<Longrightarrow> sum_list (map f (xs[i := y])) < sum_list (map (f :: 'a \<Rightarrow> nat) xs)"
proof (induction xs arbitrary: i)
  case (Cons x xs)
  then show ?case by (cases i) auto
qed simp

lemma race_step_measure: "race_step s t \<Longrightarrow> race_measure t < race_measure s"
  by (erule race_stepE) (simp_all add: race_measure_def sum_list_update_less)

lemma race_steps_end: "\<exists>t. race_steps s t \<and> race_stuck t"
proof (induction "race_measure s" arbitrary: s rule: less_induct)
  case less
  show ?case
  proof (cases "race_stuck s")
    case False
    then obtain t where t: "race_step s t" by (auto simp: race_stuck_def)
    with less [OF race_step_measure [OF t]] show ?thesis by (blast intro: race_steps.step)
  qed blast
qed

text \<open>
  While no goroutine is still starting: the served listeners are registered until the drain, and closed after it.
\<close>

definition all_serving :: "race \<Rightarrow> bool" where
  "all_serving s \<longleftrightarrow> (\<forall>i < length (rc_pcs s). rc_pcs s ! i = Serving \<or> rc_pcs s ! i = Finished) \<and>
     (\<forall>i < length (rc_pcs s). rc_pcs s ! i = Serving \<longrightarrow>
        (if rc_stop s = Idle \<or> rc_stop s = Cancelled then i \<in> set (rc_closers s) else i \<notin> rc_open s))"

lemma all_serving_step: "race_step s t \<Longrightarrow> all_serving s \<Longrightarrow> all_serving t"
  by (erule race_stepE) (auto simp: all_serving_def nth_list_update split: if_splits)

lemma all_serving_steps: "race_steps s t \<Longrightarrow> all_serving s \<Longrightarrow> all_serving t"
  by (induction rule: race_steps.induct) (auto dest: all_serving_step)

lemma all_serving_stuck:
  assumes "all_serving s" "race_stuck s"
  shows "rc_stop s = Stopped"
proof (cases "rc_stop s")
  case Idle
  then show ?thesis using stop_cancel assms(2) by (auto simp: race_stuck_def)
next
  case Cancelled
  then show ?thesis using stop_drain assms(2) by (auto simp: race_stuck_def)
next
  case Waiting
  show ?thesis
  proof (cases "list_all (\<lambda>p. p = Finished) (rc_pcs s)")
    case True
    then show ?thesis using stop_wait [OF Waiting] assms(2) by (auto simp: race_stuck_def)
  next
    case False
    then obtain i where i: "i < length (rc_pcs s)" "rc_pcs s ! i \<noteq> Finished"
      by (auto simp: list_all_length)
    then have "rc_pcs s ! i = Serving" "i \<notin> rc_open s"
      using assms(1) Waiting by (auto simp: all_serving_def)
    then show ?thesis using accept_closed [OF i(1)] Waiting assms(2) by (auto simp: race_stuck_def)
  qed
qed



text \<open>
  C20: a stop that comes before a forwarding goroutine has registered its listener can wait for ever: a run from the
  start of any number of goroutines, one at least, ends with the stop waiting for a goroutine that serves a
  listener nobody closes any more.
\<close>

theorem early_stop_can_hang:
  assumes "0 < n"
  shows "\<exists>t. race_steps (started n) t \<and> race_stuck t \<and> rc_stop t = Waiting \<and>
     (\<exists>i < n. rc_pcs t ! i = Serving \<and> i \<in> rc_open t \<and> i \<in> set (rc_closers t))"
proof -
  let ?w = "(started n)\<lparr>rc_stop := Waiting\<rparr>"
  have "race_steps (started n) ?w"
    using race_steps.step [OF stop_cancel [of "started n"] race_steps.step [OF stop_drain refl]] by (simp add: started_def)
  define at where "at k = ?w\<lparr>rc_pcs := replicate k Serving @ replicate (n - k) Listening, rc_open := {..<k}, rc_closers := [0..<k]\<rparr>" for k
  have one: "race_steps s (at (Suc k))" if "race_steps s (at k)" "k < n" for k s
  proof -
    let ?m = "(at k)\<lparr>rc_pcs := (rc_pcs (at k))[k := Registering], rc_open := insert k (rc_open (at k))\<rparr>"
    have k: "rc_pcs (at k) ! k = Listening" "k < length (rc_pcs (at k))"
      using that(2) by (simp_all add: at_def nth_append)
    have "race_step (at k) ?m" by (rule listen_ok [OF k(2,1)])
    moreover have "race_step ?m (?m\<lparr>rc_pcs := (rc_pcs ?m)[k := Serving], rc_closers := rc_closers ?m @ [k]\<rparr>)"
      by (rule register) (use k in simp_all)
    moreover have "?m\<lparr>rc_pcs := (rc_pcs ?m)[k := Serving], rc_closers := rc_closers ?m @ [k]\<rparr> = at (Suc k)"
    proof -
      have d: "n - k = Suc (n - Suc k)" using that(2) by simp
      have "(replicate k Serving @ replicate (n - k) Listening)[k := Serving] = replicate (Suc k) Serving @ replicate (n - Suc k) Listening"
        unfolding d by (simp add: list_update_append replicate_app_Cons_same)
      then show ?thesis by (simp add: at_def lessThan_Suc)
    qed
    ultimately have "race_steps (at k) (at (Suc k))" by (metis race_steps.step race_steps.refl)
    then show ?thesis using that(1) by (blast intro: race_steps_trans)
  qed
  have "at 0 = ?w" by (simp add: at_def started_def)
  then have "race_steps (started n) (at k)" if "k \<le> n" for k
    using that \<open>race_steps (started n) ?w\<close> by (induction k) (use one in auto)
  then have r: "race_steps (started n) (at n)" by simp
  have "race_stuck (at n)"
    unfolding race_stuck_def
  proof (intro allI notI)
    fix t assume "race_step (at n) t"
    then show False using assms by cases (auto simp: at_def list_all_iff)
  qed
  moreover have "rc_stop (at n) = Waiting" "rc_pcs (at n) ! 0 = Serving" "0 \<in> rc_open (at n)" "0 \<in> set (rc_closers (at n))"
    using assms by (simp_all add: at_def)
  ultimately show ?thesis using r assms by blast
qed

theorem early_stop_can_hang_witness:
  "\<exists>t. race_steps (started 1) t \<and> race_stuck t \<and> rc_stop t = Waiting"
  using early_stop_can_hang [of 1] by auto

end
