(* ===== verification/CloseRace.thy ===== *)
theory CloseRace
  imports NodeLife
begin

text \<open>
  \<open>Close\<close> against the goroutine of the low power manager (\<open>mod/yggstack/func.go\<close>): \<open>stopComponents\<close> gives
  \<open>componentsMu\<close> up while it waits for the component goroutines, and a start or another stop can run there. A
  call is a sequence of stages, each of them one section under the lock or one \<open>componentsWg.Wait\<close>; the stages
  of two calls interleave. A wait that cannot return yet is a stage that cannot be taken.
\<close>

subsection \<open>Stages\<close>

datatype stage =
    AtSignal | AtWait | AtTeardown                   \<comment> \<open>\<open>stopComponents\<close>\<close>
  | AtStart config_obj start_env                     \<comment> \<open>\<open>startComponents\<close>\<close>
  | AtFailWait start_error | AtFailClear start_error \<comment> \<open>its deferred function\<close>
  | Returned "start_error option"

definition fail_rollback :: "node \<Rightarrow> node option" where
  "fail_rollback n = map_option cancel_components (rollback_components (n\<lparr>nd_netstack := None\<rparr>))"

fun stage_step :: "stage \<Rightarrow> node \<Rightarrow> (stage \<times> node) option" where
  "stage_step AtSignal n = Some (AtWait, stop_signal n)"
| "stage_step AtWait n = map_option (Pair AtTeardown) (wait_components n)"
| "stage_step AtTeardown n = map_option (Pair (Returned None)) (stop_teardown n)"
| "stage_step (AtStart cfg env) n =
     (case init_all cfg env (new_generation cfg n) of
        (None, m) \<Rightarrow> Some (Returned None, m)
      | (Some e, m) \<Rightarrow> map_option (Pair (AtFailWait e)) (fail_rollback m))"
| "stage_step (AtFailWait e) n = map_option (Pair (AtFailClear e)) (wait_components n)"
| "stage_step (AtFailClear e) n = Some (Returned (Some e), n\<lparr>nd_ctx := None\<rparr>)"
| "stage_step (Returned r) n = None"

fun stages_left :: "stage \<Rightarrow> nat" where
  "stages_left AtSignal = 3"
| "stages_left AtWait = 2"
| "stages_left AtTeardown = 1"
| "stages_left (AtStart cfg env) = 3"
| "stages_left (AtFailWait e) = 2"
| "stages_left (AtFailClear e) = 1"
| "stages_left (Returned r) = 0"

lemma stage_step_less: "stage_step s n = Some (t, m) \<Longrightarrow> stages_left t < stages_left s"
  by (cases s) (auto split: prod.splits option.splits)

text \<open>A call that nothing interrupts; it has no result where a stage blocks for ever.\<close>

function run_alone :: "stage \<Rightarrow> node \<Rightarrow> (start_error option \<times> node) option" where
  "run_alone s n = (case stage_step s n of
       Some (t, m) \<Rightarrow> run_alone t m
     | None \<Rightarrow> (case s of Returned r \<Rightarrow> Some (r, n) | _ \<Rightarrow> None))"
  by auto
termination
  by (relation "measure (\<lambda>(s, n). stages_left s)") (auto dest: stage_step_less)

declare run_alone.simps [simp del]

lemma run_alone_simps [simp]:
  "run_alone AtSignal n = run_alone AtWait (stop_signal n)"
  "run_alone AtWait n = Option.bind (wait_components n) (run_alone AtTeardown)"
  "run_alone AtTeardown n = map_option (Pair None) (stop_teardown n)"
  "run_alone (AtFailWait e) n = map_option (\<lambda>m. (Some e, m\<lparr>nd_ctx := None\<rparr>)) (wait_components n)"
  "run_alone (Returned r) n = Some (r, n)"
proof -
  show r: "run_alone (Returned r) n = Some (r, n)" for r n by (subst run_alone.simps) simp
  show "run_alone AtSignal n = run_alone AtWait (stop_signal n)" by (subst run_alone.simps) simp
  show "run_alone AtWait n = Option.bind (wait_components n) (run_alone AtTeardown)"
    by (subst run_alone.simps) (simp split: option.split)
  show "run_alone AtTeardown n = map_option (Pair None) (stop_teardown n)"
    by (subst run_alone.simps) (simp add: r split: option.split)
  have c: "run_alone (AtFailClear e) m = Some (Some e, m\<lparr>nd_ctx := None\<rparr>)" for m
    by (subst run_alone.simps) (simp add: r)
  show "run_alone (AtFailWait e) n = map_option (\<lambda>m. (Some e, m\<lparr>nd_ctx := None\<rparr>)) (wait_components n)"
    by (subst run_alone.simps) (simp add: c split: option.split)
qed

lemma run_alone_stop: "run_alone AtSignal n = map_option (Pair None) (stop_components n)"
  by (cases "wait_components (stop_signal n)") (simp_all add: stop_components_def)

lemma run_alone_start: "run_alone (AtStart cfg env) n = start_components cfg env n"
proof -
  obtain r m where i: "init_all cfg env (new_generation cfg n) = (r, m)" by (cases "init_all cfg env (new_generation cfg n)")
  show ?thesis
  proof (cases r)
    case None
    with i show ?thesis by (subst run_alone.simps) (simp add: start_components_def)
  next
    case (Some e)
    show ?thesis
    proof (cases "rollback_components (m\<lparr>nd_netstack := None\<rparr>)")
      case None
      with i Some show ?thesis
        by (subst run_alone.simps) (simp add: start_components_def start_failed_def fail_rollback_def)
    next
      case k: (Some k)
      with i Some have "run_alone (AtStart cfg env) n = run_alone (AtFailWait e) (cancel_components k)"
        by (subst run_alone.simps) (simp add: fail_rollback_def)
      with i Some k show ?thesis
        by (cases "wait_components (cancel_components k)") (simp_all add: start_components_def start_failed_def)
    qed
  qed
qed

text \<open>Two calls: the state of the node and the stages they are at.\<close>

type_synonym two_calls = "node \<times> stage \<times> stage"

inductive calls_step :: "two_calls \<Rightarrow> two_calls \<Rightarrow> bool" where
  first: "stage_step a n = Some (a', m) \<Longrightarrow> calls_step (n, a, b) (m, a', b)"
| second: "stage_step b n = Some (b', m) \<Longrightarrow> calls_step (n, a, b) (m, a, b')"

inductive_cases calls_stepE: "calls_step (n, a, b) s"

abbreviation calls_run :: "two_calls \<Rightarrow> two_calls \<Rightarrow> bool" where
  "calls_run \<equiv> calls_step\<^sup>*\<^sup>*"

definition calls_stuck :: "two_calls \<Rightarrow> bool" where
  "calls_stuck s \<longleftrightarrow> (case s of (n, a, b) \<Rightarrow> stage_step a n = None \<and> stage_step b n = None)"

lemma calls_stuck_no_step: "calls_stuck s \<longleftrightarrow> (\<nexists>t. calls_step s t)"
proof -
  obtain n a b where s: "s = (n, a, b)" by (cases s)
  have "stage_step a n = None \<and> stage_step b n = None" if "\<nexists>t. calls_step s t"
    using that calls_step.intros [of _ n] unfolding s by (metis option.exhaust prod.exhaust)
  then show ?thesis by (auto simp: s calls_stuck_def elim!: calls_stepE)
qed

fun calls_left :: "two_calls \<Rightarrow> nat" where
  "calls_left (n, a, b) = stages_left a + stages_left b"

lemma calls_left_less: "calls_step s t \<Longrightarrow> calls_left t < calls_left s"
  by (induction rule: calls_step.induct) (auto dest: stage_step_less)

lemma calls_run_out: "calls_run s t \<Longrightarrow> calls_left t \<le> calls_left s"
  by (induction rule: rtranclp_induct) (auto dest: calls_left_less)

lemma calls_finish: "\<exists>t. calls_run s t \<and> calls_stuck t"
proof (induction "calls_left s" arbitrary: s rule: less_induct)
  case less
  show ?case
  proof (cases "calls_stuck s")
    case False
    then obtain t where t: "calls_step s t" using calls_stuck_no_step by blast
    from less(1) [OF calls_left_less [OF t]] t show ?thesis by (meson converse_rtranclp_into_rtranclp)
  qed blast
qed

text \<open>What \<open>Close\<close> does before \<open>stopComponents\<close>.\<close>

definition enter_close :: "node \<Rightarrow> node" where
  "enter_close n = n\<lparr>nd_close_once := True, nd_root_cancelled := True\<rparr>"

subsection \<open>Two stops at once\<close>

text \<open>Every goroutine the wait group counts has been told to end, and will.\<close>

definition quiet :: "node \<Rightarrow> bool" where
  "quiet n \<longleftrightarrow> list_all (goroutine_ends n) (nd_goroutines n)"

definition signalled :: "node \<Rightarrow> bool" where
  "signalled n \<longleftrightarrow> quiet n \<and> nd_socks n = None \<and> nd_closers n = []"

lemma goroutine_ends_mono:
  assumes "goroutine_ends n g" "nd_live m \<subseteq> nd_live n" "nd_cancelled n \<subseteq> nd_cancelled m"
    "nd_monitors_off n \<subseteq> nd_monitors_off m" "nd_root_cancelled n \<Longrightarrow> nd_root_cancelled m"
  shows "goroutine_ends m g"
  using assms by (cases g) (auto simp: ctx_done_def)

lemma quiet_mono:
  assumes "quiet n" "nd_live m \<subseteq> nd_live n" "nd_cancelled n \<subseteq> nd_cancelled m"
    "nd_monitors_off n \<subseteq> nd_monitors_off m" "nd_root_cancelled n \<Longrightarrow> nd_root_cancelled m"
    "set (nd_goroutines m) \<subseteq> set (nd_goroutines n)"
  shows "quiet m"
  using assms goroutine_ends_mono [OF _ assms(2-5)] by (auto simp: quiet_def list_all_iff)

lemma wait_eq: "wait_components n = (if quiet n then Some (n\<lparr>nd_goroutines := []\<rparr>) else None)"
  by (simp add: wait_components_def quiet_def)

lemma quiet_no_goroutines [simp]: "quiet (n\<lparr>nd_goroutines := []\<rparr>)"
  by (simp add: quiet_def)

lemma quiet_signal: "quiet n \<Longrightarrow> quiet (stop_signal n)"
  by (erule quiet_mono) (auto simp: stop_signal_eq)

lemma quiet_after_signal: "gors_ok n \<Longrightarrow> quiet (stop_signal n)"
proof -
  assume "gors_ok n"
  moreover have "nd_goroutines (stop_signal n) = nd_goroutines n" by (simp add: stop_signal_eq)
  ultimately show ?thesis by (auto simp: gors_ok_def quiet_def list_all_iff ends_after_signal)
qed

text \<open>What a stage of a stop leaves: the ledger and the rest of what the other call has established.\<close>

definition torn_down :: "node \<Rightarrow> node" where
  "torn_down n = n\<lparr>nd_live := nd_live n - opt_res KMulticast (nd_multicast n) - opt_res KAdmin (nd_admin n) -
       opt_res KCore (nd_core n) - opt_res KNetstack (nd_netstack n),
     nd_monitor := None, nd_monitors_off := nd_monitors_off n \<union> set_option (nd_monitor n),
     nd_multicast := None, nd_admin := None, nd_core := None, nd_netstack := None, nd_ctx := None\<rparr>"

lemma teardown_torn_down: "\<not> nd_hangs n \<Longrightarrow> stop_teardown n = Some (torn_down n)"
  by (subst teardown_eq) (simp_all add: stoppable_def torn_down_def)

lemma ledger_less:
  assumes "ledger L n" "nd_live m = nd_live n - R" "owned m = owned n - R" "R \<subseteq> owned n" "nd_next m = nd_next n"
  shows "ledger L m"
  using assms by (auto simp: ledger_def)

lemma ledger_signal: "ledger L n \<Longrightarrow> ledger L (stop_signal n)"
  by (rule ledger_less [where R = "opt_res KSocks (nd_socks n) \<union> Pair KForward ` set (nd_closers n)"])
     (auto simp: stop_signal_eq owned_def opt_res_mem)

lemma ledger_torn_down: "ledger L n \<Longrightarrow> ledger L (torn_down n)"
  by (rule ledger_less [where R = "opt_res KMulticast (nd_multicast n) \<union> opt_res KAdmin (nd_admin n) \<union>
        opt_res KCore (nd_core n) \<union> opt_res KNetstack (nd_netstack n)"])
     (auto simp: torn_down_def owned_def opt_res_mem)

lemma ledger_goroutines: "ledger L (n\<lparr>nd_goroutines := gs\<rparr>) = ledger L n"
  by (simp add: ledger_def owned_def)

fun stop_stage :: "stage \<Rightarrow> bool" where
  "stop_stage AtSignal = True"
| "stop_stage AtWait = True"
| "stop_stage AtTeardown = True"
| "stop_stage (Returned r) = (r = None)"
| "stop_stage _ = False"

text \<open>What holds of the node once a stop is at a stage.\<close>

fun stop_reached :: "stage \<Rightarrow> node \<Rightarrow> bool" where
  "stop_reached AtSignal n = True"
| "stop_reached AtWait n = signalled n"
| "stop_reached AtTeardown n = (signalled n \<and> nd_goroutines n = [])"
| "stop_reached (Returned r) n = (signalled n \<and> nd_goroutines n = [] \<and> cleared n \<and> nd_ctx n = None)"
| "stop_reached _ n = False"

lemma signalled_stages:
  "signalled n \<Longrightarrow> signalled (stop_signal n)" "signalled n \<Longrightarrow> signalled (n\<lparr>nd_goroutines := []\<rparr>)"
  "signalled n \<Longrightarrow> signalled (torn_down n)"
proof -
  show "signalled n \<Longrightarrow> signalled (stop_signal n)"
    using quiet_signal [of n] by (simp add: signalled_def) (simp add: stop_signal_eq)
  show "signalled n \<Longrightarrow> signalled (n\<lparr>nd_goroutines := []\<rparr>)" by (simp add: signalled_def)
  have "quiet n \<Longrightarrow> quiet (torn_down n)"
    by (erule quiet_mono) (auto simp: torn_down_def)
  then show "signalled n \<Longrightarrow> signalled (torn_down n)"
    by (simp add: signalled_def) (simp add: torn_down_def)
qed

lemma reached_stages:
  assumes "stop_reached s n"
  shows "stop_reached s (stop_signal n)" "stop_reached s (n\<lparr>nd_goroutines := []\<rparr>)" "stop_reached s (torn_down n)"
proof -
  have f: "nd_goroutines (stop_signal n) = nd_goroutines n" "cleared (stop_signal n) = (cleared n \<or> cleared (stop_signal n))"
    "nd_ctx (stop_signal n) = nd_ctx n" "nd_goroutines (torn_down n) = nd_goroutines n" "nd_ctx (torn_down n) = None"
    by (auto simp: stop_signal_eq torn_down_def cleared_def)
  have c: "cleared n \<Longrightarrow> cleared (torn_down n)" "cleared (n\<lparr>nd_goroutines := []\<rparr>) = cleared n"
    by (simp_all add: torn_down_def cleared_def)
  show "stop_reached s (stop_signal n)" using assms f signalled_stages(1) [of n] by (cases s) auto
  show "stop_reached s (n\<lparr>nd_goroutines := []\<rparr>)" using assms c(2) signalled_stages(2) [of n] by (cases s) auto
  show "stop_reached s (torn_down n)" using assms f c(1) signalled_stages(3) [of n] by (cases s) auto
qed

definition stop_race_inv :: "(res_kind \<times> nat) set \<Rightarrow> two_calls \<Rightarrow> bool" where
  "stop_race_inv L s \<longleftrightarrow> (case s of (n, a, b) \<Rightarrow> stop_stage a \<and> stop_stage b \<and> \<not> nd_hangs n \<and> ledger L n \<and>
     stop_reached a n \<and> stop_reached b n \<and> (a = AtSignal \<and> b = AtSignal \<longrightarrow> gors_ok n))"

lemma stop_race_inv_swap: "stop_race_inv L (n, a, b) \<Longrightarrow> stop_race_inv L (n, b, a)"
  by (auto simp: stop_race_inv_def)

lemma stop_race_step:
  assumes i: "stop_race_inv L (n, a, b)" and s: "stage_step a n = Some (a', m)"
  shows "stop_race_inv L (m, a', b)"
proof -
  have h: "\<not> nd_hangs n" "ledger L n" "stop_stage b" "stop_reached b n" using i by (simp_all add: stop_race_inv_def)
  consider "a = AtSignal" "m = stop_signal n" "a' = AtWait"
    | "a = AtWait" "m = n\<lparr>nd_goroutines := []\<rparr>" "a' = AtTeardown"
    | "a = AtTeardown" "m = torn_down n" "a' = Returned None"
    using i s h(1) by (cases a) (auto simp: stop_race_inv_def wait_eq teardown_torn_down split: if_splits)
  then show ?thesis
  proof cases
    case 1
    have "quiet m"
    proof (cases "b = AtSignal")
      case True
      then have "gors_ok n" using i 1 by (simp add: stop_race_inv_def)
      then show ?thesis by (simp add: 1 quiet_after_signal)
    next
      case False
      then have "quiet n" using h(3,4) by (cases b) (auto simp: signalled_def)
      then show ?thesis by (simp add: 1 quiet_signal)
    qed
    then have "signalled m" by (simp add: signalled_def 1) (simp add: stop_signal_eq)
    moreover have "\<not> nd_hangs m" using h(1) by (simp add: 1 stop_signal_eq)
    ultimately show ?thesis
      using h reached_stages(1) [OF h(4)] ledger_signal [OF h(2)] by (simp add: stop_race_inv_def 1)
  next
    case 2
    then have "signalled n" using i by (simp add: stop_race_inv_def)
    then show ?thesis
      using h reached_stages(2) [OF h(4)] signalled_stages(2) [of n] by (simp add: stop_race_inv_def 2 ledger_goroutines)
  next
    case 3
    then have "signalled n" "nd_goroutines n = []" using i by (simp_all add: stop_race_inv_def)
    moreover have "cleared m" "nd_ctx m = None" "nd_goroutines m = nd_goroutines n" "\<not> nd_hangs m"
      using h(1) \<open>signalled n\<close> by (simp_all add: 3 torn_down_def cleared_def signalled_def)
    ultimately show ?thesis
      using h reached_stages(3) [OF h(4)] signalled_stages(3) [of n] ledger_torn_down [OF h(2)]
      by (simp add: stop_race_inv_def 3)
  qed
qed

lemma stop_race_keeps: "calls_run s t \<Longrightarrow> stop_race_inv L s \<Longrightarrow> stop_race_inv L t"
proof (induction rule: rtranclp_induct)
  case (step t u)
  from step(2) step(3) [OF step(4)] show ?case
    by cases (use stop_race_step stop_race_inv_swap in blast)+
qed

lemma stop_race_stuck:
  assumes "stop_race_inv L (n, a, b)" "calls_stuck (n, a, b)"
  shows "a = Returned None \<and> b = Returned None"
proof -
  have "c = Returned None" if "stop_stage c" "stop_reached c n" "stage_step c n = None" for c
    using that assms(1) by (cases c) (auto simp: wait_eq teardown_torn_down signalled_def stop_race_inv_def)
  then show ?thesis using assms by (simp add: stop_race_inv_def calls_stuck_def)
qed

lemma gors_ok_enter: "gors_ok n \<Longrightarrow> gors_ok (enter_close n)"
proof -
  have "gor_ok (enter_close n) g = gor_ok n g" for g by (cases g) (simp_all add: enter_close_def)
  moreover have "nd_goroutines (enter_close n) = nd_goroutines n" by (simp add: enter_close_def)
  ultimately show "gors_ok n \<Longrightarrow> gors_ok (enter_close n)" by (simp add: gors_ok_def list_all_iff)
qed

lemma ledger_enter: "ledger L n \<Longrightarrow> ledger L (enter_close n)"
  by (simp add: ledger_def owned_def enter_close_def)

lemma stop_race_start:
  "up n \<Longrightarrow> ledger L n \<Longrightarrow> \<not> nd_hangs n \<Longrightarrow> stop_race_inv L (enter_close n, AtSignal, AtSignal)"
  using gors_ok_enter [of n] ledger_enter [of L n]
  by (simp add: stop_race_inv_def up_def) (simp add: enter_close_def)


subsection \<open>A stop against a start\<close>

definition serving :: "node \<Rightarrow> bool" where
  "serving n \<longleftrightarrow> (\<exists>l. nd_socks n = Some l \<and> (KSocks, l) \<in> nd_live n \<and> GSocksServe l \<in> set (nd_goroutines n))"

lemma serving_not_quiet: "serving n \<Longrightarrow> \<not> quiet n"
  by (auto simp: serving_def quiet_def list_all_iff intro!: bexI)

lemma start_forward_serves: "serving n \<Longrightarrow> serving (start_forward env k spec n)"
  by (auto simp: start_forward_def serving_def put_defs Let_def)

lemma fold_forward_serves: "serving n \<Longrightarrow> serving (fold (start_forward env k) specs n)"
  by (induction specs arbitrary: n) (auto intro: start_forward_serves)

lemma init_socks_serves:
  "init_socks cfg env n = (None, m) \<Longrightarrow> co_socks_addr cfg \<noteq> '''' \<Longrightarrow> serving m"
  by (auto simp: init_socks_def serving_def put_defs split: sum.splits)

lemma init_networking_serves:
  "init_networking cfg env n = (None, m) \<Longrightarrow> co_socks_addr cfg \<noteq> '''' \<Longrightarrow> serving m"
  by (auto simp: init_networking_def start_forwards_defs Let_def split: if_splits prod.splits option.splits
      intro!: fold_forward_serves init_socks_serves)

lemma init_all_serves: "init_all cfg env n = (None, m) \<Longrightarrow> co_socks_addr cfg \<noteq> '''' \<Longrightarrow> serving m"
  by (auto simp: init_all_def split: prod.splits option.splits intro: init_networking_serves)

text \<open>What a failing start leaves before it waits: fields that are nil, and goroutines that end.\<close>

definition emptied :: "node \<Rightarrow> bool" where
  "emptied n \<longleftrightarrow> \<not> nd_hangs n \<and> cleared n \<and> nd_closers n = [] \<and> quiet n \<and> (\<exists>L. ledger L n)"

lemma emptied_down: "emptied n \<Longrightarrow> nd_goroutines n = [] \<Longrightarrow> node_down n"
  by (auto simp: emptied_def node_down_def down_def stoppable_def)

lemma down_emptied: "node_down n \<Longrightarrow> \<not> nd_hangs n \<Longrightarrow> emptied n"
  by (auto simp: emptied_def node_down_def down_def quiet_def)

lemma emptied_stages:
  assumes "emptied n"
  shows "emptied (stop_signal n)" "emptied (n\<lparr>nd_goroutines := []\<rparr>)" "emptied (torn_down n)" "emptied (n\<lparr>nd_ctx := None\<rparr>)"
proof -
  obtain L where n: "\<not> nd_hangs n" "cleared n" "nd_closers n = []" "quiet n" "ledger L n"
    using assms by (auto simp: emptied_def)
  have "signalled n" using n by (simp add: signalled_def cleared_def)
  then have s: "quiet (stop_signal n)" "quiet (torn_down n)"
    using signalled_stages [of n] by (simp_all add: signalled_def)
  have q: "quiet (n\<lparr>nd_ctx := None\<rparr>)" by (rule quiet_mono [OF n(4)]) simp_all
  have l: "ledger L (n\<lparr>nd_ctx := None\<rparr>)" using n(5) by (simp add: ledger_def owned_def)
  show "emptied (stop_signal n)"
    using n s(1) ledger_signal [OF n(5)] by (auto simp: emptied_def) (simp_all add: stop_signal_eq cleared_def)
  show "emptied (n\<lparr>nd_goroutines := []\<rparr>)"
    using n by (auto simp: emptied_def cleared_def ledger_goroutines)
  show "emptied (torn_down n)"
    using n s(2) ledger_torn_down [OF n(5)] by (auto simp: emptied_def) (simp_all add: torn_down_def cleared_def)
  show "emptied (n\<lparr>nd_ctx := None\<rparr>)" using n q l by (auto simp: emptied_def cleared_def)
qed

lemma fail_rollback_spec:
  assumes s: "sound L n" "nd_closers n = []" "nd_socks n = None" and h: "\<not> nd_hangs n"
  shows "\<exists>k. fail_rollback n = Some k \<and> emptied k"
proof -
  obtain m K where m: "start_failed n = Some m" "down m" "ledger K m" "same_frame n m"
    by (rule start_failed_spec [OF s]) blast
  then obtain k where k: "fail_rollback n = Some k" "quiet k" "m = k\<lparr>nd_goroutines := [], nd_ctx := None\<rparr>"
    by (auto simp: start_failed_def fail_rollback_def wait_eq bind_eq_Some_conv split: if_splits)
  have "cleared k" "nd_closers k = []" "ledger K k" "\<not> nd_hangs k"
    using m h by (auto simp: k(3) down_def cleared_def ledger_def owned_def same_frame_def)
  then show ?thesis using k(1,2) by (auto simp: emptied_def)
qed

text \<open>A start step of a node that is down.\<close>

lemma start_stage:
  assumes "node_down n" "\<not> nd_hangs n" "stage_step (AtStart cfg env) n = Some (b, m)"
  shows "(\<exists>e. b = AtFailWait e \<and> emptied m) \<or>
     (b = Returned None \<and> start_components cfg env n = Some (None, m) \<and> node_up m \<and> same_frame n m)"
proof -
  obtain L where n: "down n" "ledger L n" using assms(1) by (auto simp: node_down_def)
  let ?g = "new_generation cfg n"
  obtain r x where i: "init_all cfg env ?g = (r, x)" by (cases "init_all cfg env ?g")
  note g = new_generation_ok [OF n, of cfg]
  have ini: "initialised L ?g r x" using g by (intro init_all_spec [OF _ _ _ _ i]) auto
  have fr: "same_frame n x" using g ini by (auto simp: initialised_def same_part_def same_frame_def)
  show ?thesis
  proof (cases r)
    case None
    then have b: "b = Returned None" "m = x" "start_components cfg env n = Some (None, x)"
      using assms(3) i by (simp_all add: start_components_def)
    then have "node_up m" using down_start_node [OF assms(1), of cfg env] by simp
    with b fr show ?thesis by simp
  next
    case (Some e)
    have "sound L x" "nd_closers x = []" "nd_socks x = None" "\<not> nd_hangs x"
      using ini Some fr assms(2) by (simp_all add: initialised_def same_frame_def)
    from fail_rollback_spec [OF this] show ?thesis using assms(3) i Some by auto
  qed
qed

lemma init_started: "start_components cfg env n = Some (None, m) \<Longrightarrow> init_all cfg env (new_generation cfg n) = (None, m)"
  by (auto simp: start_components_def bind_eq_Some_conv split: prod.splits option.splits)

text \<open>
  The outcomes of the start: the stop came later and works on a running node, or the stop was past its signal
  and meets a node it has not told to stop.
\<close>

definition overtaken :: "stage \<Rightarrow> node \<Rightarrow> bool" where
  "overtaken a n \<longleftrightarrow> serving n \<and> (a \<in> {AtWait, AtTeardown, Returned None} \<and> node_up n \<or>
     a = Returned None \<and> nd_core n = None \<and> nd_netstack n = None)"

definition wake_race_inv :: "(res_kind \<times> nat) set \<Rightarrow> config_obj \<Rightarrow> two_calls \<Rightarrow> bool" where
  "wake_race_inv L cfg s \<longleftrightarrow> (case s of (n, a, b) \<Rightarrow> stop_stage a \<and> \<not> nd_hangs n \<and> (case b of
       AtStart c env \<Rightarrow> c = cfg \<and> node_down n \<and> nd_live n = L
     | AtFailWait e \<Rightarrow> emptied n
     | AtFailClear e \<Rightarrow> emptied n \<and> nd_goroutines n = []
     | Returned None \<Rightarrow> stop_race_inv L (n, a, AtSignal) \<or> overtaken a n
     | Returned (Some e) \<Rightarrow> node_down n
     | _ \<Rightarrow> False))"

lemma down_live: "node_down n \<Longrightarrow> ledger (nd_live n) n"
  using ledger_down_live by (auto simp: node_down_def)

lemma signal_down:
  assumes "node_down n" "\<not> nd_hangs n"
  shows "node_down (stop_signal n)" "node_down (n\<lparr>nd_goroutines := []\<rparr>)" "node_down (torn_down n)"
    "nd_live (stop_signal n) = nd_live n" "nd_live (torn_down n) = nd_live n"
proof -
  have g: "nd_goroutines n = []" "cleared n" "nd_closers n = []"
    using assms(1) by (auto simp: node_down_def down_def)
  have e: "emptied n" by (rule down_emptied [OF assms])
  show "node_down (stop_signal n)"
    using emptied_down [OF emptied_stages(1) [OF e]] g by (simp add: stop_signal_eq)
  show "node_down (n\<lparr>nd_goroutines := []\<rparr>)" using emptied_down [OF emptied_stages(2) [OF e]] by simp
  show "node_down (torn_down n)"
    using emptied_down [OF emptied_stages(3) [OF e]] g by (simp add: torn_down_def)
  show "nd_live (stop_signal n) = nd_live n" "nd_live (torn_down n) = nd_live n"
    using g by (simp_all add: stop_signal_eq torn_down_def cleared_def)
qed

lemma stop_stage_cases:
  assumes "stop_stage a" "\<not> nd_hangs n" "stage_step a n = Some (a', m)"
  obtains "a = AtSignal" "m = stop_signal n" "a' = AtWait"
    | "a = AtWait" "m = n\<lparr>nd_goroutines := []\<rparr>" "a' = AtTeardown" "quiet n"
    | "a = AtTeardown" "m = torn_down n" "a' = Returned None"
  using assms by (cases a) (auto simp: wait_eq teardown_torn_down split: if_splits)

lemma node_down_hangs: "nd_hangs (stop_signal n) = nd_hangs n" "nd_hangs (torn_down n) = nd_hangs n"
  by (simp_all add: stop_signal_eq torn_down_def)

lemma overtaken_torn_down: "overtaken AtTeardown n \<Longrightarrow> overtaken (Returned None) (torn_down n)"
  by (auto simp: overtaken_def serving_def torn_down_def opt_res_mem)

lemma wake_race_stop_step:
  assumes i: "wake_race_inv L cfg (n, a, b)" and s: "stage_step a n = Some (a', m)"
  shows "wake_race_inv L cfg (m, a', b)"
proof -
  have h: "\<not> nd_hangs n" "stop_stage a" using i by (simp_all add: wake_race_inv_def)
  have k: "stop_stage a'" "\<not> nd_hangs m"
    using s by (rule stop_stage_cases [OF h(2,1)]; simp add: node_down_hangs h)+
  have down: "node_down m \<and> nd_live m = nd_live n" if "node_down n"
    using s by (rule stop_stage_cases [OF h(2,1)]) (use signal_down [OF that h(1)] in simp_all)
  have empty: "emptied m" if "emptied n"
    using s by (rule stop_stage_cases [OF h(2,1)]) (use emptied_stages [OF that] in simp_all)
  have gor: "nd_goroutines m = []" if "nd_goroutines n = []"
    using s by (rule stop_stage_cases [OF h(2,1)]) (use that in \<open>simp_all add: stop_signal_eq torn_down_def\<close>)
  show ?thesis
  proof (cases "b = Returned None")
    case True
    then consider (ordered) "stop_race_inv L (n, a, AtSignal)" | (overtaken) "overtaken a n"
      using i by (auto simp: wake_race_inv_def)
    then show ?thesis
    proof cases
      case ordered
      from stop_race_step [OF this s] show ?thesis using True k by (simp add: wake_race_inv_def)
    next
      case overtaken
      have "overtaken a' m"
        using s by (rule stop_stage_cases [OF h(2,1)])
          (use overtaken serving_not_quiet overtaken_torn_down in \<open>auto simp: overtaken_def\<close>)
      then show ?thesis using True k by (simp add: wake_race_inv_def)
    qed
  next
    case False
    then show ?thesis
      using i k down empty gor by (auto simp: wake_race_inv_def split: stage.splits option.splits)
  qed
qed

lemma wake_race_start_step:
  assumes i: "wake_race_inv L cfg (n, a, b)" and s: "stage_step b n = Some (b', m)" and addr: "co_socks_addr cfg \<noteq> ''''"
  shows "wake_race_inv L cfg (m, a, b')"
proof (cases b)
  case (AtStart c env)
  then have n: "stop_stage a" "\<not> nd_hangs n" "c = cfg" "node_down n" "nd_live n = L"
    using i by (simp_all add: wake_race_inv_def)
  from start_stage [OF n(4,2) s [unfolded AtStart]] n(3) consider (fails) e where "b' = AtFailWait e" "emptied m"
    | (starts) "b' = Returned None" "start_components cfg env n = Some (None, m)" "node_up m" "same_frame n m" by auto
  then show ?thesis
  proof cases
    case fails
    then show ?thesis using n by (simp add: wake_race_inv_def emptied_def)
  next
    case starts
    have "down n" "ledger L n" using n(4,5) down_live [of n] by (simp_all add: node_down_def)
    then have m: "up m" "ledger L m"
      by (rule start_spec [of n L cfg env]; use starts(2) in simp)+
    have h: "\<not> nd_hangs m" using n(2) starts(4) by (simp add: same_frame_def)
    have "stop_race_inv L (m, AtSignal, AtSignal)" using m h by (simp add: stop_race_inv_def up_def)
    moreover have "serving m" by (rule init_all_serves [OF init_started [OF starts(2)] addr])
    then have "a \<noteq> AtSignal \<Longrightarrow> overtaken a m" using starts(3) n(1) by (cases a) (auto simp: overtaken_def)
    ultimately show ?thesis using starts(1) n(1) h by (cases "a = AtSignal") (simp_all add: wake_race_inv_def)
  qed
next
  case (AtFailWait e)
  then have e: "stop_stage a" "emptied n" "b' = AtFailClear e" "m = n\<lparr>nd_goroutines := []\<rparr>"
    using i s by (auto simp: wake_race_inv_def wait_eq split: if_splits)
  have "emptied m" using emptied_stages(2) [OF e(2)] by (simp add: e)
  then show ?thesis using e by (simp add: wake_race_inv_def emptied_def)
next
  case (AtFailClear e)
  then have e: "stop_stage a" "emptied n" "nd_goroutines n = []" "b' = Returned (Some e)" "m = n\<lparr>nd_ctx := None\<rparr>"
    using i s by (auto simp: wake_race_inv_def)
  have "emptied m" using emptied_stages(4) [OF e(2)] by (simp add: e)
  then have "node_down m" by (rule emptied_down) (simp add: e)
  then show ?thesis using e \<open>emptied m\<close> by (simp add: wake_race_inv_def emptied_def)
qed (use i s in \<open>auto simp: wake_race_inv_def\<close>)

lemma wake_race_keeps:
  "calls_run s t \<Longrightarrow> wake_race_inv L cfg s \<Longrightarrow> co_socks_addr cfg \<noteq> '''' \<Longrightarrow> wake_race_inv L cfg t"
proof (induction rule: rtranclp_induct)
  case (step t u)
  have "wake_race_inv L cfg t" using step by blast
  from step(2) this step(5) show ?case
    by cases (use wake_race_stop_step wake_race_start_step in blast)+
qed

lemma node_down_enter: "node_down n \<Longrightarrow> node_down (enter_close n)"
  unfolding node_down_def using ledger_enter by (auto simp: down_def cleared_def enter_close_def stoppable_def)

lemma wake_race_start:
  "node_down n \<Longrightarrow> \<not> nd_hangs n \<Longrightarrow> wake_race_inv (nd_live n) cfg (enter_close n, AtSignal, AtStart cfg env)"
  using node_down_enter [of n] by (simp add: wake_race_inv_def) (simp add: enter_close_def)

lemma wake_race_start_moves:
  assumes "wake_race_inv L cfg (n, a, b)" "stage_step b n = None"
  shows "\<exists>r. b = Returned r"
proof (cases b)
  case (AtStart c env)
  then have n: "node_down n" using assms(1) by (simp add: wake_race_inv_def)
  obtain e x where x: "start_components c env n = Some (e, x)" using down_start_node [OF n, of c env] by blast
  then show ?thesis
    using assms(2) AtStart
    by (auto simp: start_components_def start_failed_def fail_rollback_def bind_eq_Some_conv split: prod.splits option.splits)
qed (use assms in \<open>auto simp: wake_race_inv_def wait_eq emptied_def\<close>)

text \<open>
  C15: what \<open>Close\<close> makes of a sleeping node that a wake request is starting, when neither call can go on: the
  start failed and the node is down; or all is released; or the node is up and \<open>Close\<close> waits for ever for
  goroutines whose listeners nobody closes; or \<open>Close\<close> returned, the core and the netstack are gone and the
  SOCKS listener is still served; or \<open>Close\<close> returned and the node is up.
\<close>

theorem close_races_wake:
  assumes "node_down n" "\<not> nd_hangs n" "co_socks_addr cfg \<noteq> ''''"
    "calls_run (enter_close n, AtSignal, AtStart cfg env) (m, a, b)" "calls_stuck (m, a, b)"
  shows "(a = Returned None \<and> b \<noteq> Returned None \<and> node_down m) \<or>
     b = Returned None \<and>
       (a = Returned None \<and> cleared m \<and> nd_live m = nd_live n \<or>
        a = AtWait \<and> node_up m \<and> serving m \<or>
        a = Returned None \<and> nd_core m = None \<and> nd_netstack m = None \<and> serving m \<or>
        a = Returned None \<and> node_up m \<and> serving m)"
proof -
  have i: "wake_race_inv (nd_live n) cfg (m, a, b)"
    by (rule wake_race_keeps [OF assms(4) wake_race_start [OF assms(1,2)] assms(3)])
  have s: "stage_step a m = None" "stage_step b m = None" using assms(5) by (simp_all add: calls_stuck_def)
  have h: "\<not> nd_hangs m" "stop_stage a" using i by (simp_all add: wake_race_inv_def)
  have a: "a = Returned None \<or> a = AtWait \<and> \<not> quiet m"
    using h s(1) by (cases a) (auto simp: wait_eq teardown_torn_down split: if_splits)
  obtain r where r: "b = Returned r" using wake_race_start_moves [OF i s(2)] by blast
  show ?thesis
  proof (cases r)
    case (Some e)
    then have d: "node_down m" using i r by (simp add: wake_race_inv_def)
    then have "quiet m" by (auto simp: node_down_def down_def quiet_def)
    then show ?thesis using a d r Some by simp
  next
    case None
    then consider (ordered) "stop_race_inv (nd_live n) (m, a, AtSignal)" | (overtaken) "overtaken a m"
      using i r by (auto simp: wake_race_inv_def)
    then show ?thesis
    proof cases
      case ordered
      then have "a = Returned None" using a by (auto simp: stop_race_inv_def signalled_def)
      then have "cleared m" "nd_closers m = []" "ledger (nd_live n) m"
        using ordered by (simp_all add: stop_race_inv_def signalled_def)
      then have "nd_live m = nd_live n" using owned_cleared [of m] by (simp add: ledger_def)
      then show ?thesis using \<open>a = Returned None\<close> \<open>cleared m\<close> r None by simp
    next
      case overtaken
      then show ?thesis using r None a by (auto simp: overtaken_def)
    qed
  qed
qed

text \<open>
  where the start runs between the two locked sections of \<open>Close\<close>, \<open>Close\<close> fails. If it comes before the
  wait, \<open>Close\<close> never returns, because the new listeners are not among those it closed, and the node goes on
  serving. If it comes after the wait, \<open>Close\<close> returns, the core is stopped, and the SOCKS listener stays open
  and served.
\<close>

theorem late_wake_breaks_close:
  assumes "node_down n" "\<not> nd_hangs n" "co_socks_addr cfg \<noteq> ''''"
    "start_components cfg env (stop_signal (enter_close n)) = Some (None, x)"
  shows "calls_run (enter_close n, AtSignal, AtStart cfg env) (x, AtWait, Returned None) \<and> calls_stuck (x, AtWait, Returned None) \<and>
     nd_core x \<noteq> None \<and> serving x \<and>
     calls_run (enter_close n, AtSignal, AtStart cfg env) (torn_down x, Returned None, Returned None) \<and>
     nd_core (torn_down x) = None \<and> serving (torn_down x)"
proof -
  let ?n = "enter_close n" and ?s = "AtStart cfg env"
  let ?k = "stop_signal ?n"
  have n: "node_down ?n" "\<not> nd_hangs ?n" using node_down_enter [OF assms(1)] assms(2) by (simp_all add: enter_close_def)
  note k = signal_down [OF n] node_down_hangs(1) [of ?n]
  have "nd_goroutines ?k = []" using k(1) by (simp add: node_down_def down_def)
  then have w: "wait_components ?k = Some ?k" by (simp add: wait_components_def)
  have i: "init_all cfg env (new_generation cfg ?k) = (None, x)" by (rule init_started [OF assms(4)])
  have v: "serving x" by (rule init_all_serves [OF i assms(3)])
  have u: "node_up x" using down_start_node [OF k(1), of cfg env] assms(4) by simp
  have st: "stage_step ?s ?k = Some (Returned None, x)" using i by simp
  have h: "\<not> nd_hangs x" using start_stage [OF k(1) _ st] k(6) n(2) by (auto simp: same_frame_def)
  have 1: "calls_step (?n, AtSignal, ?s) (?k, AtWait, ?s)" by (rule first) simp
  have 2: "calls_step (?k, AtWait, ?s) (x, AtWait, Returned None)" by (rule second) (rule st)
  have 3: "calls_step (?k, AtWait, ?s) (?k, AtTeardown, ?s)" by (rule first) (simp add: w)
  have 4: "calls_step (?k, AtTeardown, ?s) (x, AtTeardown, Returned None)" by (rule second) (rule st)
  have 5: "calls_step (x, AtTeardown, Returned None) (torn_down x, Returned None, Returned None)"
    by (rule first) (simp add: teardown_torn_down h)
  have "overtaken (Returned None) (torn_down x)"
    by (rule overtaken_torn_down) (simp add: overtaken_def u v)
  moreover have "nd_core (torn_down x) = None" by (simp add: torn_down_def)
  moreover have "calls_stuck (x, AtWait, Returned None)" using serving_not_quiet [OF v] by (simp add: calls_stuck_def wait_eq)
  ultimately show ?thesis
    using 1 2 3 4 5 u v by (auto simp: overtaken_def node_up_def up_def intro: converse_rtranclp_into_rtranclp)
qed

lemma demo_late_start:
  "\<exists>x. start_components demo_config (demo_env True) (stop_signal (enter_close demo_down)) = Some (None, x)"
  by (simp add: enter_close_def demo_down_def demo_up_def node_eval demo_defs)

theorem late_wake_breaks_close_witness:
  "\<exists>x. calls_run (enter_close demo_down, AtSignal, AtStart demo_config (demo_env True)) (x, AtWait, Returned None) \<and>
     calls_stuck (x, AtWait, Returned None)"
proof -
  obtain x where x: "start_components demo_config (demo_env True) (stop_signal (enter_close demo_down)) = Some (None, x)"
    using demo_late_start by blast
  have "co_socks_addr demo_config \<noteq> ''''" by (simp add: demo_config_def)
  from late_wake_breaks_close [OF demo_down_ok(1,3) this x] show ?thesis by blast
qed

theorem close_races_wake_witness:
  "\<exists>m. calls_stuck (m, AtWait, Returned None) \<and> node_up m \<and> serving m"
proof -
  obtain x where x: "start_components demo_config (demo_env True) (stop_signal (enter_close demo_down)) = Some (None, x)"
    using demo_late_start by blast
  have c: "co_socks_addr demo_config \<noteq> ''''" by (simp add: demo_config_def)
  let ?n = "enter_close demo_down" and ?s = "AtStart demo_config (demo_env True)"
  have 1: "calls_step (?n, AtSignal, ?s) (stop_signal ?n, AtWait, ?s)" by (rule first) simp
  have 2: "calls_step (stop_signal ?n, AtWait, ?s) (x, AtWait, Returned None)"
    by (rule second) (use init_started [OF x] in simp)
  have r: "calls_run (?n, AtSignal, ?s) (x, AtWait, Returned None)" using 1 2 by (meson r_into_rtranclp rtranclp.rtrancl_into_rtrancl)
  have "serving x" by (rule init_all_serves [OF init_started [OF x] c])
  then have "calls_stuck (x, AtWait, Returned None)" using serving_not_quiet [of x] by (simp add: calls_stuck_def wait_eq)
  with close_races_wake [OF demo_down_ok(1,3) c r] show ?thesis by auto
qed


subsection \<open>The manager's own listener\<close>

lemma stop_race_once:
  "calls_run s t \<Longrightarrow> stop_race_inv L s \<Longrightarrow> nd_close_once (fst t) = nd_close_once (fst s)"
proof (induction rule: rtranclp_induct)
  case (step t u)
  have f: "nd_close_once m = nd_close_once n" if "stop_stage a" "\<not> nd_hangs n" "stage_step a n = Some (a', m)" for a a' m n
    using that(3) by (rule stop_stage_cases [OF that(1,2)]) (simp_all add: stop_signal_eq torn_down_def)
  have "stop_race_inv L t" using stop_race_keeps step by blast
  with step(2) have "nd_close_once (fst u) = nd_close_once (fst t)"
    by cases (auto simp: stop_race_inv_def dest!: f)
  then show ?case using step by simp
qed simp

text \<open>
  a node closed while it falls asleep keeps its wake listener: \<open>Close\<close> has stopped the manager before the
  manager opens the listener, \<open>Run\<close> then returns without closing it, and no further \<open>Close\<close> does anything. The
  SOCKS address stays taken.
\<close>

theorem close_during_sleep_leaks_wake_listener:
  assumes "lm_state m = FullPower" "node_up (lm_node m)" "\<not> nd_hangs (lm_node m)" "nd_socks_addr (lm_node m) \<noteq> ''''"
    "calls_run (enter_close (lm_node m), AtSignal, AtSignal) (k, Returned None, Returned None)" "sv_listen sv"
  shows "\<exists>m'. finish_sleep node_control_obj now sv (nd_socks_addr (lm_node m))
       ((stop_manager (begin_sleep m))\<lparr>lm_node := k\<rparr>) = Some m' \<and>
     run_manager node_control_obj (DoneEvent # evs) m' = Some m' \<and>
     lm_listener m' = Some (nd_socks_addr (lm_node m)) \<and> cleared (lm_node m') \<and> close_node (lm_node m') = Some (lm_node m')"
proof -
  let ?n = "enter_close (lm_node m)"
  obtain L where n: "up (lm_node m)" "ledger L (lm_node m)" using assms(2) by (auto simp: node_up_def)
  note i = stop_race_start [OF n assms(3)]
  have "nd_close_once k" using stop_race_once [OF assms(5) i] by (simp add: enter_close_def)
  moreover have "cleared k" using stop_race_keeps [OF assms(5) i] by (simp add: stop_race_inv_def)
  ultimately show ?thesis
    using assms(4,6) by (simp add: sleep_defs lm_updates close_node_def)
qed

theorem close_during_sleep_leaks_wake_listener_witness:
  "\<exists>m' :: (node, config_obj) manager. lm_listener m' = Some '':1080'' \<and> cleared (lm_node m') \<and> close_node (lm_node m') = Some (lm_node m')"
proof -
  let ?m = "demo_manager"
  have m: "lm_node ?m = demo_up" "lm_state ?m = FullPower"
    by (simp_all add: demo_manager_def new_low_power_def set_orig_config_def new_manager_def new_defaults_def demo_config_def)
  have a: "nd_socks_addr demo_up = '':1080''"
    by (simp add: demo_up_def node_eval demo_defs)
  obtain k a' b where k: "calls_run (enter_close demo_up, AtSignal, AtSignal) (k, a', b)" "calls_stuck (k, a', b)"
    using calls_finish [of "(enter_close demo_up, AtSignal, AtSignal)"] by (metis prod_cases3)
  have "a' = Returned None" "b = Returned None"
    using stop_race_stuck [OF stop_race_keeps [OF k(1) stop_race_start] k(2)] demo_up_ok by (auto simp: node_up_def)
  with k(1) have r: "calls_run (enter_close (lm_node ?m), AtSignal, AtSignal) (k, Returned None, Returned None)" by (simp add: m)
  have h: "node_up (lm_node ?m)" "\<not> nd_hangs (lm_node ?m)" "nd_socks_addr (lm_node ?m) \<noteq> ''''" "sv_listen (demo_sleep_env True False)"
    using demo_up_ok by (simp_all add: m a demo_sleep_env_def)
  from close_during_sleep_leaks_wake_listener [OF m(2) h(1-3) r h(4), of 0 "[]"] show ?thesis
    unfolding m(1) a by blast
qed

subsection \<open>A wake request that outlives the stop\<close>

lemma close_down:
  assumes "node_down n" "\<not> nd_close_once n" "close_node n = Some k"
  shows "node_down k \<and> nd_close_once k"
proof -
  obtain L where "down n" "ledger L n" using assms(1) by (auto simp: node_down_def)
  then have n: "stoppable (enter_close n)" "gors_ok (enter_close n)" "ledger L (enter_close n)"
    by (simp_all add: down_def gors_ok_def ledger_enter) (simp_all add: enter_close_def)
  have k: "k = stopped (enter_close n)"
    using assms(2,3) stop_spec [OF n(1,2)] by (simp add: close_node_def enter_close_def)
  then have "node_down k"
    using stopped_down [OF n(1)] ledger_stopped [OF n(3)] by (auto simp: node_down_def)
  moreover have "nd_close_once k" by (simp add: k stopped_def enter_close_def)
  ultimately show ?thesis by simp
qed

text \<open>
  \<open>Run\<close> may still serve a wake request that was pending when \<open>Close\<close> stopped the manager, because
  \<open>select\<close> need not prefer the cancelled context. Then \<open>Run\<close> starts the closed node and returns, the node runs,
  and no further \<open>Close\<close> stops it.
\<close>

theorem pending_wake_restarts_closed_node:
  assumes "node_down (lm_node m)" "\<not> nd_close_once (lm_node m)" "lm_state m = LowPower" "lm_wake m" "lm_orig m = Some cfg"
    "close_node (lm_node m) = Some k" "start_components cfg (we_start env) k = Some (None, x)"
  shows "run_manager node_control_obj (WakeEvent env # DoneEvent # evs) ((stop_manager m)\<lparr>lm_node := k\<rparr>) =
       Some (m\<lparr>lm_node := x, lm_state := FullPower, lm_wake := False, lm_cancelled := True, lm_listener := None,
               lm_last := we_now env\<rparr>) \<and>
     node_up x \<and> close_node x = Some x"
proof -
  have k: "node_down k" "nd_close_once k" using close_down [OF assms(1,2,6)] by simp_all
  have u: "node_up x" using down_start_node [OF k(1), of cfg "we_start env"] assms(7) by simp
  obtain K where "down k" "ledger K k" using k(1) by (auto simp: node_down_def)
  then have "same_frame k x"
    by (rule start_spec [of k K cfg "we_start env"]) (use assms(7) in auto)
  then have "close_node x = Some x" using k(2) by (simp add: same_frame_def close_node_def)
  moreover have "run_manager node_control_obj (WakeEvent env # DoneEvent # evs) ((stop_manager m)\<lparr>lm_node := k\<rparr>) =
       Some (m\<lparr>lm_node := x, lm_state := FullPower, lm_wake := False, lm_cancelled := True, lm_listener := None,
               lm_last := we_now env\<rparr>)"
    using assms(3-5,7) by (simp add: run_turn_def do_transition_to_full_power_def begin_wake_def finish_wake_def lm_updates
        node_control_obj_def start_for_manager_def)
  ultimately show ?thesis using u by simp
qed

theorem pending_wake_restarts_closed_node_witness:
  "\<exists>m' x. run_manager node_control_obj [WakeEvent (demo_wake_env True), DoneEvent]
     ((stop_manager (demo_manager\<lparr>lm_node := demo_down, lm_state := LowPower, lm_wake := True\<rparr>))\<lparr>lm_node :=
        stopped (enter_close demo_down)\<rparr>) = Some m' \<and> lm_node m' = x \<and> node_up x \<and> close_node x = Some x"
proof -
  let ?m = "demo_manager\<lparr>lm_node := demo_down, lm_state := LowPower, lm_wake := True\<rparr>"
  let ?k = "stopped (enter_close demo_down)"
  have once: "\<not> nd_close_once demo_down"
    by (simp add: demo_down_def demo_up_def node_eval demo_defs)
  have nd: "stoppable (enter_close demo_down)" "nd_goroutines (enter_close demo_down) = []"
    using demo_down_ok(1) by (simp_all add: node_down_def down_def enter_close_def)
  then have k: "close_node demo_down = Some ?k"
    using once stop_spec [of "enter_close demo_down"] by (simp add: close_node_def gors_ok_def enter_close_def)
  have "\<exists>x. start_components (new_defaults demo_config) (demo_env True) ?k = Some (None, x)"
    by (simp add: stopped_def enter_close_def demo_down_def demo_up_def node_eval demo_defs)
  then obtain x where x: "start_components (new_defaults demo_config) (we_start (demo_wake_env True)) ?k = Some (None, x)"
    by (auto simp: demo_wake_env_def)
  have "node_down (lm_node ?m)" "\<not> nd_close_once (lm_node ?m)" "lm_state ?m = LowPower" "lm_wake ?m"
    "lm_orig ?m = Some (new_defaults demo_config)" "close_node (lm_node ?m) = Some ?k"
    using demo_down_ok(1) once k
    by (simp_all add: demo_manager_def new_low_power_def set_orig_config_def new_defaults_def demo_config_def)
  from pending_wake_restarts_closed_node [OF this x, of "[]"] show ?thesis by simp
qed

subsection \<open>The goroutine of the peer monitor\<close>

text \<open>
  The goroutine that runs the peer monitor reads the field \<open>peerMonitor\<close> when it is first scheduled, not when it
  is started; on a nil interface the call panics.
\<close>

datatype monitor_entry = NilPanic | RunsMonitor nat

definition enter_monitor :: "node \<Rightarrow> monitor_entry" where
  "enter_monitor n = (case nd_monitor n of None \<Rightarrow> NilPanic | Some i \<Rightarrow> RunsMonitor i)"

lemma init_socks_goroutines: "init_socks cfg env n = (Some e, m) \<Longrightarrow> m = n \<and> (\<exists>s. e = SocksError s)"
  by (auto simp: init_socks_def put_defs split: if_splits sum.splits)

lemma init_networking_fails:
  assumes "init_networking cfg env n = (Some e, m)" "co_peer_callback cfg"
  shows "(e = NetstackError \<or> (\<exists>s. e = SocksError s)) \<and> (\<exists>i c. GMonitor i c \<in> set (nd_goroutines m))"
  using assms
  by (auto simp: init_networking_def Let_def start_monitor_def put_defs split: if_splits option.splits prod.splits
      dest!: init_socks_goroutines) blast+

lemma other_errors:
  "init_core env n = (Some e, m) \<Longrightarrow> e \<noteq> NetstackError \<and> (\<forall>s. e \<noteq> SocksError s)"
  "init_admin env n = (Some e, m) \<Longrightarrow> e \<noteq> NetstackError \<and> (\<forall>s. e \<noteq> SocksError s)"
  "init_multicast cfg env n = (Some e, m) \<Longrightarrow> e \<noteq> NetstackError \<and> (\<forall>s. e \<noteq> SocksError s)"
proof -
  have k: "allowed_key_options ks = Inl e \<Longrightarrow> e \<noteq> NetstackError \<and> (\<forall>s. e \<noteq> SocksError s)" for ks e
    by (induction ks rule: allowed_key_options.induct) (auto simp: try_bind_eq_Inl split: sum.splits)
  have o: "multicast_options f is = Inl e \<Longrightarrow> e \<noteq> NetstackError \<and> (\<forall>s. e \<noteq> SocksError s)" for f "is" e
    by (induction "is") (auto simp: try_bind_eq_Inl split: if_splits)
  show "init_core env n = (Some e, m) \<Longrightarrow> e \<noteq> NetstackError \<and> (\<forall>s. e \<noteq> SocksError s)"
    using k [of "nc_allowed_keys (nd_config n)" e]
    by (auto simp: init_core_def core_options_def Let_def try_bind_eq_Inl put_defs split: sum.splits if_splits)
  show "init_admin env n = (Some e, m) \<Longrightarrow> e \<noteq> NetstackError \<and> (\<forall>s. e \<noteq> SocksError s)"
    by (auto simp: init_admin_def put_defs split: admin_outcome.splits)
  show "init_multicast cfg env n = (Some e, m) \<Longrightarrow> e \<noteq> NetstackError \<and> (\<forall>s. e \<noteq> SocksError s)"
    using o [of "ev_regex env" "nc_multicast (nd_config n)" e]
    by (auto simp: init_multicast_def put_defs split: sum.splits if_splits)
qed

lemma init_all_networking_fails:
  assumes "init_all cfg env n = (Some e, m)" "e = NetstackError \<or> e = SocksError s" "co_peer_callback cfg"
  shows "\<exists>i c. GMonitor i c \<in> set (nd_goroutines m)"
proof -
  obtain k where "init_networking cfg env k = (Some e, m)"
    using assms(1,2) other_errors by (auto simp: init_all_def split: prod.splits option.splits)
  from init_networking_fails [OF this assms(3)] show ?thesis by blast
qed

text \<open>
  C26: a \<open>New\<close> that fails at the netstack or at the SOCKS listener returns with the goroutine of its peer monitor
  still counted and the field already nil, so a goroutine that is scheduled only then panics. A stop does not have
  this flaw: it clears the field after its wait, and up to then the goroutine finds its monitor.
\<close>

theorem failed_new_can_panic:
  assumes "new_node g cfg False env = Some (Some e, m)" "e = NetstackError \<or> e = SocksError s" "co_peer_callback cfg"
  shows "(\<exists>i c. GMonitor i c \<in> set (nd_goroutines m)) \<and> enter_monitor m = NilPanic \<and>
     (\<forall>n i c. up n \<and> GMonitor i c \<in> set (nd_goroutines n) \<longrightarrow> enter_monitor (stop_signal n) = RunsMonitor i)"
proof -
  let ?c = "new_defaults cfg"
  obtain x k where x: "init_all ?c env (blank_node g ?c False) = (Some e, x)" "rollback_components x = Some k"
      "m = (cancel_components k)\<lparr>nd_root_cancelled := True\<rparr>"
    using assms(1) by (auto simp: new_node_def Let_def bind_eq_Some_conv split: prod.splits option.splits)
  have "sound {} (blank_node g ?c False)" "cleared (blank_node g ?c False)" "nd_closers (blank_node g ?c False) = []"
    "nd_ctx (blank_node g ?c False) \<noteq> None"
    using blank_sound [of False ?c g] by simp_all
  then have "initialised {} (blank_node g ?c False) (Some e) x" by (rule init_all_spec [OF _ _ _ _ x(1)])
  then have "stoppable x" by (simp add: initialised_def sound_def)
  then have k: "k = rolled_back x" using x(2) rollback_eq by simp
  have "co_peer_callback ?c" using assms(3) by (simp add: new_defaults_def)
  then obtain i c where "GMonitor i c \<in> set (nd_goroutines x)"
    using init_all_networking_fails [OF x(1) assms(2)] by blast
  moreover have "nd_goroutines m = nd_goroutines x" "nd_monitor m = None"
    by (simp_all add: x(3) k rolled_back_def cancel_components_eq)
  moreover have "enter_monitor (stop_signal n) = RunsMonitor i" if "up n" "GMonitor i c \<in> set (nd_goroutines n)" for n i c
  proof -
    have "gor_ok n (GMonitor i c)" using that by (auto simp: up_def gors_ok_def list_all_iff)
    then show ?thesis by (simp add: enter_monitor_def stop_signal_eq)
  qed
  ultimately show ?thesis by (auto simp: enter_monitor_def)
qed

theorem failed_new_can_panic_witness:
  "\<exists>m. new_node demo_node_config (demo_config\<lparr>co_peer_callback := True\<rparr>) False (demo_env False) =
     Some (Some (SocksError (ListenTcpFailed '':1080'')), m) \<and> enter_monitor m = NilPanic"
proof -
  obtain m where m: "new_node demo_node_config (demo_config\<lparr>co_peer_callback := True\<rparr>) False (demo_env False) =
     Some (Some (SocksError (ListenTcpFailed '':1080'')), m)"
    by (simp add: node_eval demo_defs)
  from failed_new_can_panic [OF this, of "ListenTcpFailed '':1080''"] m show ?thesis by simp
qed

end
