(* ===== verification/SocketFile.thy ===== *)
theory SocketFile
  imports Socks LowPower
begin

text \<open>
  The socket file of a SOCKS address that is a Unix path. Three parts of the code create and remove it: the SOCKS
  front end (\<open>mod/mapping/socks.go\<close>), the stop of the components (\<open>mod/yggstack/func.go\<close>) and the wake trigger
  (\<open>mod/lowpower/wake_trigger.go\<close>). The state is the file under that path with the listener behind it; the
  operations are what those parts do to it, and the transitions compose them in the order of
  \<open>mod/lowpower/manager.go\<close>. \<open>start_socks\<close> is the one of \<open>Socks\<close>, run on what this file system answers. A bind
  fails exactly while the file exists; closing a Unix listener removes the file, as in Go's \<open>net\<close>.
\<close>

subsection \<open>State\<close>

datatype file_owner = StaleFile | OurSocks | OurTrigger | OtherProgram

record socket_file =
  sf_file :: "file_owner option"
  sf_socks :: bool        \<comment> \<open>the SOCKS listener is open\<close>
  sf_trigger :: bool      \<comment> \<open>the wake listener is open\<close>

text \<open>What the system answers to \<open>StartSocks\<close>: someone answers the probe unless the file is a stale one.\<close>

definition file_env :: "socket_file \<Rightarrow> socks_env" where
  "file_env f = \<lparr>se_listen = (if sf_file f = None then Inr 0 else Inl [OsSyscallError, Errno 98]),
     se_probe = (sf_file f \<noteq> Some StaleFile), se_lstat = map_option (\<lambda>_. False) (sf_file f), se_remove = True,
     se_relisten = Inr 0, se_windows = False, se_eaddrinuse = 98\<rparr>"

subsection \<open>Operations\<close>

definition open_socks_file :: "string \<Rightarrow> socket_file \<Rightarrow> socks_error option \<times> socket_file" where
  "open_socks_file addr f = (case fst (start_socks addr True (file_env f)) of
       Inl e \<Rightarrow> (Some e, f)
     | Inr r \<Rightarrow> (None, f\<lparr>sf_file := Some OurSocks, sf_socks := True\<rparr>))"

text \<open>\<open>stopComponents\<close>: the listener is closed, then the file is removed once more.\<close>

definition close_socks_file :: "socket_file \<Rightarrow> socket_file" where
  "close_socks_file f = (if sf_socks f then f\<lparr>sf_file := None, sf_socks := False\<rparr> else f)"

text \<open>\<open>startWakeTrigger\<close>: \<open>os.Remove\<close> whatever is there, then listen.\<close>

definition open_trigger_file :: "bool \<Rightarrow> socket_file \<Rightarrow> bool \<times> socket_file" where
  "open_trigger_file listen_ok f =
     (let g = f\<lparr>sf_file := None\<rparr> in
      if listen_ok then (True, g\<lparr>sf_file := Some OurTrigger, sf_trigger := True\<rparr>) else (False, g))"

definition close_trigger_file :: "socket_file \<Rightarrow> socket_file" where
  "close_trigger_file f = (if sf_trigger f then f\<lparr>sf_file := None, sf_trigger := False\<rparr> else f)"

text \<open>Another program that binds the path, where it is free, and one that closes its listener.\<close>

definition other_binds :: "socket_file \<Rightarrow> socket_file" where
  "other_binds f = (if sf_file f = None then f\<lparr>sf_file := Some OtherProgram\<rparr> else f)"

subsection \<open>Transitions\<close>

text \<open>
  A start of the components: \<open>before_ok\<close> says whether the steps before the SOCKS listener succeed. The result
  is whether the start succeeds.
\<close>

definition start_files :: "string \<Rightarrow> bool \<Rightarrow> socket_file \<Rightarrow> bool \<times> socket_file" where
  "start_files addr before_ok f =
     (if before_ok then (case open_socks_file addr f of (e, g) \<Rightarrow> (e = None, g)) else (False, f))"

definition sleep_files :: "string \<Rightarrow> bool \<Rightarrow> bool \<Rightarrow> socket_file \<Rightarrow> power_state \<times> socket_file" where
  "sleep_files addr listen_ok before_ok f =
     (case open_trigger_file listen_ok (close_socks_file f) of
        (True, g) \<Rightarrow> (LowPower, g)
      | (False, g) \<Rightarrow>
          (case start_files addr before_ok g of
             (True, h) \<Rightarrow> (FullPower, h)
           | (False, h) \<Rightarrow> (LowPower, h)))"

text \<open>\<open>between\<close> is what other programs do while the components start.\<close>

definition wake_files ::
  "string \<Rightarrow> (socket_file \<Rightarrow> socket_file) \<Rightarrow> bool \<Rightarrow> bool \<Rightarrow> socket_file \<Rightarrow> power_state \<times> socket_file" where
  "wake_files addr between before_ok relisten_ok f =
     (case start_files addr before_ok (between (close_trigger_file f)) of
        (True, g) \<Rightarrow> (FullPower, g)
      | (False, g) \<Rightarrow> (LowPower, snd (open_trigger_file relisten_ok g)))"

datatype file_event = SleepFiles bool bool | WakeFiles bool bool

fun power_files :: "string \<Rightarrow> file_event list \<Rightarrow> power_state \<times> socket_file \<Rightarrow> power_state \<times> socket_file" where
  "power_files addr [] s = s"
| "power_files addr (SleepFiles l b # es) s =
     power_files addr es (if fst s = FullPower then sleep_files addr l b (snd s) else s)"
| "power_files addr (WakeFiles b r # es) s =
     power_files addr es (if fst s = LowPower then wake_files addr id b r (snd s) else s)"

subsection \<open>Properties\<close>

text \<open>The file belongs to the listener that is open, and there is none where none is open.\<close>

definition file_matches :: "power_state \<times> socket_file \<Rightarrow> bool" where
  "file_matches s \<longleftrightarrow> (case s of (p, f) \<Rightarrow>
     (p = FullPower \<and> sf_socks f \<and> \<not> sf_trigger f \<and> sf_file f = Some OurSocks) \<or>
     (p = LowPower \<and> \<not> sf_socks f \<and> sf_file f = (if sf_trigger f then Some OurTrigger else None)))"

lemma open_socks_file_free:
  assumes "CHR '':'' \<notin> set addr" "sf_file f = None"
  shows "open_socks_file addr f = (None, f\<lparr>sf_file := Some OurSocks, sf_socks := True\<rparr>)"
  using assms by (simp add: open_socks_file_def start_socks_def socks_listen_def file_env_def)

lemma open_socks_file_eq:
  assumes "CHR '':'' \<notin> set addr"
  shows "open_socks_file addr f = (case sf_file f of
     None \<Rightarrow> (None, f\<lparr>sf_file := Some OurSocks, sf_socks := True\<rparr>)
   | Some StaleFile \<Rightarrow> (None, f\<lparr>sf_file := Some OurSocks, sf_socks := True\<rparr>)
   | Some _ \<Rightarrow> (Some (AnotherInstance addr), f))"
proof -
  have "is_error_address_already_in_use False 98 [OsSyscallError, Errno 98]"
    by (simp add: is_error_address_already_in_use_def List.map_filter_def)
  then show ?thesis
    using assms by (simp add: open_socks_file_def start_socks_def socks_listen_def file_env_def remove_unix_socket_def
        split: option.split file_owner.split)
qed

lemma sleep_files_matches:
  "CHR '':'' \<notin> set addr \<Longrightarrow> file_matches (FullPower, f) \<Longrightarrow> file_matches (sleep_files addr l b f)"
  by (cases l; cases b) (simp_all add: sleep_files_def close_socks_file_def open_trigger_file_def start_files_def
      open_socks_file_free file_matches_def Let_def)

lemma wake_files_matches:
  "CHR '':'' \<notin> set addr \<Longrightarrow> file_matches (LowPower, f) \<Longrightarrow> file_matches (wake_files addr id b r f)"
  by (cases "sf_trigger f"; cases b; cases r) (simp_all add: wake_files_def close_trigger_file_def
      open_trigger_file_def start_files_def open_socks_file_free file_matches_def Let_def)

lemma file_matches_full: "file_matches s \<Longrightarrow> fst s = FullPower \<Longrightarrow> file_matches (FullPower, snd s)"
  by (cases s) simp

lemma file_matches_low: "file_matches s \<Longrightarrow> fst s = LowPower \<Longrightarrow> file_matches (LowPower, snd s)"
  by (cases s) simp



text \<open>
  the SOCKS front end never takes the path from a program that still answers on it, but the wake trigger
  does: when another program binds the path while a sleeping node tries to start, the start fails because of it,
  and re-opening the wake listener then removes the other program's file and binds the path itself.
\<close>

theorem wake_trigger_takes_others_socket:
  assumes "CHR '':'' \<notin> set addr" "file_matches (LowPower, f)"
  shows "open_socks_file addr (other_binds (close_trigger_file f)) =
       (Some (AnotherInstance addr), other_binds (close_trigger_file f)) \<and>
     sf_file (other_binds (close_trigger_file f)) = Some OtherProgram \<and>
     wake_files addr other_binds True True f =
       (LowPower, f\<lparr>sf_file := Some OurTrigger, sf_socks := False, sf_trigger := True\<rparr>)"
proof -
  have f: "sf_file (other_binds (close_trigger_file f)) = Some OtherProgram"
    using assms(2) by (auto simp: other_binds_def close_trigger_file_def file_matches_def split: if_splits)
  moreover have o: "open_socks_file addr (other_binds (close_trigger_file f)) =
       (Some (AnotherInstance addr), other_binds (close_trigger_file f))"
    using f by (simp add: open_socks_file_eq [OF assms(1)])
  moreover have "(other_binds (close_trigger_file f))\<lparr>sf_file := Some OurTrigger, sf_trigger := True\<rparr> =
       f\<lparr>sf_file := Some OurTrigger, sf_socks := False, sf_trigger := True\<rparr>"
    using assms(2) by (cases f) (auto simp: other_binds_def close_trigger_file_def file_matches_def split: if_splits)
  ultimately show ?thesis
    by (simp add: wake_files_def start_files_def open_trigger_file_def Let_def)
qed

theorem wake_trigger_takes_others_socket_witness:
  "sf_file (snd (wake_files ''/run/y'' other_binds True True
     \<lparr>sf_file = Some OurTrigger, sf_socks = False, sf_trigger = True\<rparr>)) = Some OurTrigger"
  using wake_trigger_takes_others_socket [of "''/run/y''" "\<lparr>sf_file = Some OurTrigger, sf_socks = False, sf_trigger = True\<rparr>"]
  by (simp add: file_matches_def)

end
