(* ===== verification/Peers.thy ===== *)
theory Peers
  imports GoStrings Complex_Main
begin

text \<open>
  Peer management (\<open>mod/peers\<close>): the guards around the core's peer operations, the export of peer records,
  and the monitor that reports changes of the peer count.

  The core and \<open>url.Parse\<close> are parameters. Go's \<open>float64\<close> values are exact rationals here: rounding is not
  modelled. The monitor is a function of the snapshots its polls see and of the counter of connections it
  reads after each tick; durations are milliseconds.
\<close>

subsection \<open>Peer operations\<close>

datatype 'e peer_error = CoreNil | UrlParseError 'e | CoreError 'e

text \<open>\<open>c\<close> is None for a nil core.\<close>

definition add_peer ::
  "(string \<Rightarrow> 'e + 'u) \<Rightarrow> ('u \<Rightarrow> string \<Rightarrow> 'c \<Rightarrow> 'e option \<times> 'c) \<Rightarrow> 'c option \<Rightarrow> string \<Rightarrow> 'e peer_error option \<times> 'c option" where
  "add_peer url_parse core_add c uri = (case c of
       None \<Rightarrow> (Some CoreNil, None)
     | Some k \<Rightarrow>
         (case url_parse uri of
            Inl e \<Rightarrow> (Some (UrlParseError e), Some k)
          | Inr u \<Rightarrow> (case core_add u '''' k of (r, k') \<Rightarrow> (map_option CoreError r, Some k'))))"

definition remove_peer ::
  "(string \<Rightarrow> 'e + 'u) \<Rightarrow> ('u \<Rightarrow> string \<Rightarrow> 'c \<Rightarrow> 'e option \<times> 'c) \<Rightarrow> 'c option \<Rightarrow> string \<Rightarrow> 'e peer_error option \<times> 'c option" where
  "remove_peer url_parse core_remove c uri = (case c of
       None \<Rightarrow> (Some CoreNil, None)
     | Some k \<Rightarrow>
         (case url_parse uri of
            Inl e \<Rightarrow> (Some (UrlParseError e), Some k)
          | Inr u \<Rightarrow> (case core_remove u '''' k of (r, k') \<Rightarrow> (map_option CoreError r, Some k'))))"

definition retry_peers_now :: "('c \<Rightarrow> 'c) \<Rightarrow> 'c option \<Rightarrow> 'c option" where
  "retry_peers_now core_retry c = map_option core_retry c"

subsection \<open>Peer records\<close>

record core_peer =
  cp_uri :: string
  cp_up :: bool
  cp_inbound :: bool
  cp_key :: bytes
  cp_rx :: "64 word"
  cp_tx :: "64 word"
  cp_uptime :: int              \<comment> \<open>nanoseconds\<close>
  cp_latency :: int
  cp_last_error :: "string option"

record info_obj =
  io_uri :: string
  io_up :: bool
  io_inbound :: bool
  io_public_key :: string
  io_rx :: "64 word"
  io_tx :: "64 word"
  io_uptime :: rat              \<comment> \<open>seconds\<close>
  io_latency :: rat             \<comment> \<open>milliseconds\<close>
  io_last_error :: string

text \<open>\<open>Duration.Microseconds\<close> divides with truncation towards zero.\<close>

definition microseconds :: "int \<Rightarrow> int" where
  "microseconds d = sgn d * (\<bar>d\<bar> div 1000)"

definition peer_info :: "core_peer \<Rightarrow> info_obj" where
  "peer_info p = \<lparr>io_uri = cp_uri p, io_up = cp_up p, io_inbound = cp_inbound p,
     io_public_key = (if length (cp_key p) > 0 then hex_encode (cp_key p) else ''''),
     io_rx = cp_rx p, io_tx = cp_tx p,
     io_uptime = of_int (cp_uptime p) / 10 ^ 9,
     io_latency = of_int (microseconds (cp_latency p)) / 1000,
     io_last_error = (case cp_last_error p of Some e \<Rightarrow> e | None \<Rightarrow> '''')\<rparr>"

definition get_peers :: "('c \<Rightarrow> core_peer list) \<Rightarrow> 'c option \<Rightarrow> info_obj list" where
  "get_peers core_peers c = (case c of None \<Rightarrow> [] | Some k \<Rightarrow> map peer_info (core_peers k))"

text \<open>\<open>marshal\<close> is \<open>json.Marshal\<close>.\<close>

definition get_peers_json ::
  "(info_obj list \<Rightarrow> 'e + bytes) \<Rightarrow> ('c \<Rightarrow> core_peer list) \<Rightarrow> 'c option \<Rightarrow> 'e peer_error + bytes" where
  "get_peers_json marshal core_peers c = (case c of
       None \<Rightarrow> Inl CoreNil
     | Some k \<Rightarrow> map_sum CoreError id (marshal (get_peers core_peers c)))"

subsection \<open>The monitor\<close>

definition poll_fast :: int where
  "poll_fast = 500"

definition poll_slow :: int where
  "poll_slow = 5000"

record monitor =
  mn_last_conn :: int
  mn_last_total :: int
  mn_calls :: "(int \<times> int) list"    \<comment> \<open>calls of \<open>OnPeerCountChanged\<close>\<close>
  mn_period :: int
  mn_running :: bool

definition new_monitor :: monitor where
  "new_monitor = \<lparr>mn_last_conn = 0, mn_last_total = 0, mn_calls = [], mn_period = poll_slow, mn_running = True\<rparr>"

definition count_peers :: "core_peer list \<Rightarrow> int \<times> int" where
  "count_peers ps = fold (\<lambda>p (nup, ntotal). (if cp_up p then nup + 1 else nup, ntotal + 1)) ps (0, 0)"

definition poll :: "bool \<Rightarrow> core_peer list \<Rightarrow> monitor \<Rightarrow> monitor" where
  "poll cancelled ps m =
     (if cancelled then m
      else (case count_peers ps of (nup, ntotal) \<Rightarrow>
        if nup \<noteq> mn_last_conn m \<or> ntotal \<noteq> mn_last_total m
        then m\<lparr>mn_last_conn := nup, mn_last_total := ntotal, mn_calls := mn_calls m @ [(nup, ntotal)]\<rparr>
        else m))"

text \<open>\<open>counter\<close> is None where the monitor has no connection counter.\<close>

definition set_period :: "int option \<Rightarrow> monitor \<Rightarrow> monitor" where
  "set_period counter m =
     m\<lparr>mn_period := (case counter of Some c \<Rightarrow> if c > 0 then poll_fast else poll_slow | None \<Rightarrow> poll_slow)\<rparr>"

datatype monitor_event = MonitorCancelled | MonitorTick "core_peer list" "int option"

definition monitor_turn :: "monitor_event \<Rightarrow> monitor \<Rightarrow> monitor" where
  "monitor_turn e m =
     (if \<not> mn_running m then m
      else (case e of
         MonitorCancelled \<Rightarrow> m\<lparr>mn_running := False\<rparr>
       | MonitorTick ps counter \<Rightarrow> set_period counter (poll False ps m)))"

definition monitor_run :: "core_peer list \<Rightarrow> monitor_event list \<Rightarrow> monitor" where
  "monitor_run initial es = fold monitor_turn es (poll False initial new_monitor)"

subsection \<open>Lemmas\<close>

lemma count_peers_eq: "count_peers ps = (int (length (filter cp_up ps)), int (length ps))"
proof -
  have "fold (\<lambda>p (nup, ntotal). (if cp_up p then nup + 1 else nup, ntotal + 1)) ps (a, b) =
      (a + int (length (filter cp_up ps)), b + int (length ps))" for a b
    by (induction ps arbitrary: a b) simp_all
  then show ?thesis by (simp add: count_peers_def)
qed

text \<open>What the monitor has told the callback, with the count before the first call.\<close>

definition told :: "monitor \<Rightarrow> (int \<times> int) list" where
  "told m = (0, 0) # mn_calls m"

definition monitor_ok :: "(int \<times> int) list \<Rightarrow> monitor \<Rightarrow> bool" where
  "monitor_ok seen m \<longleftrightarrow> told m = remdups_adj ((0, 0) # seen) \<and> last ((0, 0) # seen) = (mn_last_conn m, mn_last_total m)"

lemma poll_ok: "monitor_ok seen m \<Longrightarrow> monitor_ok (seen @ [count_peers ps]) (poll False ps m)"
proof -
  assume m: "monitor_ok seen m"
  obtain a b where c: "count_peers ps = (a, b)" by (cases "count_peers ps")
  have l: "last ((0, 0) # seen) = (mn_last_conn m, mn_last_total m)"
    using m by (simp add: monitor_ok_def)
  have snoc: "remdups_adj (xs @ [x]) = remdups_adj xs @ (if last xs = x then [] else [x])" if "xs \<noteq> []" for xs :: "(int \<times> int) list" and x
    using that by (cases xs rule: rev_cases) (simp_all add: remdups_adj_append_two)
  have "remdups_adj ((0, 0) # seen @ [(a, b)]) =
      told m @ (if (mn_last_conn m, mn_last_total m) = (a, b) then [] else [(a, b)])"
    using snoc [of "(0, 0) # seen" "(a, b)"] m l by (simp add: monitor_ok_def)
  then show ?thesis
    using m by (auto simp: monitor_ok_def poll_def c told_def)
qed

fun tick_counts :: "monitor_event list \<Rightarrow> (int \<times> int) list" where
  "tick_counts [] = []"
| "tick_counts (MonitorCancelled # es) = []"
| "tick_counts (MonitorTick ps c # es) = count_peers ps # tick_counts es"

lemma stopped_monitor: "\<not> mn_running m \<Longrightarrow> fold monitor_turn es m = m"
  by (induction es) (simp_all add: monitor_turn_def)

lemma poll_running [simp]: "mn_running (poll c ps m) = mn_running m"
  by (simp add: poll_def split: prod.split)

lemma monitor_fold_ok:
  "monitor_ok seen m \<Longrightarrow> mn_running m \<Longrightarrow> monitor_ok (seen @ tick_counts es) (fold monitor_turn es m)"
proof (induction es arbitrary: seen m rule: tick_counts.induct)
  case (2 es)
  have "monitor_ok seen (m\<lparr>mn_running := False\<rparr>)" using 2 by (simp add: monitor_ok_def told_def)
  moreover have "monitor_turn MonitorCancelled m = m\<lparr>mn_running := False\<rparr>"
    using 2(2) by (simp add: monitor_turn_def)
  ultimately show ?case by (simp add: stopped_monitor)
next
  case (3 ps c es)
  let ?m = "set_period c (poll False ps m)"
  have "monitor_ok (seen @ [count_peers ps]) ?m" "mn_running ?m"
    using poll_ok [OF 3(2), of ps] 3(3) by (simp_all add: set_period_def monitor_ok_def told_def)
  moreover have "monitor_turn (MonitorTick ps c) m = ?m"
    using 3(3) by (simp add: monitor_turn_def)
  ultimately show ?case using 3(1) [of "seen @ [count_peers ps]" ?m] by simp
qed simp

subsection \<open>Properties\<close>

text \<open>
  C35: the monitor tells the callback exactly the changes: its calls, after the initial count of zero, are the
  counts its polls saw up to the cancellation with repetitions dropped, so the last call is the current count
  and no two calls in a row are equal.
\<close>

theorem monitor_reports_changes:
  "(0, 0) # mn_calls (monitor_run initial es) = remdups_adj ((0, 0) # count_peers initial # tick_counts es) \<and>
   last ((0, 0) # mn_calls (monitor_run initial es)) = last (count_peers initial # tick_counts es) \<and>
   count_peers initial = (int (length (filter cp_up initial)), int (length initial))"
proof -
  have "monitor_ok [] new_monitor" by (simp add: monitor_ok_def told_def new_monitor_def)
  from poll_ok [OF this, of initial] have i: "monitor_ok [count_peers initial] (poll False initial new_monitor)"
    by simp
  have "monitor_ok (count_peers initial # tick_counts es) (monitor_run initial es)"
    using monitor_fold_ok [OF i, of es] by (simp add: monitor_run_def) (simp add: new_monitor_def)
  then have t: "(0, 0) # mn_calls (monitor_run initial es) = remdups_adj ((0, 0) # count_peers initial # tick_counts es)"
    by (simp only: monitor_ok_def told_def)
  have "last ((0, 0) # mn_calls (monitor_run initial es)) = last ((0, 0) # count_peers initial # tick_counts es)"
    unfolding t by (rule last_remdups_adj)
  then show ?thesis using t by (simp add: count_peers_eq)
qed

text \<open>
  the monitor polls every 500 ms exactly while the last tick saw a tracked connection open, and every 5 s
  otherwise; once cancelled it does nothing more.
\<close>

theorem monitor_adapts_period:
  "(let m = monitor_run initial es in
     (mn_running m = (MonitorCancelled \<notin> set es)) \<and>
     mn_period (monitor_turn (MonitorTick ps (Some c)) m) =
       (if mn_running m then (if c > 0 then 500 else 5000) else mn_period m) \<and>
     fold monitor_turn fs (monitor_turn MonitorCancelled m) = monitor_turn MonitorCancelled m)"
proof -
  have run: "mn_running (fold monitor_turn es m) = (mn_running m \<and> MonitorCancelled \<notin> set es)" for m
  proof (induction es arbitrary: m)
    case (Cons e es)
    then show ?case by (cases e) (auto simp: monitor_turn_def set_period_def)
  qed simp
  have "mn_running (monitor_run initial es) = (MonitorCancelled \<notin> set es)"
    unfolding monitor_run_def run by (simp add: new_monitor_def)
  moreover have "fold monitor_turn fs (monitor_turn MonitorCancelled (monitor_run initial es)) =
      monitor_turn MonitorCancelled (monitor_run initial es)"
    by (rule stopped_monitor) (simp add: monitor_turn_def)
  ultimately show ?thesis
    by (simp add: Let_def monitor_turn_def set_period_def poll_def poll_fast_def poll_slow_def split: prod.split)
qed

text \<open>
  the exported records keep every peer, in order, with its key in hexadecimal, which decodes to the key
  again, and without a core the list is empty.
\<close>

theorem get_peers_faithful:
  "get_peers core_peers None = [] \<and>
   map io_uri (get_peers core_peers (Some k)) = map cp_uri (core_peers k) \<and>
   map (\<lambda>i. hex_decode (io_public_key i)) (get_peers core_peers (Some k)) = map (\<lambda>p. Inr (cp_key p)) (core_peers k) \<and>
   map (\<lambda>i. (io_up i, io_rx i, io_tx i)) (get_peers core_peers (Some k)) = map (\<lambda>p. (cp_up p, cp_rx p, cp_tx p)) (core_peers k)"
  by (simp add: get_peers_def peer_info_def hex_decode_encode comp_def)

text \<open>
  adding and removing a peer never reach the core with a URI that does not parse: the error is reported and
  the core is unchanged; with one that parses, the core's own result is reported.
\<close>

theorem peer_operations_guarded:
  "(case url_parse uri of
      Inl e \<Rightarrow> add_peer url_parse f (Some k) uri = (Some (UrlParseError e), Some k) \<and>
               remove_peer url_parse f (Some k) uri = (Some (UrlParseError e), Some k)
    | Inr u \<Rightarrow> add_peer url_parse f (Some k) uri = map_prod (map_option CoreError) Some (f u '''' k) \<and>
               remove_peer url_parse f (Some k) uri = map_prod (map_option CoreError) Some (f u '''' k)) \<and>
   add_peer url_parse f None uri = (Some CoreNil, None) \<and> remove_peer url_parse f None uri = (Some CoreNil, None)"
  by (auto simp: add_peer_def remove_peer_def split: sum.split prod.split)

end
