(* ===== verification/NodePeers.thy ===== *)
theory NodePeers
  imports UdpSessions NodeLife Peers
begin

text \<open>
  The peer methods of the node (\<open>mod/yggstack/func_peers.go\<close>): they take the core under the read lock, refuse
  where there is none, and delegate to \<open>mod/peers\<close>. \<open>cores\<close> holds the state of every core by its number in
  the ledger; the core's own operations are parameters.
\<close>

datatype 'e node_peer_error = NodeIsNotRunning | PeersError "'e peer_error"

definition node_get_peers :: "('c \<Rightarrow> core_peer list) \<Rightarrow> node \<Rightarrow> (nat \<Rightarrow> 'c) \<Rightarrow> info_obj list" where
  "node_get_peers core_peers n cores = (case nd_core n of
       None \<Rightarrow> []
     | Some i \<Rightarrow> get_peers core_peers (Some (cores i)))"

definition node_get_peers_json ::
  "(info_obj list \<Rightarrow> 'e + bytes) \<Rightarrow> ('c \<Rightarrow> core_peer list) \<Rightarrow> node \<Rightarrow> (nat \<Rightarrow> 'c) \<Rightarrow> 'e node_peer_error + bytes" where
  "node_get_peers_json marshal core_peers n cores = (case nd_core n of
       None \<Rightarrow> Inl NodeIsNotRunning
     | Some i \<Rightarrow> map_sum PeersError id (get_peers_json marshal core_peers (Some (cores i))))"

definition node_add_peer ::
  "(string \<Rightarrow> 'e + 'u) \<Rightarrow> ('u \<Rightarrow> string \<Rightarrow> 'c \<Rightarrow> 'e option \<times> 'c) \<Rightarrow> node \<Rightarrow> (nat \<Rightarrow> 'c) \<Rightarrow> string \<Rightarrow>
     'e node_peer_error option \<times> (nat \<Rightarrow> 'c)" where
  "node_add_peer url_parse core_add n cores uri = (case nd_core n of
       None \<Rightarrow> (Some NodeIsNotRunning, cores)
     | Some i \<Rightarrow> (case add_peer url_parse core_add (Some (cores i)) uri of
         (r, c) \<Rightarrow> (map_option PeersError r, cores(i := the c))))"

definition node_remove_peer ::
  "(string \<Rightarrow> 'e + 'u) \<Rightarrow> ('u \<Rightarrow> string \<Rightarrow> 'c \<Rightarrow> 'e option \<times> 'c) \<Rightarrow> node \<Rightarrow> (nat \<Rightarrow> 'c) \<Rightarrow> string \<Rightarrow>
     'e node_peer_error option \<times> (nat \<Rightarrow> 'c)" where
  "node_remove_peer url_parse core_remove n cores uri = (case nd_core n of
       None \<Rightarrow> (Some NodeIsNotRunning, cores)
     | Some i \<Rightarrow> (case remove_peer url_parse core_remove (Some (cores i)) uri of
         (r, c) \<Rightarrow> (map_option PeersError r, cores(i := the c))))"

definition node_retry_peers_now :: "('c \<Rightarrow> 'c) \<Rightarrow> node \<Rightarrow> (nat \<Rightarrow> 'c) \<Rightarrow> (nat \<Rightarrow> 'c)" where
  "node_retry_peers_now core_retry n cores = (case nd_core n of
       None \<Rightarrow> cores
     | Some i \<Rightarrow> cores(i := the (retry_peers_now core_retry (Some (cores i)))))"

text \<open>\<open>core.New\<close>, called by \<open>initCore\<close>: a new core has the state its options give it.\<close>

definition install_core :: "(core_option list \<Rightarrow> 'c) \<Rightarrow> node \<Rightarrow> (nat \<Rightarrow> 'c) \<Rightarrow> (nat \<Rightarrow> 'c)" where
  "install_core mk n cores = (case (nd_core n, core_options (nd_config n)) of
       (Some i, Inr opts) \<Rightarrow> cores(i := mk opts)
     | _ \<Rightarrow> cores)"

subsection \<open>The adapter for the forwarding code\<close>

text \<open>
  \<open>NodeMappingObj\<close>, what the node shows \<open>mod/mapping\<close>, at one moment; \<open>core_mtu\<close> is the core's. The logger is
  no part of the node's record and is left out; of the activity callback it is kept whether there is one.
\<close>

record node_mapping =
  nm_netstack :: "nat option"
  nm_core_mtu :: "64 word"
  nm_activity_callback :: bool     \<comment> \<open>not nil\<close>
  nm_counter :: int64
  nm_ctx :: "nat option"
  nm_wg :: "goroutine list"
  nm_add_closer :: "nat \<Rightarrow> node"

definition node_mapping_obj :: "(nat \<Rightarrow> 64 word) \<Rightarrow> node \<Rightarrow> node_mapping" where
  "node_mapping_obj core_mtu n =
     \<lparr>nm_netstack = nd_netstack n, nm_core_mtu = (case nd_core n of None \<Rightarrow> 0 | Some i \<Rightarrow> core_mtu i),
      nm_activity_callback = nd_activity_callback n, nm_counter = nd_count n, nm_ctx = nd_ctx n,
      nm_wg = nd_goroutines n, nm_add_closer = (\<lambda>l. add_closer l n)\<rparr>"

text \<open>A running node shows the forwarding code a netstack and a context; a stopped one shows neither.\<close>

lemma node_mapping_up: "node_up n \<Longrightarrow> nm_netstack (node_mapping_obj f n) \<noteq> None \<and> nm_ctx (node_mapping_obj f n) \<noteq> None"
  by (auto simp: node_mapping_obj_def node_up_def up_def)

lemma node_mapping_down: "node_down n \<Longrightarrow> nm_netstack (node_mapping_obj f n) = None \<and> nm_core_mtu (node_mapping_obj f n) = 0"
  by (auto simp: node_mapping_obj_def node_down_def down_def cleared_def)

text \<open>What \<open>runUDPLoop\<close> takes from the adapter; the timeout is a duration.\<close>

definition udp_loop_cfg :: "node_mapping \<Rightarrow> string \<Rightarrow> int \<Rightarrow> udp_cfg" where
  "udp_loop_cfg nm pre timeout =
     \<lparr>uc_callback = nm_activity_callback nm, uc_prefix = pre, uc_timeout = timeout div 10 ^ 6\<rparr>"

text \<open>Whether connections are tracked is settled by \<open>New\<close>: a sleep and a restart, with any configuration, keep it.\<close>

lemma tracking_survives_restart:
  assumes "node_up n" "stop_components n = Some m" "start_components cfg env m = Some (r, k)"
  shows "udp_loop_cfg (node_mapping_obj f k) pre t = udp_loop_cfg (node_mapping_obj f n) pre t"
proof -
  have m: "m = stopped n" "node_down m" using up_stop_node [OF assms(1)] assms(2) by auto
  then obtain L where "down m" "ledger L m" by (auto simp: node_down_def)
  then have "same_frame m k"
    by (rule start_spec [of m L cfg env]) (use assms(3) in auto)
  then have "nd_activity_callback k = nd_activity_callback n"
    using same_frame_teardown(2) [of n] by (simp add: m(1) same_frame_def)
  then show ?thesis by (simp add: udp_loop_cfg_def node_mapping_obj_def)
qed

subsection \<open>Properties\<close>

lemma node_peers_down:
  assumes "nd_core n = None"
  shows "node_get_peers p n cores = []" "node_get_peers_json j p n cores = Inl NodeIsNotRunning"
    "node_add_peer u a n cores s = (Some NodeIsNotRunning, cores)"
    "node_remove_peer u a n cores s = (Some NodeIsNotRunning, cores)" "node_retry_peers_now f n cores = cores"
  using assms by (simp_all add: node_get_peers_def node_get_peers_json_def node_add_peer_def node_remove_peer_def
    node_retry_peers_now_def)

text \<open>An operation touches the node's own core only.\<close>

lemma node_peers_frame:
  assumes "nd_core n \<noteq> Some j"
  shows "snd (node_add_peer u a n cores s) j = cores j" "snd (node_remove_peer u a n cores s) j = cores j"
    "node_retry_peers_now f n cores j = cores j"
  using assms by (auto simp: node_add_peer_def node_remove_peer_def node_retry_peers_now_def split: option.splits prod.splits)

lemma core_after_start:
  assumes "node_down m" "start_components cfg env m = Some (None, k)"
  shows "nd_core k \<noteq> None \<and> nd_config k = nd_config m"
proof -
  obtain L where L: "down m" "ledger L m" using assms(1) by (auto simp: node_down_def)
  from start_spec [OF L, of cfg env] assms(2) show ?thesis
    by cases (auto simp: up_def same_frame_def)
qed

text \<open>
  a peer added at run time does not survive a sleep: after the node has slept and woken, its peers are those
  of the configuration it was created with, whatever was added or removed before.
\<close>

theorem runtime_peers_lost_on_wake:
  assumes "node_up n" "stop_components n = Some m" "start_components cfg env m = Some (None, k)"
    "core_options (nd_config n) = Inr opts"
  shows "node_get_peers core_peers k (install_core mk k (snd (node_add_peer url_parse core_add n cores uri))) =
     map peer_info (core_peers (mk opts))"
proof -
  have m: "m = stopped n" "node_down m" using up_stop_node [OF assms(1)] assms(2) by auto
  have "nd_config m = nd_config n" using same_frame_teardown(2) [of n] by (simp add: m(1) same_frame_def)
  with core_after_start [OF m(2) assms(3)] assms(4) obtain i where "nd_core k = Some i" "core_options (nd_config k) = Inr opts"
    by auto
  then show ?thesis by (simp add: node_get_peers_def install_core_def get_peers_def)
qed

text \<open>A core for the examples: the list of its peers' URIs.\<close>

definition demo_peer :: "string \<Rightarrow> core_peer" where
  "demo_peer u = \<lparr>cp_uri = u, cp_up = True, cp_inbound = False, cp_key = [], cp_rx = 0, cp_tx = 0, cp_uptime = 0,
     cp_latency = 0, cp_last_error = None\<rparr>"

fun demo_core :: "core_option list \<Rightarrow> string list" where
  "demo_core [] = []"
| "demo_core (OptPeer u i # os) = u # demo_core os"
| "demo_core (_ # os) = demo_core os"

definition demo_core_add :: "string \<Rightarrow> string \<Rightarrow> string list \<Rightarrow> string option \<times> string list" where
  "demo_core_add u i ps = (None, ps @ [u])"

lemma demo_start:
  "\<exists>k. start_components demo_config (demo_env True) demo_down = Some (None, k)"
  by (simp add: demo_down_def demo_up_def node_eval demo_defs)

lemma demo_up_core: "nd_core demo_up = Some 1" "nd_config demo_up = demo_node_config\<lparr>nc_admin_listen := ''none''\<rparr>"
  by (simp_all add: demo_up_def node_eval demo_defs)

theorem runtime_peers_lost_on_wake_witness:
  "\<exists>k. start_components demo_config (demo_env True) demo_down = Some (None, k) \<and>
     (let cores = (\<lambda>_. [''tls://a:1'']); after = snd (node_add_peer Inr demo_core_add demo_up cores ''tcp://b:2'') in
       map io_uri (node_get_peers (map demo_peer) demo_up after) = [''tls://a:1'', ''tcp://b:2''] \<and>
       map io_uri (node_get_peers (map demo_peer) k (install_core demo_core k after)) = [''tls://a:1''])"
proof -
  obtain k where k: "start_components demo_config (demo_env True) demo_down = Some (None, k)"
    using demo_start by blast
  have o: "core_options (nd_config demo_up) = Inr [OptNodeInfo [], OptPrivacy False, OptPeer ''tls://a:1'' []]"
    by (simp add: demo_up_core core_options_def demo_node_config_def)
  let ?after = "snd (node_add_peer Inr demo_core_add demo_up (\<lambda>_. [''tls://a:1'']) ''tcp://b:2'')"
  have "map io_uri (node_get_peers (map demo_peer) demo_up ?after) = [''tls://a:1'', ''tcp://b:2'']"
    by (simp add: node_get_peers_def node_add_peer_def add_peer_def demo_core_add_def get_peers_def demo_up_core
        peer_info_def demo_peer_def)
  moreover have "map io_uri (node_get_peers (map demo_peer) k (install_core demo_core k ?after)) = [''tls://a:1'']"
    unfolding runtime_peers_lost_on_wake [OF demo_up_ok(1) demo_stop k o]
    by (simp add: peer_info_def demo_peer_def)
  ultimately show ?thesis using k by (simp add: Let_def)
qed

end
