(* ===== verification/UdpRelay.thy ===== *)
theory UdpRelay
  imports UdpSessions Proxies "HOL-Library.Sublist"
begin

text \<open>
  The data of UDP forwarding (\<open>mod/mapping/udp.go\<close> with \<open>src/types/udpproxy.go\<close>): what the receive loop writes
  upstream for each source, and what the \<open>ReverseProxyUDP\<close> goroutine of each session sends back. The state
  extends the one of \<open>UdpSessions\<close>, whose operations it reuses; a turn of a reverse goroutine is a turn of
  \<open>reverse_proxy_udp\<close>. The handlers run without interfering with each other here.
\<close>

subsection \<open>State and operations\<close>

record udp_relay = udp_shared +
  rl_reverse :: "nat set"             \<comment> \<open>sessions whose reverse goroutine runs\<close>
  rl_up :: "(nat \<times> bytes) list"       \<comment> \<open>written to the connection of a session\<close>
  rl_down :: "(string \<times> bytes) list"  \<comment> \<open>handed to \<open>WriteTo\<close>, with the address\<close>

definition new_relay :: "int64 \<Rightarrow> int64 \<Rightarrow> udp_relay" where
  "new_relay c0 ids = \<lparr>ud_heap = (\<lambda>_. blank_session), ud_next = 0, ud_map = new_session_map,
     ud_act = \<lparr>act_counter = c0, act_events = []\<rparr>, ud_ids = ids, rl_reverse = {}, rl_up = [], rl_down = []\<rparr>"

definition relay_forward :: "string \<Rightarrow> nat \<Rightarrow> bytes \<Rightarrow> int \<Rightarrow> bool \<Rightarrow> udp_relay \<Rightarrow> udp_relay" where
  "relay_forward k sid data now write_ok s =
     (let s1 = udp_touch sid now s in
      if udp_write_ok write_ok sid s1 then s1\<lparr>rl_up := rl_up s1 @ [(sid, data)]\<rparr>
      else udp_delete k (close_udp_session sid s1))"

text \<open>A datagram \<open>raw\<close> from source \<open>k\<close>, read into a buffer of \<open>mtu\<close> bytes; an empty read is skipped.\<close>

definition relay_datagram ::
  "nat \<Rightarrow> udp_cfg \<Rightarrow> string \<Rightarrow> bytes \<Rightarrow> int \<Rightarrow> bool \<Rightarrow> bool \<Rightarrow> udp_relay \<Rightarrow> udp_relay" where
  "relay_datagram mtu cfg k raw now dial_ok write_ok s =
     (let data = take mtu raw in
      if data = [] then s
      else (case sm_load (ud_map s) k of
          Some sid \<Rightarrow> relay_forward k sid data now write_ok s
        | None \<Rightarrow>
            if dial_ok then
              (case udp_create cfg k now s of (sid, s1) \<Rightarrow>
                 relay_forward k sid data now write_ok
                   ((udp_store k sid s1)\<lparr>rl_reverse := insert sid (rl_reverse s1)\<rparr>))
            else s))"

type_synonym reply = "(unit, unit) udp_turn"

text \<open>One turn of the reverse goroutine of a session; a closed connection yields no more data.\<close>

definition relay_reply :: "nat \<Rightarrow> nat \<Rightarrow> reply \<Rightarrow> udp_relay \<Rightarrow> udp_relay" where
  "relay_reply mtu sid u s =
     (if sid \<notin> rl_reverse s \<or> (us_conn_closed (ud_heap s sid) \<and> (\<exists>d. ut_read u = Inr d)) then s
      else (case reverse_proxy_udp mtu [u] of (ps, r) \<Rightarrow>
        s\<lparr>rl_down := rl_down s @ map (Pair (us_remote (ud_heap s sid))) ps,
          rl_reverse := (if r = None then rl_reverse s else rl_reverse s - {sid})\<rparr>))"

datatype relay_event =
    Incoming string bytes int bool bool   \<comment> \<open>source, data, time, dial and write succeed\<close>
  | Reply nat reply
  | Sweep int "(string \<times> nat) list"       \<comment> \<open>a tick of the cleanup, with its snapshot\<close>

definition relay_step :: "nat \<Rightarrow> udp_cfg \<Rightarrow> relay_event \<Rightarrow> udp_relay \<Rightarrow> udp_relay" where
  "relay_step mtu cfg e s = (case e of
       Incoming k raw now d w \<Rightarrow> relay_datagram mtu cfg k raw now d w s
     | Reply sid u \<Rightarrow> relay_reply mtu sid u s
     | Sweep now es \<Rightarrow> if mset es = mset (ud_map s) then udp_sweep cfg now es s else s)"

definition relay_run :: "nat \<Rightarrow> udp_cfg \<Rightarrow> relay_event list \<Rightarrow> udp_relay \<Rightarrow> udp_relay" where
  "relay_run mtu cfg es s = fold (relay_step mtu cfg) es s"

lemma relay_run_simps [simp]:
  "relay_run mtu cfg [] s = s"
  "relay_run mtu cfg (e # es) s = relay_run mtu cfg es (relay_step mtu cfg e s)"
  "relay_run mtu cfg (es @ [e]) s = relay_step mtu cfg e (relay_run mtu cfg es s)"
  by (simp_all add: relay_run_def)

subsection \<open>Refinement of the session model\<close>

abbreviation sessions_of :: "udp_relay \<Rightarrow> udp_shared" where
  "sessions_of \<equiv> udp_shared.truncate"

lemma sessions_of_fields [simp]:
  "ud_heap (sessions_of s) = ud_heap s" "ud_next (sessions_of s) = ud_next s" "ud_map (sessions_of s) = ud_map s"
  "ud_act (sessions_of s) = ud_act s" "ud_ids (sessions_of s) = ud_ids s"
  by (simp_all add: udp_shared.defs)

lemma sessions_of_updates [simp]:
  "sessions_of (s\<lparr>ud_heap := h\<rparr>) = (sessions_of s)\<lparr>ud_heap := h\<rparr>"
  "sessions_of (s\<lparr>ud_map := t\<rparr>) = (sessions_of s)\<lparr>ud_map := t\<rparr>"
  "sessions_of (s\<lparr>ud_next := n\<rparr>) = (sessions_of s)\<lparr>ud_next := n\<rparr>"
  "sessions_of (s\<lparr>ud_act := a\<rparr>) = (sessions_of s)\<lparr>ud_act := a\<rparr>"
  "sessions_of (s\<lparr>ud_ids := i\<rparr>) = (sessions_of s)\<lparr>ud_ids := i\<rparr>"
  "sessions_of (s\<lparr>rl_up := up\<rparr>) = sessions_of s"
  "sessions_of (s\<lparr>rl_down := dn\<rparr>) = sessions_of s"
  "sessions_of (s\<lparr>rl_reverse := r\<rparr>) = sessions_of s"
  by (simp_all add: udp_shared.defs)

lemma sessions_of_ops:
  "sessions_of (udp_touch sid now s) = udp_touch sid now (sessions_of s)"
  "sessions_of (udp_delete k s) = udp_delete k (sessions_of s)"
  "sessions_of (udp_store k sid s) = udp_store k sid (sessions_of s)"
  "sessions_of (close_udp_session sid s) = close_udp_session sid (sessions_of s)"
  "udp_write_ok w sid (sessions_of s) = udp_write_ok w sid s"
  "udp_idle cfg now sid (sessions_of s) = udp_idle cfg now sid s"
  by (simp_all add: udp_ops close_udp_session_def udp_write_ok_def udp_idle_def Let_def)

lemma sessions_of_create:
  "udp_create cfg k now (sessions_of s) = (case udp_create cfg k now s of (sid, t) \<Rightarrow> (sid, sessions_of t))"
  by (simp add: udp_create_def Let_def split: prod.split)

lemma sessions_of_forward: "sessions_of (relay_forward k sid data now w s) = udp_forward k sid now w (sessions_of s)"
  by (simp add: relay_forward_def udp_forward_def Let_def sessions_of_ops flip: sessions_of_ops(1))

lemma sessions_of_sweep: "sessions_of (udp_sweep cfg now es s) = udp_sweep cfg now es (sessions_of s)"
  by (induction es arbitrary: s) (auto simp: udp_sweep_def sessions_of_ops)


subsection \<open>What an event does to the data\<close>

definition relay_ok :: "udp_relay \<Rightarrow> bool" where
  "relay_ok s \<longleftrightarrow> sm_inv (ud_map s) \<and>
     (\<forall>k sid. (k, sid) \<in> set (ud_map s) \<longrightarrow> sid < ud_next s \<and> us_remote (ud_heap s sid) = k) \<and>
     (\<forall>sid d. (sid, d) \<in> set (rl_up s) \<longrightarrow> sid < ud_next s) \<and> rl_reverse s \<subseteq> {..<ud_next s}"

text \<open>The heap only grows, and a session keeps its source.\<close>

definition same_sources :: "udp_relay \<Rightarrow> udp_relay \<Rightarrow> bool" where
  "same_sources s t \<longleftrightarrow> ud_next s \<le> ud_next t \<and> (\<forall>i < ud_next s. us_remote (ud_heap t i) = us_remote (ud_heap s i))"

lemma same_sources_refl: "same_sources s s"
  by (simp add: same_sources_def)

lemma same_sources_trans: "same_sources s t \<Longrightarrow> same_sources t u \<Longrightarrow> same_sources s u"
  by (auto simp: same_sources_def)

lemma close_relay:
  "rl_up (close_udp_session sid s) = rl_up s" "rl_down (close_udp_session sid s) = rl_down s"
  "rl_reverse (close_udp_session sid s) = rl_reverse s"
  by (simp_all add: close_udp_session_def Let_def)

lemma ops_relay:
  "rl_up (udp_touch sid now s) = rl_up s" "rl_down (udp_touch sid now s) = rl_down s"
  "rl_reverse (udp_touch sid now s) = rl_reverse s"
  "rl_up (udp_delete k s) = rl_up s" "rl_down (udp_delete k s) = rl_down s" "rl_reverse (udp_delete k s) = rl_reverse s"
  "rl_up (udp_store k sid s) = rl_up s" "rl_down (udp_store k sid s) = rl_down s" "rl_reverse (udp_store k sid s) = rl_reverse s"
  by (simp_all add: udp_ops)

lemma create_relay:
  "udp_create cfg k now s = (sid, t) \<Longrightarrow> rl_up t = rl_up s \<and> rl_down t = rl_down s \<and> rl_reverse t = rl_reverse s"
  by (auto simp: udp_create_def Let_def split: if_splits prod.splits)

lemma relay_fields:
  "ud_heap (s\<lparr>rl_up := up\<rparr>) = ud_heap s" "ud_next (s\<lparr>rl_up := up\<rparr>) = ud_next s" "ud_map (s\<lparr>rl_up := up\<rparr>) = ud_map s"
  "ud_heap (s\<lparr>rl_reverse := rv\<rparr>) = ud_heap s" "ud_next (s\<lparr>rl_reverse := rv\<rparr>) = ud_next s" "ud_map (s\<lparr>rl_reverse := rv\<rparr>) = ud_map s"
  "ud_heap (s\<lparr>rl_down := dn\<rparr>) = ud_heap s" "ud_next (s\<lparr>rl_down := dn\<rparr>) = ud_next s" "ud_map (s\<lparr>rl_down := dn\<rparr>) = ud_map s"
  by simp_all

lemmas relay_effects = close_heap other_ops_fields touch_heap close_relay ops_relay relay_fields

lemma delete_sub: "relay_ok s \<Longrightarrow> (a, b) \<in> set (sm_delete k (ud_map s)) \<Longrightarrow> (a, b) \<in> set (ud_map s)"
  using sm.entries_delete [of "ud_map s" k] by (auto simp: relay_ok_def)

lemma relay_forward_effect:
  assumes "relay_ok s" "sid < ud_next s" "us_remote (ud_heap s sid) = k"
  shows "relay_ok (relay_forward k sid data now w s) \<and> same_sources s (relay_forward k sid data now w s) \<and>
     rl_reverse (relay_forward k sid data now w s) = rl_reverse s \<and> rl_down (relay_forward k sid data now w s) = rl_down s \<and>
     (rl_up (relay_forward k sid data now w s) = rl_up s \<or> rl_up (relay_forward k sid data now w s) = rl_up s @ [(sid, data)])"
  using assms by (auto simp: relay_forward_def Let_def relay_ok_def same_sources_def relay_effects sm.invar_delete
      dest: delete_sub [OF assms(1)])

lemma load_known:
  "relay_ok s \<Longrightarrow> sm_load (ud_map s) k = Some sid \<Longrightarrow> sid < ud_next s \<and> us_remote (ud_heap s sid) = k"
  using sm.load_entries [of "ud_map s" k sid] by (auto simp: relay_ok_def)

lemma created_ok:
  assumes "relay_ok s" "udp_create cfg k now s = (sid, t)"
  shows "relay_ok ((udp_store k sid t)\<lparr>rl_reverse := insert sid (rl_reverse t)\<rparr>) \<and>
     same_sources s ((udp_store k sid t)\<lparr>rl_reverse := insert sid (rl_reverse t)\<rparr>) \<and>
     sid = ud_next s \<and> sid < ud_next t \<and> us_remote (ud_heap t sid) = k"
proof -
  obtain x where x: "ud_heap t = (ud_heap s)(sid := x)" "us_remote x = k" using udp_create_heap [OF assms(2)] by blast
  have t: "sid = ud_next s" "ud_next t = Suc (ud_next s)" "ud_map t = ud_map s" "rl_up t = rl_up s" "rl_reverse t = rl_reverse s"
    using udp_create_next [OF assms(2)] udp_create_map [OF assms(2)] create_relay [OF assms(2)] by simp_all
  have "set (sm_store k sid (ud_map s)) \<subseteq> insert (k, sid) (set (ud_map s))"
    using sm.entries_store_subset [of "ud_map s" k sid] assms(1) by (simp add: relay_ok_def)
  then show ?thesis
    using assms(1) x t by (fastforce simp: relay_ok_def same_sources_def relay_effects sm.invar_store)
qed

text \<open>One event: the state stays well formed, and at most one datagram is written upstream.\<close>

definition sent_by :: "nat \<Rightarrow> relay_event \<Rightarrow> (string \<times> bytes) list" where
  "sent_by mtu e = (case e of Incoming k raw _ _ _ \<Rightarrow> if take mtu raw = [] then [] else [(k, take mtu raw)] | _ \<Rightarrow> [])"

definition written :: "udp_relay \<Rightarrow> (string \<times> bytes) list" where
  "written s = map (\<lambda>(sid, d). (us_remote (ud_heap s sid), d)) (rl_up s)"

lemma written_same: "relay_ok s \<Longrightarrow> same_sources s t \<Longrightarrow> rl_up t = rl_up s \<Longrightarrow> written t = written s"
  by (auto simp: written_def relay_ok_def same_sources_def)

lemma written_more:
  "relay_ok s \<Longrightarrow> same_sources s t \<Longrightarrow> rl_up t = rl_up s @ [(sid, d)] \<Longrightarrow>
   written t = written s @ [(us_remote (ud_heap t sid), d)]"
  by (auto simp: written_def relay_ok_def same_sources_def)

lemma sweep_effect:
  "relay_ok s \<Longrightarrow> relay_ok (udp_sweep cfg now es s) \<and> same_sources s (udp_sweep cfg now es s) \<and>
     rl_reverse (udp_sweep cfg now es s) = rl_reverse s \<and> rl_down (udp_sweep cfg now es s) = rl_down s \<and>
     rl_up (udp_sweep cfg now es s) = rl_up s"
proof (induction es arbitrary: s)
  case (Cons e es)
  obtain k sid where e: "e = (k, sid)" by (cases e)
  let ?t = "udp_delete k (close_udp_session sid s)"
  have t: "relay_ok ?t" "same_sources s ?t"
    using Cons.prems by (auto simp: relay_ok_def same_sources_def relay_effects sm.invar_delete
        dest: delete_sub [OF Cons.prems])
  show ?case
  proof (cases "udp_idle cfg now sid s")
    case True
    then show ?thesis
      using Cons.IH [OF t(1)] t(2) same_sources_trans by (auto simp: udp_sweep_def e relay_effects)
  next
    case False
    then show ?thesis using Cons.IH [OF Cons.prems] by (simp add: udp_sweep_def e)
  qed
qed (simp add: udp_sweep_def same_sources_refl)

lemma relay_step_effect:
  assumes "relay_ok s"
  shows "relay_ok (relay_step mtu cfg e s) \<and> same_sources s (relay_step mtu cfg e s) \<and>
     (written (relay_step mtu cfg e s) = written s \<or> written (relay_step mtu cfg e s) = written s @ sent_by mtu e)"
proof (cases e)
  case (Incoming k raw now d w)
  let ?d = "take mtu raw"
  show ?thesis
  proof (cases "?d = []")
    case True
    then show ?thesis using assms Incoming by (simp add: relay_step_def relay_datagram_def same_sources_refl)
  next
    case data: False
    show ?thesis
    proof (cases "sm_load (ud_map s) k")
      case (Some sid)
      note k = load_known [OF assms Some]
      note f = relay_forward_effect [OF assms conjunct1 [OF k] conjunct2 [OF k], of ?d now w]
      have r: "us_remote (ud_heap (relay_forward k sid ?d now w s) sid) = k"
        using f k by (simp add: same_sources_def)
      show ?thesis
        using f written_same [OF assms, of "relay_forward k sid ?d now w s"]
          written_more [OF assms, of "relay_forward k sid ?d now w s" sid ?d] Incoming data Some r
        by (auto simp: relay_step_def relay_datagram_def sent_by_def)
    next
      case None
      show ?thesis
      proof (cases d)
        case True
        obtain sid t where c: "udp_create cfg k now s = (sid, t)" by (cases "udp_create cfg k now s")
        let ?t = "(udp_store k sid t)\<lparr>rl_reverse := insert sid (rl_reverse t)\<rparr>"
        note t = created_ok [OF assms c]
        have k: "sid < ud_next ?t" "us_remote (ud_heap ?t sid) = k" using t by (auto simp: relay_effects)
        note f = relay_forward_effect [OF conjunct1 [OF t] k, of ?d now w]
        have s: "same_sources s (relay_forward k sid ?d now w ?t)" using t f same_sources_trans by blast
        have up: "rl_up ?t = rl_up s" using create_relay [OF c] by (simp add: relay_effects)
        have r: "us_remote (ud_heap (relay_forward k sid ?d now w ?t) sid) = k"
          using f k by (simp add: same_sources_def)
        show ?thesis
          using f s Incoming data None True c up r written_same [OF assms s] written_more [OF assms s, of sid ?d]
          by (auto simp: relay_step_def relay_datagram_def sent_by_def)
      qed (use assms Incoming data None in \<open>simp add: relay_step_def relay_datagram_def same_sources_refl\<close>)
    qed
  qed
next
  case (Reply sid u)
  have "relay_ok (relay_reply mtu sid u s)" "same_sources s (relay_reply mtu sid u s)" "rl_up (relay_reply mtu sid u s) = rl_up s"
    using assms by (auto simp: relay_reply_def relay_ok_def same_sources_def split: prod.splits)
  then show ?thesis using Reply written_same [OF assms] by (simp add: relay_step_def)
next
  case (Sweep now es)
  note t = sweep_effect [OF assms, of cfg now es]
  have "written (udp_sweep cfg now es s) = written s" by (rule written_same [OF assms]) (use t in simp_all)
  then show ?thesis using Sweep assms t by (simp add: relay_step_def same_sources_refl)
qed

lemma new_relay_ok: "relay_ok (new_relay c0 ids)"
  by (simp add: relay_ok_def new_relay_def new_session_map_def)

lemma relay_run_ok: "relay_ok s \<Longrightarrow> relay_ok (relay_run mtu cfg es s)"
  by (induction es arbitrary: s) (use relay_step_effect in auto)

text \<open>
  towards the upstream nothing is made up, repeated or reordered: what the relay writes for a source is a
  subsequence of the datagrams that source sent, each cut to the MTU, and nothing is written for an empty one.
\<close>

theorem upstream_is_subsequence:
  "subseq (written (relay_run mtu cfg es (new_relay c0 ids))) (concat (map (sent_by mtu) es)) \<and>
   subseq (map snd (filter (\<lambda>x. fst x = k) (written (relay_run mtu cfg es (new_relay c0 ids)))))
     (filter (\<lambda>d. d \<noteq> []) (concat (map (\<lambda>e. case e of Incoming k' raw _ _ _ \<Rightarrow> if k' = k then [take mtu raw] else [] | _ \<Rightarrow> []) es)))"
proof -
  let ?s = "\<lambda>es. relay_run mtu cfg es (new_relay c0 ids)"
  have sub: "subseq (written (?s es)) (concat (map (sent_by mtu) es))"
  proof (induction es rule: rev_induct)
    case (snoc e es)
    have "relay_ok (?s es)" by (rule relay_run_ok [OF new_relay_ok])
    from relay_step_effect [OF this, of mtu cfg e] snoc show ?case
      by (auto intro: list_emb_append_mono subseq_order.order_trans [OF _ list_emb_append2])
  qed (simp add: written_def new_relay_def)
  have "map snd (filter (\<lambda>x. fst x = k) (concat (map (sent_by mtu) es))) =
     filter (\<lambda>d. d \<noteq> []) (concat (map (\<lambda>e. case e of Incoming k' raw _ _ _ \<Rightarrow> if k' = k then [take mtu raw] else [] | _ \<Rightarrow> []) es))"
    by (induction es) (auto simp: sent_by_def split: relay_event.split)
  with sub show ?thesis by (metis subseq_filter subseq_map)
qed

subsection \<open>Replies\<close>

lemma sweep_next: "ud_next (udp_sweep cfg now es s) = ud_next (s :: udp_relay)"
  by (induction es arbitrary: s) (auto simp: udp_sweep_def relay_effects)

lemma forward_next: "ud_next (relay_forward k sid data now w s) = ud_next s"
  by (simp add: relay_forward_def Let_def relay_effects)

text \<open>A session appears only with a datagram from its source.\<close>

lemma relay_step_new:
  assumes "relay_ok s" "i < ud_next (relay_step mtu cfg e s)" "\<not> i < ud_next s"
  shows "\<exists>raw now d w. e = Incoming (us_remote (ud_heap (relay_step mtu cfg e s) i)) raw now d w"
proof (cases e)
  case (Incoming k raw now d w)
  have "sm_load (ud_map s) k = None" "d" "take mtu raw \<noteq> []"
    using assms(2,3) Incoming
    by (auto simp: relay_step_def relay_datagram_def Let_def forward_next split: if_splits option.splits)
  moreover obtain sid t where c: "udp_create cfg k now s = (sid, t)" by (cases "udp_create cfg k now s")
  ultimately have r: "relay_step mtu cfg e s = relay_forward k sid (take mtu raw) now w
      ((udp_store k sid t)\<lparr>rl_reverse := insert sid (rl_reverse t)\<rparr>)"
    using Incoming by (simp add: relay_step_def relay_datagram_def)
  note t = created_ok [OF assms(1) c]
  have "i = sid" using assms(2,3) t udp_create_next [OF c] by (simp add: r forward_next relay_effects)
  have k: "sid < ud_next ((udp_store k sid t)\<lparr>rl_reverse := insert sid (rl_reverse t)\<rparr>)"
    "us_remote (ud_heap ((udp_store k sid t)\<lparr>rl_reverse := insert sid (rl_reverse t)\<rparr>) sid) = k"
    using t by (auto simp: relay_effects)
  have "us_remote (ud_heap (relay_step mtu cfg e s) i) = k"
    using relay_forward_effect [OF conjunct1 [OF t] k, of "take mtu raw" now w] k
    unfolding r \<open>i = sid\<close> by (simp add: same_sources_def)
  then show ?thesis using Incoming by blast
qed (use assms in \<open>auto simp: relay_step_def relay_reply_def sweep_next split: if_splits prod.splits\<close>)

definition heard :: "relay_event list \<Rightarrow> string \<Rightarrow> bool" where
  "heard es a \<longleftrightarrow> list_ex (\<lambda>e. case e of Incoming k _ _ _ _ \<Rightarrow> k = a | _ \<Rightarrow> False) es"

lemma heard_iff: "heard es a \<longleftrightarrow> (\<exists>raw now d w. Incoming a raw now d w \<in> set es)"
  by (induction es) (auto simp: heard_def split: relay_event.split)

lemma down_step:
  assumes "relay_ok s" "x \<in> set (rl_down (relay_step mtu cfg e s))" "x \<notin> set (rl_down s)"
  shows "\<exists>sid u. e = Reply sid u \<and> sid < ud_next s \<and> x = (us_remote (ud_heap s sid), take mtu (turn_data u)) \<and>
     take mtu (turn_data u) \<noteq> []"
proof (cases e)
  case (Incoming k raw now d w)
  have "rl_down (relay_step mtu cfg e s) = rl_down s"
    using Incoming create_relay [of cfg k now s]
    by (auto simp: relay_step_def relay_datagram_def relay_forward_def Let_def relay_effects split: option.split prod.split)
  then show ?thesis using assms by simp
next
  case (Reply sid u)
  then have s: "sid \<in> rl_reverse s"
    using assms by (auto simp: relay_step_def relay_reply_def split: if_splits)
  have p: "fst (reverse_proxy_udp mtu [u]) = (if take mtu (turn_data u) = [] then [] else [take mtu (turn_data u)])"
    by (auto simp: turn_data_def Let_def split: sum.split option.split)
  have "x \<in> set (rl_down s @ map (Pair (us_remote (ud_heap s sid))) (fst (reverse_proxy_udp mtu [u])))"
    using assms(2) Reply s by (auto simp: relay_step_def relay_reply_def split: if_splits prod.splits)
  then show ?thesis
    using assms s Reply unfolding p by (auto simp: relay_ok_def split: if_splits)
next
  case (Sweep now es)
  then show ?thesis using assms sweep_effect [OF assms(1), of cfg now es] by (auto simp: relay_step_def split: if_splits)
qed

text \<open>
  nothing is sent to a stranger, and replies are not mixed up: every datagram the relay sends back is what
  some reverse goroutine read, cut to the MTU, it goes to the source of that goroutine's session, and that source
  has sent a datagram before.
\<close>

theorem replies_reach_their_source:
  assumes "(a, d) \<in> set (rl_down (relay_run mtu cfg es (new_relay c0 ids)))"
  shows "\<exists>sid u. Reply sid u \<in> set es \<and> d = take mtu (turn_data u) \<and> d \<noteq> [] \<and> heard es a \<and>
     us_remote (ud_heap (relay_run mtu cfg es (new_relay c0 ids)) sid) = a"
proof -
  let ?s = "\<lambda>es. relay_run mtu cfg es (new_relay c0 ids)"
  have "(\<forall>i < ud_next (?s es). heard es (us_remote (ud_heap (?s es) i))) \<and>
     (\<forall>(a, d) \<in> set (rl_down (?s es)). \<exists>sid u. Reply sid u \<in> set es \<and> d = take mtu (turn_data u) \<and> d \<noteq> [] \<and>
        sid < ud_next (?s es) \<and> us_remote (ud_heap (?s es) sid) = a)"
  proof (induction es rule: rev_induct)
    case (snoc e es)
    let ?o = "?s es" and ?n = "relay_step mtu cfg e (?s es)"
    have ok: "relay_ok ?o" by (rule relay_run_ok [OF new_relay_ok])
    have same: "same_sources ?o ?n" using relay_step_effect [OF ok] by blast
    have h: "heard (es @ [e]) (us_remote (ud_heap ?n i))" if i: "i < ud_next ?n" for i
    proof (cases "i < ud_next ?o")
      case True
      then show ?thesis using snoc same by (auto simp: heard_def same_sources_def)
    next
      case False
      from relay_step_new [OF ok i this] have "\<exists>raw now d w. Incoming (us_remote (ud_heap ?n i)) raw now d w \<in> set (es @ [e])"
        by (metis in_set_conv_decomp)
      then show ?thesis unfolding heard_iff .
    qed
    have "\<exists>sid u. Reply sid u \<in> set (es @ [e]) \<and> d = take mtu (turn_data u) \<and> d \<noteq> [] \<and>
        sid < ud_next ?n \<and> us_remote (ud_heap ?n sid) = a" if x: "(a, d) \<in> set (rl_down ?n)" for a d
    proof (cases "(a, d) \<in> set (rl_down ?o)")
      case True
      then obtain sid u where "Reply sid u \<in> set es" "d = take mtu (turn_data u)" "d \<noteq> []" "sid < ud_next ?o"
          "us_remote (ud_heap ?o sid) = a"
        using snoc by fastforce
      then show ?thesis using same by (intro exI [of _ sid] exI [of _ u]) (auto simp: same_sources_def)
    next
      case False
      from down_step [OF ok x this] obtain sid u where "e = Reply sid u" "sid < ud_next ?o"
          "a = us_remote (ud_heap ?o sid)" "d = take mtu (turn_data u)" "d \<noteq> []" by auto
      then show ?thesis using same by (intro exI [of _ sid] exI [of _ u]) (auto simp: same_sources_def)
    qed
    with h show ?case by auto
  qed (simp add: new_relay_def heard_def)
  with assms show ?thesis by fastforce
qed

subsection \<open>A session without its reverse goroutine\<close>

text \<open>Events that leave the session of a source alone: its datagrams are written, and no sweep finds it idle.\<close>

fun keeps_session :: "udp_cfg \<Rightarrow> string \<Rightarrow> nat \<Rightarrow> relay_event \<Rightarrow> udp_relay \<Rightarrow> bool" where
  "keeps_session cfg k sid (Incoming k' raw now d w) s = (k' = k \<longrightarrow> w)"
| "keeps_session cfg k sid (Reply i u) s = True"
| "keeps_session cfg k sid (Sweep now es) s = (\<not> udp_idle cfg now sid s)"

fun keeps_all :: "nat \<Rightarrow> udp_cfg \<Rightarrow> string \<Rightarrow> nat \<Rightarrow> relay_event list \<Rightarrow> udp_relay \<Rightarrow> bool" where
  "keeps_all mtu cfg k sid [] s = True"
| "keeps_all mtu cfg k sid (e # es) s \<longleftrightarrow> keeps_session cfg k sid e s \<and> keeps_all mtu cfg k sid es (relay_step mtu cfg e s)"

text \<open>The session is the one of its source, open, and nobody reads its replies.\<close>

definition deaf :: "string \<Rightarrow> nat \<Rightarrow> udp_relay \<Rightarrow> bool" where
  "deaf k sid s \<longleftrightarrow> relay_ok s \<and> sm_load (ud_map s) k = Some sid \<and> \<not> us_conn_closed (ud_heap s sid) \<and> sid \<notin> rl_reverse s"

lemma deaf_other:
  assumes "deaf k sid s" "sm_load (ud_map s) k' = Some i" "k' \<noteq> k"
  shows "i \<noteq> sid"
  using assms load_known [of s k sid] load_known [of s k' i] by (auto simp: deaf_def)

lemma close_other: "i \<noteq> sid \<Longrightarrow> ud_heap (close_udp_session i s) sid = ud_heap s sid"
  by (simp add: close_udp_session_def Let_def)

lemma forward_deaf:
  assumes "sm_load (ud_map s) k = Some sid" "\<not> us_conn_closed (ud_heap s sid)" "k' = k \<longleftrightarrow> i = sid" "k' = k \<longrightarrow> w"
  shows "sm_load (ud_map (relay_forward k' i data now w s)) k = Some sid \<and>
     \<not> us_conn_closed (ud_heap (relay_forward k' i data now w s) sid) \<and>
     rl_reverse (relay_forward k' i data now w s) = rl_reverse s"
  using assms
  by (auto simp: relay_forward_def Let_def udp_write_ok_def relay_effects sm.load_delete close_other)

lemma sweep_deaf:
  assumes "\<forall>(k', i) \<in> set es. k' = k \<longleftrightarrow> i = sid" "sm_load (ud_map s) k = Some sid" "\<not> us_conn_closed (ud_heap s sid)"
    "\<not> udp_idle cfg now sid s"
  shows "sm_load (ud_map (udp_sweep cfg now es s)) k = Some sid \<and> \<not> us_conn_closed (ud_heap (udp_sweep cfg now es s) sid)"
  using assms
proof (induction es arbitrary: s)
  case (Cons e es)
  obtain k' i where e: "e = (k', i)" by (cases e)
  show ?case
  proof (cases "udp_idle cfg now i s")
    case True
    then have i: "i \<noteq> sid" "k' \<noteq> k" using Cons.prems e by auto
    let ?t = "udp_delete k' (close_udp_session i s)"
    have "sm_load (ud_map ?t) k = Some sid" "ud_heap ?t sid = ud_heap s sid"
      using i Cons.prems(2) by (simp_all add: relay_effects sm.load_delete close_other)
    then show ?thesis
      using Cons.IH [of ?t] Cons.prems True by (simp add: udp_sweep_def e udp_idle_def)
  next
    case False
    then show ?thesis using Cons.IH [of s] Cons.prems by (simp add: udp_sweep_def e)
  qed
qed (simp add: udp_sweep_def)

lemma deaf_step:
  assumes "deaf k sid s" "keeps_session cfg k sid e s"
  shows "deaf k sid (relay_step mtu cfg e s)"
proof -
  have ok: "relay_ok (relay_step mtu cfg e s)" using relay_step_effect assms(1) by (simp add: deaf_def)
  have s: "relay_ok s" "sm_load (ud_map s) k = Some sid" "\<not> us_conn_closed (ud_heap s sid)" "sid \<notin> rl_reverse s"
    using assms(1) by (simp_all add: deaf_def)
  have n: "sid < ud_next s" using load_known [OF s(1,2)] by simp
  show ?thesis
  proof (cases e)
    case (Incoming k' raw now d w)
    show ?thesis
    proof (cases "take mtu raw = [] \<or> (sm_load (ud_map s) k' = None \<and> \<not> d)")
      case True
      then have "relay_step mtu cfg e s = s" using Incoming by (auto simp: relay_step_def relay_datagram_def Let_def)
      then show ?thesis using assms(1) by simp
    next
      case False
      show ?thesis
      proof (cases "sm_load (ud_map s) k'")
        case (Some i)
        have "k' = k \<longleftrightarrow> i = sid" using deaf_other [OF assms(1) Some] Some s(2) by auto
        moreover have "relay_step mtu cfg e s = relay_forward k' i (take mtu raw) now w s"
          using False Some Incoming by (simp add: relay_step_def relay_datagram_def)
        ultimately show ?thesis
          using forward_deaf [OF s(2,3), of k' i w "take mtu raw" now] assms(2) Incoming ok s(4) by (simp add: deaf_def)
      next
        case None
        obtain i t where c: "udp_create cfg k' now s = (i, t)" by (cases "udp_create cfg k' now s")
        let ?t = "(udp_store k' i t)\<lparr>rl_reverse := insert i (rl_reverse t)\<rparr>"
        have i: "i = ud_next s" "k' \<noteq> k" using udp_create_next [OF c] None s(2) by auto
        have m: "sm_load (ud_map ?t) k = Some sid" "ud_heap ?t sid = ud_heap s sid" "rl_reverse ?t = insert i (rl_reverse s)"
          using udp_create_map [OF c] udp_create_heap [OF c] create_relay [OF c] i n s(2)
          by (auto simp: relay_effects sm.load_store)
        have "relay_step mtu cfg e s = relay_forward k' i (take mtu raw) now w ?t"
          using False None c Incoming by (simp add: relay_step_def relay_datagram_def)
        then show ?thesis
          using forward_deaf [OF m(1), of k' i w "take mtu raw" now] m i n s ok by (simp add: deaf_def)
      qed
    qed
  next
    case (Reply i u)
    then show ?thesis using assms(1) ok
      by (auto simp: relay_step_def relay_reply_def deaf_def split: prod.splits)
  next
    case (Sweep now es)
    show ?thesis
    proof (cases "mset es = mset (ud_map s)")
      case True
      then have "set es = set (ud_map s)" by (metis set_mset_mset)
      moreover have "k' = k \<longleftrightarrow> i = sid" if "(k', i) \<in> set (ud_map s)" for k' i
      proof -
        have "sm_load (ud_map s) k' = Some i" using that sm.load_entries [of "ud_map s" k' i] s(1) by (simp add: relay_ok_def)
        then show ?thesis using deaf_other [OF assms(1)] s(2) by auto
      qed
      ultimately have "\<forall>(k', i) \<in> set es. k' = k \<longleftrightarrow> i = sid" by auto
      from sweep_deaf [OF this s(2,3), of cfg now] show ?thesis
        using assms(2) Sweep True ok s(4) sweep_effect [OF s(1), of cfg now es] by (simp add: relay_step_def deaf_def)
    qed (use assms(1) Sweep in \<open>simp add: relay_step_def\<close>)
  qed
qed

lemma deaf_run: "deaf k sid s \<Longrightarrow> keeps_all mtu cfg k sid es s \<Longrightarrow> deaf k sid (relay_run mtu cfg es s)"
  by (induction es arbitrary: s) (auto intro: deaf_step)

text \<open>
  C25: one error on the way back silences a session for good: when a reverse goroutine ends with a read error while
  its connection stays open, as after an ICMP error of a service that is not up, the receive loop goes on using
  the session, no new goroutine is started for it, and as long as the source keeps sending every reply of the
  upstream is ignored.
\<close>

theorem read_error_silences_session:
  assumes "relay_ok s" "sm_load (ud_map s) k = Some sid" "\<not> us_conn_closed (ud_heap s sid)" "ut_read u = Inl ()"
    "keeps_all mtu cfg k sid es (relay_reply mtu sid u s)"
  shows "(let t = relay_run mtu cfg es (relay_reply mtu sid u s) in
      sm_load (ud_map t) k = Some sid \<and> \<not> us_conn_closed (ud_heap t sid) \<and> relay_reply mtu sid u' t = t)"
proof -
  have "deaf k sid (relay_reply mtu sid u s)"
    using assms(1-4) by (auto simp: deaf_def relay_reply_def relay_ok_def)
  then have "deaf k sid (relay_run mtu cfg es (relay_reply mtu sid u s))"
    using assms(5) by (rule deaf_run)
  then show ?thesis by (simp add: deaf_def relay_reply_def Let_def)
qed

definition demo_udp :: udp_cfg where
  "demo_udp = \<lparr>uc_callback = False, uc_prefix = ''udp'', uc_timeout = 100\<rparr>"

definition demo_relay :: udp_relay where
  "demo_relay = relay_run 1500 demo_udp [Incoming ''a'' [1] 0 True True] (new_relay 0 0)"

definition demo_error :: reply where
  "demo_error = \<lparr>ut_read = Inl (), ut_ctx_err = None, ut_write = None\<rparr>"

lemmas relay_eval = relay_step_def relay_datagram_def relay_forward_def relay_reply_def udp_create_def udp_ops
  udp_write_ok_def udp_idle_def udp_sweep_def sm_load_def sm_store_def sm_delete_def new_relay_def new_session_map_def
  blank_session_def demo_udp_def Let_def

theorem read_error_silences_session_witness:
  "\<exists>t. t = relay_run 1500 demo_udp [Incoming ''a'' [2] 90 True True, Sweep 150 [(''a'', 0)], Incoming ''a'' [3] 180 True True]
       (relay_reply 1500 0 demo_error demo_relay) \<and>
     sm_load (ud_map t) ''a'' = Some 0 \<and>
     relay_reply 1500 0 \<lparr>ut_read = Inr [9], ut_ctx_err = None, ut_write = None\<rparr> t = t"
proof -
  have o: "relay_ok demo_relay" unfolding demo_relay_def by (rule relay_run_ok [OF new_relay_ok])
  have s: "sm_load (ud_map demo_relay) ''a'' = Some 0" "\<not> us_conn_closed (ud_heap demo_relay 0)"
    "ut_read demo_error = Inl ()"
    by (simp_all add: demo_relay_def demo_error_def relay_eval)
  have k: "keeps_all 1500 demo_udp ''a'' 0 [Incoming ''a'' [2] 90 True True, Sweep 150 [(''a'', 0)], Incoming ''a'' [3] 180 True True]
       (relay_reply 1500 0 demo_error demo_relay)"
    by (simp add: demo_relay_def demo_error_def relay_eval)
  from read_error_silences_session [OF o s k, of "\<lparr>ut_read = Inr [9], ut_ctx_err = None, ut_write = None\<rparr>"] show ?thesis
    by (simp add: Let_def)
qed

theorem replies_reach_their_source_witness:
  "heard [Incoming ''a'' [1] 0 True True, Reply 0 \<lparr>ut_read = Inr [9], ut_ctx_err = None, ut_write = None\<rparr>] ''a'' \<and>
   rl_down (relay_run 1500 demo_udp [Incoming ''a'' [1] 0 True True, Reply 0 \<lparr>ut_read = Inr [9], ut_ctx_err = None, ut_write = None\<rparr>]
     (new_relay 0 0)) = [(''a'', [9])]"
proof -
  let ?es = "[Incoming ''a'' [1] 0 True True, Reply 0 \<lparr>ut_read = Inr [9], ut_ctx_err = None, ut_write = None\<rparr>]"
  have d: "rl_down (relay_run 1500 demo_udp ?es (new_relay 0 0)) = [(''a'', [9])]"
    by (simp add: relay_eval)
  then have "(''a'', [9]) \<in> set (rl_down (relay_run 1500 demo_udp ?es (new_relay 0 0)))" by simp
  from replies_reach_their_source [OF this] d show ?thesis by blast
qed

end
