(* ===== verification/Nic.thy ===== *)
theory Nic
  imports Activity
begin

text \<open>
  The link endpoint between the netstack and the Yggdrasil core (\<open>src/netstack/yggdrasil.go\<close>): reading
  packets, writing them, the queue of deferred TCP resets, and the close.

  The packet buffers of gVisor are reference counted; the model keeps, per packet, the references the endpoint
  itself took and not yet gave back (\<open>nc_refs\<close>). The queue is a channel of capacity 100. What a write does
  (the third-party view of the packet may panic, the core may refuse it) is an input; the flag bit that marks
  a reset is gVisor's constant, a parameter.
\<close>

record packet =
  pk_id :: nat
  pk_data_size :: nat
  pk_is_tcp :: bool
  pk_tcp_flags :: byte
  pk_bytes :: bytes

record 'd nic =
  nc_dispatcher :: "'d option"
  nc_delivered :: "('d \<times> bytes) list"
  nc_queue :: "packet list"          \<comment> \<open>\<open>rstPackets\<close>\<close>
  nc_refs :: "nat \<Rightarrow> int"
  nc_written :: "bytes list"
  nc_done :: bool
  nc_rst_done :: bool
  nc_closed_calls :: nat             \<comment> \<open>runs of the body of \<open>closeOnce\<close>\<close>

definition rst_capacity :: nat where
  "rst_capacity = 100"

definition new_nic :: "'d nic" where
  "new_nic = \<lparr>nc_dispatcher = None, nc_delivered = [], nc_queue = [], nc_refs = (\<lambda>_. 0), nc_written = [],
     nc_done = False, nc_rst_done = False, nc_closed_calls = 0\<rparr>"

definition attach :: "'d option \<Rightarrow> 'd nic \<Rightarrow> 'd nic" where
  "attach d n = n\<lparr>nc_dispatcher := d\<rparr>"

definition is_attached :: "'d nic \<Rightarrow> bool" where
  "is_attached n \<longleftrightarrow> nc_dispatcher n \<noteq> None"

text \<open>One turn of the read loop that got a packet: without a dispatcher the packet is dropped.\<close>

definition deliver :: "bytes \<Rightarrow> 'd nic \<Rightarrow> 'd nic" where
  "deliver b n = (case nc_dispatcher n of
       Some d \<Rightarrow> n\<lparr>nc_delivered := nc_delivered n @ [(d, b)]\<rparr> | None \<Rightarrow> n)"

definition inc_ref :: "packet \<Rightarrow> 'd nic \<Rightarrow> 'd nic" where
  "inc_ref p n = n\<lparr>nc_refs := (nc_refs n)(pk_id p := nc_refs n (pk_id p) + 1)\<rparr>"

definition dec_ref :: "packet \<Rightarrow> 'd nic \<Rightarrow> 'd nic" where
  "dec_ref p n = n\<lparr>nc_refs := (nc_refs n)(pk_id p := nc_refs n (pk_id p) - 1)\<rparr>"

datatype write_outcome = WriteOk | ViewReadError | CoreWriteError | ViewPanics

datatype tcpip_error = ErrAborted

text \<open>The recovered panic returns the zero value of the result, which is no error.\<close>

definition write_packet :: "write_outcome \<Rightarrow> packet \<Rightarrow> 'd nic \<Rightarrow> tcpip_error option \<times> 'd nic" where
  "write_packet w p n = (case w of
       WriteOk \<Rightarrow> (None, n\<lparr>nc_written := nc_written n @ [pk_bytes p]\<rparr>)
     | ViewReadError \<Rightarrow> (Some ErrAborted, n)
     | CoreWriteError \<Rightarrow> (Some ErrAborted, n)
     | ViewPanics \<Rightarrow> (None, n))"

definition is_bare_rst :: "byte \<Rightarrow> packet \<Rightarrow> bool" where
  "is_bare_rst rst p \<longleftrightarrow> pk_data_size p = 0 \<and> pk_is_tcp p \<and> and (pk_tcp_flags p) rst = rst"

text \<open>The send on the channel without blocking: a full queue drops the packet and the reference taken for it.\<close>

definition enqueue_rst :: "packet \<Rightarrow> 'd nic \<Rightarrow> 'd nic" where
  "enqueue_rst p n = (let m = inc_ref p n in
     if length (nc_queue m) < rst_capacity then m\<lparr>nc_queue := nc_queue m @ [p]\<rparr> else dec_ref p m)"

fun write_packets_from ::
  "byte \<Rightarrow> (packet \<Rightarrow> write_outcome) \<Rightarrow> nat \<Rightarrow> packet list \<Rightarrow> 'd nic \<Rightarrow> (nat \<times> tcpip_error option) \<times> 'd nic" where
  "write_packets_from rst w i [] n = ((i, None), n)"
| "write_packets_from rst w i (p # ps) n =
     (if is_bare_rst rst p then write_packets_from rst w (i + 1) ps (enqueue_rst p n)
      else (case write_packet (w p) p n of
         (Some e, m) \<Rightarrow> ((i, Some e), m)
       | (None, m) \<Rightarrow> write_packets_from rst w (i + 1) ps m))"

definition write_packets ::
  "byte \<Rightarrow> (packet \<Rightarrow> write_outcome) \<Rightarrow> packet list \<Rightarrow> 'd nic \<Rightarrow> (nat \<times> tcpip_error option) \<times> 'd nic" where
  "write_packets rst w ps n = write_packets_from rst w 0 ps n"

text \<open>The goroutine of the deferred resets: a turn that takes a packet, and the drain when \<open>done\<close> is closed.\<close>

definition rst_turn :: "write_outcome \<Rightarrow> 'd nic \<Rightarrow> 'd nic" where
  "rst_turn w n =
     (if nc_rst_done n then n
      else (case nc_queue n of
         [] \<Rightarrow> n
       | p # ps \<Rightarrow> dec_ref p (snd (write_packet w p (n\<lparr>nc_queue := ps\<rparr>)))))"

fun drain :: "packet list \<Rightarrow> 'd nic \<Rightarrow> 'd nic" where
  "drain [] n = n"
| "drain (p # ps) n = drain ps (dec_ref p n)"

definition rst_drain :: "'d nic \<Rightarrow> 'd nic" where
  "rst_drain n =
     (if nc_done n \<and> \<not> nc_rst_done n then (drain (nc_queue n) n)\<lparr>nc_queue := [], nc_rst_done := True\<rparr> else n)"

text \<open>\<open>Close\<close> up to its wait for the two goroutines; a second call does nothing.\<close>

definition close_nic :: "'d nic \<Rightarrow> 'd nic" where
  "close_nic n = (if nc_done n then n else n\<lparr>nc_done := True, nc_closed_calls := nc_closed_calls n + 1\<rparr>)"

interpretation nic: close_once nc_done "\<lambda>_ :: unit. close_nic"
  by unfold_locales (simp_all add: close_nic_def)

subsection \<open>Runs\<close>

datatype nic_event =
    WriteEvent "packet list" "packet \<Rightarrow> write_outcome"
  | RstTurn write_outcome
  | RstDrain
  | ReadEvent bytes
  | CloseEvent

definition nic_event :: "byte \<Rightarrow> nic_event \<Rightarrow> 'd nic \<Rightarrow> 'd nic" where
  "nic_event rst e n = (case e of
       WriteEvent ps w \<Rightarrow> snd (write_packets rst w ps n)
     | RstTurn w \<Rightarrow> rst_turn w n
     | RstDrain \<Rightarrow> rst_drain n
     | ReadEvent b \<Rightarrow> deliver b n
     | CloseEvent \<Rightarrow> close_nic n)"

subsection \<open>References\<close>

definition queued :: "nat \<Rightarrow> packet list \<Rightarrow> int" where
  "queued i q = int (length (filter (\<lambda>p. pk_id p = i) q))"

text \<open>The endpoint holds one reference for each place a packet has in the queue.\<close>

definition refs_balanced :: "'d nic \<Rightarrow> bool" where
  "refs_balanced n \<longleftrightarrow> (\<forall>i. nc_refs n i = queued i (nc_queue n)) \<and> length (nc_queue n) \<le> rst_capacity"

lemma queued_simps [simp]:
  "queued i [] = 0" "queued i (p # q) = (if pk_id p = i then 1 else 0) + queued i q"
  "queued i (a @ b) = queued i a + queued i b"
  by (simp_all add: queued_def)

lemma enqueue_balanced: "refs_balanced n \<Longrightarrow> refs_balanced (enqueue_rst p n)"
  by (auto simp: refs_balanced_def enqueue_rst_def inc_ref_def dec_ref_def Let_def)

lemma write_packet_queue:
  "nc_queue (snd (write_packet w p n)) = nc_queue n" "nc_refs (snd (write_packet w p n)) = nc_refs n"
  "nc_rst_done (snd (write_packet w p n)) = nc_rst_done n" "nc_done (snd (write_packet w p n)) = nc_done n"
  by (simp_all add: write_packet_def split: write_outcome.split)

lemma write_packets_balanced: "refs_balanced n \<Longrightarrow> refs_balanced (snd (write_packets_from rst w i ps n))"
proof (induction ps arbitrary: i n)
  case (Cons p ps)
  have "refs_balanced (snd (write_packet (w p) p n))"
    using Cons.prems by (simp add: refs_balanced_def write_packet_queue)
  then show ?case
    using Cons enqueue_balanced [OF Cons.prems, of p] by (auto split: prod.split option.split)
qed simp

lemma drain_refs: "nc_refs (drain q n) i = nc_refs n i - queued i q" "nc_queue (drain q n) = nc_queue n"
  by (induction q arbitrary: n) (simp_all add: dec_ref_def)

lemma nic_event_balanced: "refs_balanced n \<Longrightarrow> refs_balanced (nic_event rst e n)"
proof (cases e)
  case (RstTurn w)
  assume "refs_balanced n"
  then show ?thesis
    by (cases "nc_queue n")
       (auto simp: RstTurn nic_event_def rst_turn_def dec_ref_def refs_balanced_def write_packet_queue)
next
  case RstDrain
  assume "refs_balanced n"
  then show ?thesis
    by (simp add: RstDrain nic_event_def rst_drain_def refs_balanced_def drain_refs)
next
  case (WriteEvent ps w)
  assume "refs_balanced n"
  then show ?thesis by (simp add: WriteEvent nic_event_def write_packets_def write_packets_balanced)
qed (auto simp: nic_event_def deliver_def close_nic_def refs_balanced_def split: option.split)

lemma nic_run_balanced: "refs_balanced n \<Longrightarrow> refs_balanced (fold (nic_event rst) es n)"
  by (induction es arbitrary: n) (simp_all add: nic_event_balanced)

text \<open>After the drain nothing takes packets off the queue any more.\<close>

lemma write_packets_queue:
  "\<exists>xs. nc_queue (snd (write_packets_from rst w i ps n)) = nc_queue n @ xs \<and>
     nc_rst_done (snd (write_packets_from rst w i ps n)) = nc_rst_done n"
proof (induction ps arbitrary: i n)
  case (Cons p ps)
  show ?case
  proof (cases "is_bare_rst rst p")
    case True
    have q: "\<exists>xs. nc_queue (enqueue_rst p n) = nc_queue n @ xs \<and> nc_rst_done (enqueue_rst p n) = nc_rst_done n"
      by (simp add: enqueue_rst_def inc_ref_def dec_ref_def Let_def)
    then show ?thesis
      using Cons [of "i + 1" "enqueue_rst p n"] True by auto
  next
    case False
    obtain r m where m: "write_packet (w p) p n = (r, m)" by (cases "write_packet (w p) p n")
    then have "nc_queue m = nc_queue n" "nc_rst_done m = nc_rst_done n"
      using write_packet_queue [of "w p" p n] by simp_all
    then show ?thesis
      using Cons [of "i + 1" m] False m by (cases r) auto
  qed
qed simp

lemma nic_event_after_drain:
  "nc_rst_done n \<Longrightarrow> \<exists>xs. nc_queue (nic_event rst e n) = nc_queue n @ xs \<and> nc_rst_done (nic_event rst e n)"
proof (cases e)
  case (WriteEvent ps w)
  assume "nc_rst_done n"
  then show ?thesis
    using write_packets_queue [of rst w 0 ps n] by (simp add: WriteEvent nic_event_def write_packets_def)
qed (auto simp: nic_event_def rst_turn_def rst_drain_def deliver_def close_nic_def split: option.split)

lemma nic_run_after_drain:
  "nc_rst_done n \<Longrightarrow> \<exists>xs. nc_queue (fold (nic_event rst) es n) = nc_queue n @ xs \<and> nc_rst_done (fold (nic_event rst) es n)"
proof (induction es arbitrary: n)
  case (Cons e es)
  obtain xs where xs: "nc_queue (nic_event rst e n) = nc_queue n @ xs" "nc_rst_done (nic_event rst e n)"
    using nic_event_after_drain [OF Cons.prems] by blast
  from Cons.IH [OF xs(2)] show ?case using xs(1) by auto
qed simp

subsection \<open>Properties\<close>

text \<open>
  C37: references are balanced in every interleaving of writers, the reset goroutine and the close: for each
  packet the endpoint holds exactly one reference per place in the queue, and the queue never has more than
  100 packets.
\<close>

theorem nic_references_balanced:
  "(let n = fold (nic_event rst) es (new_nic :: 'd nic)
    in (\<forall>i. nc_refs n i = queued i (nc_queue n)) \<and> length (nc_queue n) \<le> 100)"
proof -
  have "refs_balanced (new_nic :: 'd nic)" by (simp add: refs_balanced_def new_nic_def)
  from nic_run_balanced [OF this, of rst es] show ?thesis by (simp add: refs_balanced_def rst_capacity_def Let_def)
qed

text \<open>
  \<open>WritePackets\<close> writes the packets in order up to the first one the core refuses, returns its index and the
  error, or the length of the list; bare resets are never written here, and a packet whose view panics is
  skipped and counted as written.
\<close>

theorem write_packets_in_order:
  "(let taken = takeWhile (\<lambda>p. is_bare_rst rst p \<or> w p = WriteOk \<or> w p = ViewPanics) ps;
        (r, m) = write_packets rst w ps n
    in r = (length taken, if taken = ps then None else Some ErrAborted) \<and>
       nc_written m = nc_written n @ map pk_bytes (filter (\<lambda>p. \<not> is_bare_rst rst p \<and> w p = WriteOk) taken))"
proof -
  have "(let taken = takeWhile (\<lambda>p. is_bare_rst rst p \<or> w p = WriteOk \<or> w p = ViewPanics) ps;
        (r, m) = write_packets_from rst w i ps n
    in r = (i + length taken, if taken = ps then None else Some ErrAborted) \<and>
       nc_written m = nc_written n @ map pk_bytes (filter (\<lambda>p. \<not> is_bare_rst rst p \<and> w p = WriteOk) taken))" for i
  proof (induction ps arbitrary: i n)
    case (Cons p ps)
    have e: "nc_written (enqueue_rst p n) = nc_written n"
      by (simp add: enqueue_rst_def inc_ref_def dec_ref_def Let_def)
    show ?case
      using Cons [of "i + 1" "enqueue_rst p n"] Cons [of "i + 1" "snd (write_packet (w p) p n)"]
      by (cases "w p") (auto simp: e write_packet_def Let_def split: prod.splits)
  qed simp
  from this [of 0] show ?thesis by (simp add: write_packets_def)
qed

text \<open>
  a reset written after the drain is lost: the goroutine that would send it has ended, so whatever happens
  later it stays in the queue and its reference is never given back.
\<close>

theorem reset_after_drain_is_kept:
  assumes "nc_rst_done n" "refs_balanced n" "is_bare_rst rst p" "length (nc_queue n) < 100"
  shows "1 \<le> nc_refs (fold (nic_event rst) es (nic_event rst (WriteEvent [p] w) n)) (pk_id p) \<and>
     p \<in> set (nc_queue (fold (nic_event rst) es (nic_event rst (WriteEvent [p] w) n)))"
proof -
  let ?m = "nic_event rst (WriteEvent [p] w) n"
  have m: "?m = enqueue_rst p n" using assms(3) by (simp add: nic_event_def write_packets_def)
  have q: "nc_queue ?m = nc_queue n @ [p]" "nc_rst_done ?m"
    using assms(1,4) by (simp_all add: m enqueue_rst_def inc_ref_def rst_capacity_def Let_def)
  obtain xs where xs: "nc_queue (fold (nic_event rst) es ?m) = nc_queue ?m @ xs"
    using nic_run_after_drain [OF q(2)] by blast
  have "refs_balanced (fold (nic_event rst) es ?m)"
    using assms(2) by (intro nic_run_balanced) (simp add: m enqueue_balanced)
  then have "nc_refs (fold (nic_event rst) es ?m) (pk_id p) = queued (pk_id p) (nc_queue ?m @ xs)"
    by (simp add: refs_balanced_def xs)
  also have "\<dots> \<ge> 1" by (simp add: q queued_def)
  finally show ?thesis using xs q by simp
qed

definition demo_rst :: packet where
  "demo_rst = \<lparr>pk_id = 7, pk_data_size = 0, pk_is_tcp = True, pk_tcp_flags = 4, pk_bytes = []\<rparr>"

theorem reset_after_drain_is_kept_witness:
  "1 \<le> nc_refs (fold (nic_event 4) [RstTurn WriteOk, RstDrain, CloseEvent]
     (nic_event 4 (WriteEvent [demo_rst] (\<lambda>_. WriteOk)) (rst_drain (close_nic (new_nic :: unit nic))))) 7"
proof -
  let ?n = "rst_drain (close_nic (new_nic :: unit nic))"
  have "nc_rst_done ?n" "refs_balanced ?n" "is_bare_rst 4 demo_rst" "length (nc_queue ?n) < 100"
    by (simp_all add: rst_drain_def close_nic_def new_nic_def refs_balanced_def is_bare_rst_def demo_rst_def)
  from reset_after_drain_is_kept [OF this, of "[RstTurn WriteOk, RstDrain, CloseEvent]" "\<lambda>_. WriteOk"]
  show ?thesis by (simp add: demo_rst_def)
qed

end
