(* ===== verification/Netstack.thy ===== *)
theory Netstack
  imports Nic
begin

text \<open>
  Creation and shutdown of the netstack (\<open>src/netstack/netstack.go\<close>, \<open>NewYggdrasilNIC\<close> in
  \<open>src/netstack/yggdrasil.go\<close>). As for the node, the model keeps which objects and goroutines exist: the
  gVisor stack, the core's packet interface, the NIC, and the two goroutines of the NIC, the reader and the
  sender of deferred resets. The answers of gVisor are the record \<open>ns_env\<close>.
\<close>

subsection \<open>State\<close>

datatype ns_res = NsStack | NsPacketIO | NsNic | NsReader | NsResets

record ns_state =
  ns_live :: "ns_res set"
  ns_io_closed :: bool
  ns_done :: bool                            \<comment> \<open>\<open>done\<close> of the NIC is closed\<close>
  ns_routes :: "(bytes \<times> nat) list"          \<comment> \<open>destination and prefix length\<close>
  ns_addresses :: "bytes list"

record ns_env =
  ne_create_nic :: bool
  ne_add_address :: bool
  ne_core_address :: bytes
  ne_mtu :: "64 word"

datatype ns_error = CreateNicFailed | AddAddressFailed

text \<open>\<open>net.ParseCIDR("0200::/7")\<close> and its conversion, which cannot fail.\<close>

definition ygg_subnet :: "bytes \<times> nat" where
  "ygg_subnet = (2 # replicate 15 0, 7)"

definition handle_local :: bool where
  "handle_local = True"

definition live_add :: "ns_res set \<Rightarrow> ns_state \<Rightarrow> ns_state" where
  "live_add rs s = s\<lparr>ns_live := ns_live s \<union> rs\<rparr>"

text \<open>After a failure nothing is taken back: the error returns as it is, the goroutines run on.\<close>

definition new_yggdrasil_nic :: "ns_env \<Rightarrow> ns_state \<Rightarrow> ns_error option \<times> ns_state" where
  "new_yggdrasil_nic env s =
     (let s1 = live_add {NsPacketIO} s in
      if \<not> ne_create_nic env then (Some CreateNicFailed, s1)
      else
        let s2 = live_add {NsNic, NsReader, NsResets} s1; s3 = s2\<lparr>ns_routes := ns_routes s2 @ [ygg_subnet]\<rparr> in
        if handle_local then
          (if ne_add_address env then (None, s3\<lparr>ns_addresses := ns_addresses s3 @ [ne_core_address env]\<rparr>)
           else (Some AddAddressFailed, s3))
        else (None, s3))"

definition new_stack :: ns_state where
  "new_stack = \<lparr>ns_live = {NsStack}, ns_io_closed = False, ns_done = False, ns_routes = [], ns_addresses = []\<rparr>"

text \<open>\<open>CreateYggdrasilNetstack\<close>; as \<open>handle_local\<close> holds, forwarding is not set up.\<close>

definition create_yggdrasil_netstack :: "ns_env \<Rightarrow> ns_error option \<times> ns_state" where
  "create_yggdrasil_netstack env = new_yggdrasil_nic env new_stack"

text \<open>
  What ends without anyone waiting: the reader when its interface is closed or the core has stopped, the sender
  of resets only when \<open>done\<close> is closed.
\<close>

definition settle :: "bool \<Rightarrow> ns_state \<Rightarrow> ns_state" where
  "settle core_stopped s = s\<lparr>ns_live := ns_live s - (if core_stopped \<or> ns_io_closed s then {NsReader} else {}) -
     (if ns_done s then {NsResets} else {})\<rparr>"

text \<open>
  \<open>YggdrasilNetstack.Close\<close> of a netstack that was created; None is a wait that does not end. \<open>read_returns\<close> says
  whether closing the interface makes the pending read return.
\<close>

definition close_yggdrasil_netstack :: "bool \<Rightarrow> ns_state \<Rightarrow> ns_state option" where
  "close_yggdrasil_netstack read_returns s =
     (let s1 = s\<lparr>ns_done := True, ns_io_closed := True, ns_live := ns_live s - {NsPacketIO}\<rparr> in
      if NsReader \<in> ns_live s1 \<and> \<not> read_returns then None
      else Some ((settle True s1)\<lparr>ns_live := ns_live (settle True s1) - {NsNic} - {NsStack}\<rparr>))"

text \<open>The remaining methods of the link endpoint are constants.\<close>

definition nic_mtu :: "64 word \<Rightarrow> 32 word" where
  "nic_mtu m = ucast m"

definition nic_max_header_length :: nat where
  "nic_max_header_length = 40"

definition nic_link_address :: string where
  "nic_link_address = ''''"

definition nic_parse_header :: bool where
  "nic_parse_header = True"

datatype raw_packet_error = ErrNotSupported

definition write_raw_packet :: "packet \<Rightarrow> raw_packet_error option" where
  "write_raw_packet p = Some ErrNotSupported"

subsection \<open>Properties\<close>

text \<open>
  a netstack that was created can be closed completely; one whose address could not be set cannot: its
  goroutine of deferred resets, its NIC, its packet interface and its stack stay for good, even when the core
  stops, and no reference to them is left.
\<close>

theorem failed_netstack_keeps_goroutine:
  assumes "create_yggdrasil_netstack env = (r, s)"
  shows "(case r of
       None \<Rightarrow> \<exists>s'. close_yggdrasil_netstack True s = Some s' \<and> ns_live s' = {}
     | Some AddAddressFailed \<Rightarrow> ns_live (settle True s) = {NsStack, NsPacketIO, NsNic, NsResets}
     | Some CreateNicFailed \<Rightarrow> ns_live (settle True s) = {NsStack, NsPacketIO})"
proof -
  consider "\<not> ne_create_nic env" | "ne_create_nic env" "\<not> ne_add_address env" | "ne_create_nic env" "ne_add_address env"
    by blast
  then show ?thesis
    using assms
    by cases (auto simp: create_yggdrasil_netstack_def new_yggdrasil_nic_def new_stack_def live_add_def settle_def
        close_yggdrasil_netstack_def handle_local_def Let_def)
qed

definition demo_ns_env :: "bool \<Rightarrow> ns_env" where
  "demo_ns_env ok = \<lparr>ne_create_nic = True, ne_add_address = ok, ne_core_address = [2], ne_mtu = 65535\<rparr>"

theorem failed_netstack_keeps_goroutine_witness:
  "NsResets \<in> ns_live (settle True (snd (create_yggdrasil_netstack (demo_ns_env False)))) \<and>
   fst (create_yggdrasil_netstack (demo_ns_env False)) = Some AddAddressFailed"
proof -
  obtain r s where c: "create_yggdrasil_netstack (demo_ns_env False) = (r, s)" "r = Some AddAddressFailed"
    by (simp add: create_yggdrasil_netstack_def new_yggdrasil_nic_def demo_ns_env_def handle_local_def Let_def)
  from failed_netstack_keeps_goroutine [OF c(1)] c show ?thesis by simp
qed

end
