(* ===== verification/GoJson.thy ===== *)
theory GoJson
  imports GoStrings
begin

text \<open>
  The parts of Go's \<open>encoding/json\<close> the program uses on strings: \<open>json.Marshal\<close> of a \<open>[]string\<close>, with its
  HTML-safe escapes and its treatment of UTF-8, and a reader for the result as RFC 8259 prescribes it. A Go
  string is a list of bytes, so it is a char list here. These model the standard library and have no entry in
  the manifest's map.
\<close>

subsection \<open>Quoting\<close>

abbreviation byte_of :: "char \<Rightarrow> nat" where
  "byte_of \<equiv> of_char"

definition quote_char :: char where
  "quote_char = CHR 0x22"

definition backslash :: char where
  "backslash = CHR 0x5C"

text \<open>One ASCII character; \<open>&\<close>, \<open><\<close> and \<open>>\<close> are escaped too.\<close>

definition json_escape :: "char \<Rightarrow> string" where
  "json_escape c = (let n = byte_of c in
     if n = 34 \<or> n = 92 then [backslash, c]
     else if n = 8 then [backslash, CHR ''b'']
     else if n = 9 then [backslash, CHR ''t'']
     else if n = 10 then [backslash, CHR ''n'']
     else if n = 12 then [backslash, CHR ''f'']
     else if n = 13 then [backslash, CHR ''r'']
     else if n < 32 \<or> n = 38 \<or> n = 60 \<or> n = 62
       then backslash # ''u00'' @ [hex_digit (n div 16), hex_digit (n mod 16)]
     else [c])"

text \<open>\<open>utf8.DecodeRuneInString\<close>: the number of bytes of the rune at the front, 0 where the bytes are no rune.\<close>

definition cont_byte :: "char \<Rightarrow> bool" where
  "cont_byte c \<longleftrightarrow> 128 \<le> byte_of c \<and> byte_of c < 192"

fun utf8_size :: "string \<Rightarrow> nat" where
  "utf8_size [] = 0"
| "utf8_size (c # cs) = (let n = byte_of c; m = (case cs of [] \<Rightarrow> 0 | d # _ \<Rightarrow> byte_of d) in
     if n < 128 then 1
     else if 194 \<le> n \<and> n < 224 then (if cs \<noteq> [] \<and> cont_byte (hd cs) then 2 else 0)
     else if 224 \<le> n \<and> n < 240 then
       (if 2 \<le> length cs \<and> list_all cont_byte (take 2 cs) \<and> (n = 224 \<longrightarrow> 160 \<le> m) \<and> (n = 237 \<longrightarrow> m < 160) then 3 else 0)
     else if 240 \<le> n \<and> n < 245 then
       (if 3 \<le> length cs \<and> list_all cont_byte (take 3 cs) \<and> (n = 240 \<longrightarrow> 144 \<le> m) \<and> (n = 244 \<longrightarrow> m < 144) then 4 else 0)
     else 0)"

text \<open>U+2028 and U+2029 are escaped as well; an invalid byte becomes the replacement character.\<close>

function json_body :: "string \<Rightarrow> string" where
  "json_body [] = []"
| "json_body (c # cs) =
     (if byte_of c < 128 then json_escape c @ json_body cs
      else (case utf8_size (c # cs) of
         0 \<Rightarrow> backslash # ''ufffd'' @ json_body cs
       | Suc k \<Rightarrow>
           if byte_of c = 226 \<and> (map byte_of (take 2 cs) = [128, 168] \<or> map byte_of (take 2 cs) = [128, 169])
           then backslash # ''u202'' @ [hex_digit (byte_of (cs ! 1) mod 16)] @ json_body (drop k cs)
           else c # take k cs @ json_body (drop k cs)))"
  by pat_completeness auto
termination by (relation "measure length") auto

definition json_string :: "string \<Rightarrow> string" where
  "json_string s = quote_char # json_body s @ [quote_char]"

definition json_strings :: "string list \<Rightarrow> string" where
  "json_strings ss = ''['' @ go_join '','' (map json_string ss) @ '']''"

subsection \<open>Reading\<close>

definition unescape :: "char \<Rightarrow> char option" where
  "unescape e =
     (if e = quote_char \<or> e = backslash \<or> e = CHR ''/'' then Some e
      else if e = CHR ''b'' then Some (CHR 0x08)
      else if e = CHR ''t'' then Some (CHR 0x09)
      else if e = CHR ''n'' then Some (CHR 0x0A)
      else if e = CHR ''f'' then Some (CHR 0x0C)
      else if e = CHR ''r'' then Some (CHR 0x0D)
      else None)"

definition hex4 :: "string \<Rightarrow> nat option" where
  "hex4 s = (if length s = 4 \<and> list_all (\<lambda>c. hex_val c \<noteq> None) s
     then Some (fold (\<lambda>c v. 16 * v + the (hex_val c)) s 0) else None)"

text \<open>The rest of a string after its opening quote: its text and what follows; of the \<open>\u\<close> escapes only ASCII.\<close>

function json_read :: "string \<Rightarrow> (string \<times> string) option" where
  "json_read [] = None"
| "json_read (c # cs) =
     (if c = quote_char then Some ([], cs)
      else if c = backslash then
        (case cs of
           [] \<Rightarrow> None
         | e # ds \<Rightarrow>
             if e = CHR ''u'' then
               (case hex4 (take 4 ds) of
                  Some v \<Rightarrow> if v < 128 then map_option (apfst (Cons (char_of v))) (json_read (drop 4 ds)) else None
                | None \<Rightarrow> None)
             else (case unescape e of
                 Some x \<Rightarrow> map_option (apfst (Cons x)) (json_read ds)
               | None \<Rightarrow> None))
      else map_option (apfst (Cons c)) (json_read cs))"
  by pat_completeness auto
termination by (relation "measure length") auto

fun json_read_items :: "nat \<Rightarrow> string \<Rightarrow> string list option" where
  "json_read_items 0 s = None"
| "json_read_items (Suc n) s =
     (case s of
        [] \<Rightarrow> None
      | q # r \<Rightarrow> if q \<noteq> quote_char then None
          else (case json_read r of
             Some (t, x # rest) \<Rightarrow>
               if x = CHR '']'' then (if rest = [] then Some [t] else None)
               else if x = CHR '','' then map_option (Cons t) (json_read_items n rest)
               else None
           | _ \<Rightarrow> None))"

definition json_read_strings :: "string \<Rightarrow> string list option" where
  "json_read_strings s = (if s = ''[]'' then Some []
     else (case s of c # r \<Rightarrow> if c = CHR ''['' then json_read_items (length s) r else None | [] \<Rightarrow> None))"

subsection \<open>Round trip\<close>

definition ascii :: "string \<Rightarrow> bool" where
  "ascii s \<longleftrightarrow> list_all (\<lambda>c. byte_of c < 128) s"

lemma byte_of_inj: "byte_of c = byte_of d \<longleftrightarrow> c = d"
  by (metis char_of_char)

lemma quote_backslash [simp]: "quote_char \<noteq> backslash" "backslash \<noteq> quote_char" "CHR ''u'' \<noteq> backslash"
  by (simp_all add: quote_char_def backslash_def)

lemma json_read_plain: "c \<noteq> quote_char \<Longrightarrow> c \<noteq> backslash \<Longrightarrow> json_read (c # cs) = map_option (apfst (Cons c)) (json_read cs)"
  by simp

lemma json_read_u:
  assumes "hex4 [a, b, c, d] = Some v" "v < 128"
  shows "json_read (backslash # CHR ''u'' # a # b # c # d # cs) = map_option (apfst (Cons (char_of v))) (json_read cs)"
  using assms by simp

lemma json_read_short:
  assumes "e \<noteq> CHR ''u''" "unescape e = Some x"
  shows "json_read (backslash # e # cs) = map_option (apfst (Cons x)) (json_read cs)"
  using assms by simp

lemma hex4_byte: "n < 256 \<Longrightarrow> hex4 [CHR ''0'', CHR ''0'', hex_digit (n div 16), hex_digit (n mod 16)] = Some n"
  by (simp add: hex4_def hex_val_hex_digit less_mult_imp_div_less) (simp add: hex_val_def)

declare json_read.simps(2) [simp del]

lemma char_of_byte: "char_of (byte_of c) = c"
  by simp

lemma unescape_letters:
  "unescape CHR ''b'' = Some (CHR 0x08)" "unescape CHR ''t'' = Some (CHR 0x09)" "unescape CHR ''n'' = Some (CHR 0x0A)"
  "unescape CHR ''f'' = Some (CHR 0x0C)" "unescape CHR ''r'' = Some (CHR 0x0D)"
  by (simp_all add: unescape_def quote_char_def backslash_def)

lemma json_read_escape:
  assumes "byte_of c < 128"
  shows "json_read (json_escape c @ s) = map_option (apfst (Cons c)) (json_read s)"
proof -
  let ?n = "byte_of c"
  have c: "c = char_of ?n" by simp
  consider (quoted) "?n = 34 \<or> ?n = 92" | (short) "?n \<in> {8, 9, 10, 12, 13}"
    | (hex) "?n \<noteq> 34 \<and> ?n \<noteq> 92 \<and> ?n \<notin> {8, 9, 10, 12, 13}" "?n < 32 \<or> ?n = 38 \<or> ?n = 60 \<or> ?n = 62"
    | (plain) "?n \<noteq> 34 \<and> ?n \<noteq> 92 \<and> ?n \<notin> {8, 9, 10, 12, 13}" "\<not> (?n < 32 \<or> ?n = 38 \<or> ?n = 60 \<or> ?n = 62)"
    by blast
  then show ?thesis
  proof cases
    case quoted
    then have "unescape c = Some c" "c \<noteq> CHR ''u''"
      using byte_of_inj [of c quote_char] byte_of_inj [of c backslash]
      by (auto simp: unescape_def quote_char_def backslash_def)
    with quoted show ?thesis by (auto simp: json_escape_def json_read_short)
  next
    case short
    have "c = CHR 0x08 \<or> c = CHR 0x09 \<or> c = CHR 0x0A \<or> c = CHR 0x0C \<or> c = CHR 0x0D"
      using short byte_of_inj [of c "CHR 0x08"] byte_of_inj [of c "CHR 0x09"] byte_of_inj [of c "CHR 0x0A"]
        byte_of_inj [of c "CHR 0x0C"] byte_of_inj [of c "CHR 0x0D"] by auto
    then show ?thesis
      by (elim disjE) (simp_all add: json_escape_def json_read_short unescape_letters)
  next
    case hex
    then have "json_escape c = backslash # ''u00'' @ [hex_digit (?n div 16), hex_digit (?n mod 16)]"
      by (simp add: json_escape_def Let_def)
    then show ?thesis using assms hex4_byte [of ?n] by (simp add: json_read_u)
  next
    case plain
    then have "json_escape c = [c]" "c \<noteq> quote_char" "c \<noteq> backslash"
      by (auto simp: json_escape_def Let_def quote_char_def backslash_def)
    then show ?thesis by (simp add: json_read_plain)
  qed
qed

lemma json_read_body: "ascii s \<Longrightarrow> json_read (json_body s @ quote_char # r) = Some (s, r)"
proof (induction s)
  case Nil
  show ?case by (simp add: json_read.simps(2))
next
  case (Cons c s)
  then show ?case by (simp add: ascii_def json_read_escape)
qed

lemma json_read_items_strings:
  "ss \<noteq> [] \<Longrightarrow> list_all ascii ss \<Longrightarrow> length ss \<le> n \<Longrightarrow> json_read_items n (go_join '','' (map json_string ss) @ '']'') = Some ss"
proof (induction ss arbitrary: n)
  case (Cons s ss)
  then obtain k where n: "n = Suc k" by (cases n) auto
  show ?case
  proof (cases "ss = []")
    case True
    with Cons.prems show ?thesis by (simp add: n json_string_def json_read_body)
  next
    case False
    then have "go_join '','' (map json_string (s # ss)) @ '']'' =
        quote_char # json_body s @ quote_char # CHR '','' # go_join '','' (map json_string ss) @ '']''"
      by (simp add: go_join_Cons json_string_def)
    with Cons False n show ?thesis by (simp add: json_read_body)
  qed
qed simp

lemma length_go_join_json: "length ss \<le> length (go_join '','' (map json_string ss))"
proof (induction ss)
  case (Cons s ss)
  then show ?case by (cases "ss = []") (simp_all add: go_join_Cons json_string_def)
qed simp

lemma json_read_strings: "list_all ascii ss \<Longrightarrow> json_read_strings (json_strings ss) = Some ss"
proof (cases "ss = []")
  case False
  then have "json_strings ss \<noteq> ''[]''"
    by (cases ss; cases "tl ss") (simp_all add: json_strings_def json_string_def)
  moreover assume "list_all ascii ss"
  ultimately show ?thesis
    using False json_read_items_strings [of ss "Suc (length ss + 0)"] length_go_join_json [of ss]
      json_read_items_strings [of ss "length (json_strings ss)"]
    by (simp add: json_read_strings_def json_strings_def)
qed (simp add: json_read_strings_def json_strings_def)

end
