(* ===== verification/GoResolve.thy ===== *)
theory GoResolve
  imports MappingSpec
begin

text \<open>
  More of Go's \<open>net\<close> package: \<open>ResolveTCPAddr\<close> and \<open>ResolveUDPAddr\<close>, and the text of an address
  (\<open>IP.String\<close>, \<open>IPNet.String\<close>). Name service, service names and literals with a zone are looked up in the
  environment: \<open>lookup_ip\<close> and \<open>lookup_port\<close>. These model the standard library and have no entry in the
  manifest's map.
\<close>

subsection \<open>Resolving host and port\<close>

datatype resolve_error =
    HostPortError addr_error
  | UnknownPort string
  | InvalidPort string
  | NoSuchHost string

text \<open>\<open>parsePort\<close>: an empty port is 0; None is a service name, which needs a lookup.\<close>

definition parse_port :: "string \<Rightarrow> int option" where
  "parse_port s = (case sign_split s of (neg, d) \<Rightarrow>
     if list_all is_digit d then Some (if neg then - int (dec_val 0 d) else int (dec_val 0 d)) else None)"

definition resolve_port :: "(string \<Rightarrow> int option) \<Rightarrow> string \<Rightarrow> resolve_error + int" where
  "resolve_port lookup_port s =
     (case (case parse_port s of Some p \<Rightarrow> Some p | None \<Rightarrow> lookup_port s) of
        None \<Rightarrow> Inl (UnknownPort s)
      | Some p \<Rightarrow> if 0 \<le> p \<and> p \<le> 65535 then Inr p else Inl (InvalidPort s))"

text \<open>\<open>forResolve\<close>: an address written with a bracket prefers IPv6, any other IPv4; otherwise the first.\<close>

definition pick_addr :: "bool \<Rightarrow> ip list \<Rightarrow> ip option" where
  "pick_addr want6 is =
     (case List.find (\<lambda>i. (to4 (Some i) = None) = want6) is of
        Some i \<Rightarrow> Some i
      | None \<Rightarrow> (case is of [] \<Rightarrow> None | i # _ \<Rightarrow> Some i))"

definition resolve_host :: "(string \<Rightarrow> ip list) \<Rightarrow> bool \<Rightarrow> string \<Rightarrow> resolve_error + ip option" where
  "resolve_host lookup_ip want6 h =
     (if h = '''' then Inr None
      else (case parse_ip h of
         Some b \<Rightarrow> Inr (Some b)
       | None \<Rightarrow> (case pick_addr want6 (lookup_ip h) of
           None \<Rightarrow> Inl (NoSuchHost h)
         | Some b \<Rightarrow> Inr (Some b))))"

definition resolve_addr :: "(string \<Rightarrow> ip list) \<Rightarrow> (string \<Rightarrow> int option) \<Rightarrow> string \<Rightarrow> resolve_error + net_addr" where
  "resolve_addr lookup_ip lookup_port s =
     (if s = '''' then Inr \<lparr>addr_ip = None, addr_port = 0\<rparr>
      else (case split_host_port s of
         Inl e \<Rightarrow> Inl (HostPortError e)
       | Inr (h, p) \<Rightarrow>
           try_bind (resolve_port lookup_port p) (\<lambda>n.
           try_bind (resolve_host lookup_ip (CHR ''['' \<in> set s) h) (\<lambda>i.
           Inr \<lparr>addr_ip = i, addr_port = n\<rparr>))))"

text \<open>What a resolved address looks like, where name service returns IPv4 and IPv6 addresses only.\<close>

definition ip_lookup_ok :: "(string \<Rightarrow> ip list) \<Rightarrow> bool" where
  "ip_lookup_ok lookup_ip \<longleftrightarrow> (\<forall>h. \<forall>i \<in> set (lookup_ip h). length i = 4 \<or> length i = 16)"

definition addr_ok :: "net_addr \<Rightarrow> bool" where
  "addr_ok a \<longleftrightarrow> 0 \<le> addr_port a \<and> addr_port a \<le> 65535 \<and> (\<forall>i. addr_ip a = Some i \<longrightarrow> length i = 4 \<or> length i = 16)"

lemma pick_addr_mem: "pick_addr w is = Some i \<Longrightarrow> i \<in> set is"
  by (auto simp: pick_addr_def find_Some_iff in_set_conv_nth split: option.splits list.splits)

lemma resolve_host_ok:
  "ip_lookup_ok l \<Longrightarrow> resolve_host l w h = Inr (Some i) \<Longrightarrow> length i = 4 \<or> length i = 16"
  by (auto simp: resolve_host_def ip_lookup_ok_def dest: parse_ip_length pick_addr_mem split: if_splits option.splits)

lemma resolve_addr_ok:
  assumes "ip_lookup_ok l" "resolve_addr l p s = Inr a"
  shows "addr_ok a"
proof (cases "s = ''''")
  case True
  with assms(2) show ?thesis by (auto simp: resolve_addr_def addr_ok_def)
next
  case False
  then obtain h q n i where r: "resolve_port p q = Inr n" "resolve_host l (CHR ''['' \<in> set s) h = Inr i"
      "a = \<lparr>addr_ip = i, addr_port = n\<rparr>"
    using assms(2) by (auto simp: resolve_addr_def try_bind_eq_Inr split: sum.splits prod.splits)
  have "0 \<le> n \<and> n \<le> 65535"
    using r(1) by (auto simp: resolve_port_def split: option.splits if_splits)
  then show ?thesis
    using r(2) resolve_host_ok [OF assms(1)] by (auto simp: addr_ok_def r(3))
qed

subsection \<open>Text of an address\<close>

fun hextets :: "bytes \<Rightarrow> nat list" where
  "hextets (a # b # bs) = (256 * unat a + unat b) # hextets bs"
| "hextets _ = []"

definition zeros_at :: "nat list \<Rightarrow> nat" where
  "zeros_at hs = length (takeWhile (\<lambda>h. h = 0) hs)"

text \<open>The first of the longest runs of at least two zero groups: its start and length.\<close>

fun zero_run :: "nat \<Rightarrow> nat \<times> nat \<Rightarrow> nat list \<Rightarrow> nat \<times> nat" where
  "zero_run i best [] = best"
| "zero_run i best (h # hs) =
     (let l = zeros_at (h # hs) in zero_run (i + 1) (if 2 \<le> l \<and> snd best < l then (i, l) else best) hs)"

fun hex_nat :: "nat \<Rightarrow> string" where
  "hex_nat n = (if n < 16 then [hex_digit n] else hex_nat (n div 16) @ [hex_digit (n mod 16)])"

declare hex_nat.simps [simp del]

definition ipv6_string :: "bytes \<Rightarrow> string" where
  "ipv6_string b = (let hs = hextets b; (i, l) = zero_run 0 (0, 0) hs in
     if l = 0 then go_join '':'' (map hex_nat hs)
     else go_join '':'' (map hex_nat (take i hs)) @ ''::'' @ go_join '':'' (map hex_nat (drop (i + l) hs)))"

definition ip_string :: "ip option \<Rightarrow> string" where
  "ip_string a = (case a of
       None \<Rightarrow> ''<nil>''
     | Some b \<Rightarrow>
         if b = [] then ''<nil>''
         else (case to4 (Some b) of
            Some [p, q, r, s] \<Rightarrow> dotted p q r s
          | _ \<Rightarrow> if length b = 16 then ipv6_string b else CHR ''?'' # hex_encode b))"

text \<open>A \<open>net.IPNet\<close> with a canonical mask, by its address and prefix length.\<close>

definition ipnet_string :: "ip option \<times> nat \<Rightarrow> string" where
  "ipnet_string n = (case fst n of None \<Rightarrow> ''<nil>'' | Some b \<Rightarrow> ip_string (Some b) @ ''/'' @ dec_str (snd n))"

end
