(* ===== verification/Mobile.thy ===== *)
theory Mobile
  imports NodePeers GoJson GoResolve
begin

text \<open>
  The mobile bindings (\<open>cmd/embedded/mobile\<close>): the object an application holds. Before \<open>Start\<close> it collects
  a configuration, options and mappings; \<open>Start\<close> builds a node of them, \<open>Stop\<close> closes it. Every method runs
  under the object's mutex, so the object is a record and each method a function on it; the getters take the
  node under the mutex and ask it afterwards, which makes them two steps.

  Callbacks are numbers; a delivered message is the callback together with its arguments. What
  \<open>config.GenerateConfig\<close> returns is an argument of the methods that call it, since it is random. The state of
  the cores is passed beside the object, as in \<open>NodePeers\<close>. The answers of name service, the JSON decoder and the
  core are the record \<open>mobile_lib\<close>.
\<close>

subsection \<open>Log and peer bridges\<close>

definition log_level_trace :: int where
  "log_level_trace = 0"

definition log_level_debug :: int where
  "log_level_debug = 1"

definition log_level_info :: int where
  "log_level_info = 2"

definition log_level_warn :: int where
  "log_level_warn = 3"

definition log_level_error :: int where
  "log_level_error = 4"

lemmas log_levels = log_level_trace_def log_level_debug_def log_level_info_def log_level_warn_def log_level_error_def

definition parse_log_level :: "string \<Rightarrow> int" where
  "parse_log_level level =
     (if level = ''trace'' then log_level_trace
      else if level = ''debug'' then log_level_debug
      else if level = ''warn'' \<or> level = ''warning'' then log_level_warn
      else if level = ''error'' then log_level_error
      else log_level_info)"

record log_bridge =
  lb_cb :: "nat option"
  lb_level :: int

definition new_log_bridge :: log_bridge where
  "new_log_bridge = \<lparr>lb_cb = None, lb_level = log_level_info\<rparr>"

definition lb_set_callback :: "nat option \<Rightarrow> log_bridge \<Rightarrow> log_bridge" where
  "lb_set_callback cb b = b\<lparr>lb_cb := cb\<rparr>"

definition lb_set_level :: "string \<Rightarrow> log_bridge \<Rightarrow> log_bridge" where
  "lb_set_level level b = b\<lparr>lb_level := parse_log_level level\<rparr>"

definition emit :: "int \<Rightarrow> string \<Rightarrow> string \<Rightarrow> log_bridge \<Rightarrow> (nat \<times> string) option" where
  "emit level_val pre msg b = (case lb_cb b of
       None \<Rightarrow> None
     | Some cb \<Rightarrow> if level_val < lb_level b then None else Some (cb, pre @ msg))"

text \<open>The methods of \<open>core.Logger\<close>, applied to the text \<open>fmt\<close> makes of their arguments.\<close>

datatype log_method = Printf | Println | Infof | Infoln | Warnf | Warnln | Errorf | Errorln | Debugf | Debugln | Traceln

fun log_call :: "log_method \<Rightarrow> string \<Rightarrow> log_bridge \<Rightarrow> (nat \<times> string) option" where
  "log_call Printf msg b = emit log_level_info '''' msg b"
| "log_call Println msg b = emit log_level_info '''' msg b"
| "log_call Infof msg b = emit log_level_info ''[INFO]  '' msg b"
| "log_call Infoln msg b = emit log_level_info ''[INFO]  '' msg b"
| "log_call Warnf msg b = emit log_level_warn ''[WARN]  '' msg b"
| "log_call Warnln msg b = emit log_level_warn ''[WARN]  '' msg b"
| "log_call Errorf msg b = emit log_level_error ''[ERROR] '' msg b"
| "log_call Errorln msg b = emit log_level_error ''[ERROR] '' msg b"
| "log_call Debugf msg b = emit log_level_debug ''[DEBUG] '' msg b"
| "log_call Debugln msg b = emit log_level_debug ''[DEBUG] '' msg b"
| "log_call Traceln msg b = emit log_level_trace ''[TRACE] '' msg b"

text \<open>The peer bridge is the callback it forwards to.\<close>

definition new_peer_bridge :: "nat option" where
  "new_peer_bridge = None"

definition pb_set_callback :: "nat option \<Rightarrow> nat option \<Rightarrow> nat option" where
  "pb_set_callback cb b = cb"

declare new_peer_bridge_def [simp] pb_set_callback_def [simp]

definition pb_on_peer_count_changed :: "int \<times> int \<Rightarrow> nat option \<Rightarrow> (nat \<times> int \<times> int) option" where
  "pb_on_peer_count_changed counts cb = map_option (\<lambda>c. (c, counts)) cb"

subsection \<open>Mappings\<close>

datatype mobile_error =
    CannotChangeConfig
  | ConfigParse string
  | InvalidListen string resolve_error
  | InvalidMapped string resolve_error
  | InvalidLocal string resolve_error
  | PortOutOfRange int
  | PeerFailed "string node_peer_error"
  | AlreadyRunning
  | StartNode start_error

record 'c mobile_lib =
  ml_lookup_ip :: "string \<Rightarrow> ip list"
  ml_tcp_service :: "string \<Rightarrow> int option"
  ml_udp_service :: "string \<Rightarrow> int option"
  ml_unmarshal :: "node_config \<Rightarrow> string \<Rightarrow> string + node_config"
  ml_url_parse :: "string \<Rightarrow> string + string"
  ml_core_new :: "core_option list \<Rightarrow> 'c"
  ml_core_add :: "string \<Rightarrow> string \<Rightarrow> 'c \<Rightarrow> string option \<times> 'c"
  ml_core_remove :: "string \<Rightarrow> string \<Rightarrow> 'c \<Rightarrow> string option \<times> 'c"

definition resolve_tcp_addr :: "'c mobile_lib \<Rightarrow> string \<Rightarrow> resolve_error + net_addr" where
  "resolve_tcp_addr lib = resolve_addr (ml_lookup_ip lib) (ml_tcp_service lib)"

definition resolve_udp_addr :: "'c mobile_lib \<Rightarrow> string \<Rightarrow> resolve_error + net_addr" where
  "resolve_udp_addr lib = resolve_addr (ml_lookup_ip lib) (ml_udp_service lib)"

text \<open>\<open>if err != nil\<close> with the error wrapped.\<close>

definition wrap_err :: "('d \<Rightarrow> 'e) \<Rightarrow> 'd + 'a \<Rightarrow> 'e + 'a" where
  "wrap_err f r = map_sum f id r"

definition parse_tcp_mapping :: "'c mobile_lib \<Rightarrow> string \<Rightarrow> string \<Rightarrow> mobile_error + tcp_mapping" where
  "parse_tcp_mapping lib listen mapped =
     try_bind (wrap_err (InvalidListen listen) (resolve_tcp_addr lib listen)) (\<lambda>l.
     try_bind (wrap_err (InvalidMapped mapped) (resolve_tcp_addr lib mapped)) (\<lambda>m.
     Inr \<lparr>tcp_listen = l, tcp_mapped = m\<rparr>))"

definition parse_udp_mapping :: "'c mobile_lib \<Rightarrow> string \<Rightarrow> string \<Rightarrow> mobile_error + udp_mapping" where
  "parse_udp_mapping lib listen mapped =
     try_bind (wrap_err (InvalidListen listen) (resolve_udp_addr lib listen)) (\<lambda>l.
     try_bind (wrap_err (InvalidMapped mapped) (resolve_udp_addr lib mapped)) (\<lambda>m.
     Inr \<lparr>udp_listen = l, udp_mapped = m\<rparr>))"

definition parse_remote_tcp_mapping :: "'c mobile_lib \<Rightarrow> int \<Rightarrow> string \<Rightarrow> mobile_error + tcp_mapping" where
  "parse_remote_tcp_mapping lib port local =
     (if port < 1 \<or> port > 65535 then Inl (PortOutOfRange port)
      else try_bind (wrap_err (InvalidLocal local) (resolve_tcp_addr lib local)) (\<lambda>m.
        Inr \<lparr>tcp_listen = \<lparr>addr_ip = None, addr_port = port\<rparr>, tcp_mapped = m\<rparr>))"

definition parse_remote_udp_mapping :: "'c mobile_lib \<Rightarrow> int \<Rightarrow> string \<Rightarrow> mobile_error + udp_mapping" where
  "parse_remote_udp_mapping lib port local =
     (if port < 1 \<or> port > 65535 then Inl (PortOutOfRange port)
      else try_bind (wrap_err (InvalidLocal local) (resolve_udp_addr lib local)) (\<lambda>m.
        Inr \<lparr>udp_listen = \<lparr>addr_ip = None, addr_port = port\<rparr>, udp_mapped = m\<rparr>))"

subsection \<open>The object\<close>

record mobile =
  mb_node :: "node option"
  mb_node_cfg :: "node_config option"
  mb_log_bridge :: log_bridge
  mb_peer_bridge :: "nat option"
  mb_udp_timeout_ms :: int64
  mb_core_stop_ms :: int64
  mb_multicast :: bool
  mb_local_tcps :: "tcp_mapping list"
  mb_local_udps :: "udp_mapping list"
  mb_remote_tcps :: "tcp_mapping list"
  mb_remote_udps :: "udp_mapping list"

definition new_yggstack :: mobile where
  "new_yggstack = \<lparr>mb_node = None, mb_node_cfg = None, mb_log_bridge = new_log_bridge, mb_peer_bridge = new_peer_bridge,
     mb_udp_timeout_ms = 0, mb_core_stop_ms = 0, mb_multicast = False, mb_local_tcps = [], mb_local_udps = [],
     mb_remote_tcps = [], mb_remote_udps = []\<rparr>"

text \<open>\<open>GenerateConfig()\<close> with the admin socket switched off.\<close>

definition admin_off :: "node_config \<Rightarrow> node_config" where
  "admin_off c = c\<lparr>nc_admin_listen := ''none''\<rparr>"

definition load_config_json ::
  "'c mobile_lib \<Rightarrow> node_config \<Rightarrow> string \<Rightarrow> mobile \<Rightarrow> mobile_error option \<times> mobile" where
  "load_config_json lib generated json y =
     (if mb_node y \<noteq> None then (Some CannotChangeConfig, y)
      else (case ml_unmarshal lib (admin_off generated) json of
         Inl e \<Rightarrow> (Some (ConfigParse e), y)
       | Inr base \<Rightarrow> (None, y\<lparr>mb_node_cfg := Some (admin_off base)\<rparr>)))"

definition set_log_callback :: "nat option \<Rightarrow> mobile \<Rightarrow> mobile" where
  "set_log_callback cb y = y\<lparr>mb_log_bridge := lb_set_callback cb (mb_log_bridge y)\<rparr>"

definition set_log_level :: "string \<Rightarrow> mobile \<Rightarrow> mobile" where
  "set_log_level level y = y\<lparr>mb_log_bridge := lb_set_level level (mb_log_bridge y)\<rparr>"

definition set_peer_change_callback :: "nat option \<Rightarrow> mobile \<Rightarrow> mobile" where
  "set_peer_change_callback cb y = y\<lparr>mb_peer_bridge := pb_set_callback cb (mb_peer_bridge y)\<rparr>"

definition set_core_stop_timeout :: "int64 \<Rightarrow> mobile \<Rightarrow> mobile" where
  "set_core_stop_timeout ms y = y\<lparr>mb_core_stop_ms := ms\<rparr>"

definition set_session_timeout :: "int64 \<Rightarrow> mobile \<Rightarrow> mobile" where
  "set_session_timeout ms y = y\<lparr>mb_udp_timeout_ms := ms\<rparr>"

definition set_multicast_enabled :: "bool \<Rightarrow> mobile \<Rightarrow> mobile" where
  "set_multicast_enabled enabled y = y\<lparr>mb_multicast := enabled\<rparr>"

text \<open>The peers of the configuration: appended unless present, and filtered.\<close>

definition peers_add :: "string \<Rightarrow> string list \<Rightarrow> string list" where
  "peers_add uri ps = (if list_ex (\<lambda>p. p = uri) ps then ps else ps @ [uri])"

definition peers_remove :: "string \<Rightarrow> string list \<Rightarrow> string list" where
  "peers_remove uri ps = filter (\<lambda>p. p \<noteq> uri) ps"

definition mobile_add_peer ::
  "'c mobile_lib \<Rightarrow> node_config \<Rightarrow> string \<Rightarrow> mobile \<Rightarrow> (nat \<Rightarrow> 'c) \<Rightarrow> mobile_error option \<times> mobile \<times> (nat \<Rightarrow> 'c)" where
  "mobile_add_peer lib generated uri y cores = (case mb_node y of
       Some n \<Rightarrow>
         (case node_add_peer (ml_url_parse lib) (ml_core_add lib) n cores uri of
            (r, cores') \<Rightarrow> (map_option PeerFailed r, y, cores'))
     | None \<Rightarrow>
         let c = (case mb_node_cfg y of Some c \<Rightarrow> c | None \<Rightarrow> admin_off generated) in
         (None, y\<lparr>mb_node_cfg := Some (c\<lparr>nc_peers := peers_add uri (nc_peers c)\<rparr>)\<rparr>, cores))"

definition mobile_remove_peer ::
  "'c mobile_lib \<Rightarrow> string \<Rightarrow> mobile \<Rightarrow> (nat \<Rightarrow> 'c) \<Rightarrow> mobile_error option \<times> mobile \<times> (nat \<Rightarrow> 'c)" where
  "mobile_remove_peer lib uri y cores = (case mb_node y of
       Some n \<Rightarrow>
         (case node_remove_peer (ml_url_parse lib) (ml_core_remove lib) n cores uri of
            (r, cores') \<Rightarrow> (map_option PeerFailed r, y, cores'))
     | None \<Rightarrow>
         (None, y\<lparr>mb_node_cfg := map_option (\<lambda>c. c\<lparr>nc_peers := peers_remove uri (nc_peers c)\<rparr>) (mb_node_cfg y)\<rparr>, cores))"

definition add_local_tcp_mapping ::
  "'c mobile_lib \<Rightarrow> string \<Rightarrow> string \<Rightarrow> mobile \<Rightarrow> mobile_error option \<times> mobile" where
  "add_local_tcp_mapping lib local remote y = (case parse_tcp_mapping lib local remote of
       Inl e \<Rightarrow> (Some e, y) | Inr m \<Rightarrow> (None, y\<lparr>mb_local_tcps := mb_local_tcps y @ [m]\<rparr>))"

definition add_local_udp_mapping ::
  "'c mobile_lib \<Rightarrow> string \<Rightarrow> string \<Rightarrow> mobile \<Rightarrow> mobile_error option \<times> mobile" where
  "add_local_udp_mapping lib local remote y = (case parse_udp_mapping lib local remote of
       Inl e \<Rightarrow> (Some e, y) | Inr m \<Rightarrow> (None, y\<lparr>mb_local_udps := mb_local_udps y @ [m]\<rparr>))"

definition add_remote_tcp_mapping ::
  "'c mobile_lib \<Rightarrow> int \<Rightarrow> string \<Rightarrow> mobile \<Rightarrow> mobile_error option \<times> mobile" where
  "add_remote_tcp_mapping lib port local y = (case parse_remote_tcp_mapping lib port local of
       Inl e \<Rightarrow> (Some e, y) | Inr m \<Rightarrow> (None, y\<lparr>mb_remote_tcps := mb_remote_tcps y @ [m]\<rparr>))"

definition add_remote_udp_mapping ::
  "'c mobile_lib \<Rightarrow> int \<Rightarrow> string \<Rightarrow> mobile \<Rightarrow> mobile_error option \<times> mobile" where
  "add_remote_udp_mapping lib port local y = (case parse_remote_udp_mapping lib port local of
       Inl e \<Rightarrow> (Some e, y) | Inr m \<Rightarrow> (None, y\<lparr>mb_remote_udps := mb_remote_udps y @ [m]\<rparr>))"

definition clear_local_mappings :: "mobile \<Rightarrow> mobile" where
  "clear_local_mappings y = y\<lparr>mb_local_tcps := [], mb_local_udps := []\<rparr>"

definition clear_remote_mappings :: "mobile \<Rightarrow> mobile" where
  "clear_remote_mappings y = y\<lparr>mb_remote_tcps := [], mb_remote_udps := []\<rparr>"

subsection \<open>Start and Stop\<close>

text \<open>\<open>time.Duration(ms) * time.Millisecond\<close>, in 64 bits; zero and negative settings leave the default.\<close>

definition duration_ms :: "int64 \<Rightarrow> int" where
  "duration_ms ms = (if 0 < sint ms then sint (ms * 1000000) else 0)"

text \<open>
  \<open>time.NewTicker(timeout / 4)\<close> in \<open>CleanupUDPSessions\<close>, started for every UDP mapping: Go's division truncates,
  and \<open>NewTicker\<close> panics on a period that is not positive.
\<close>

definition cleanup_period :: "int \<Rightarrow> int" where
  "cleanup_period timeout = sgn timeout * (\<bar>timeout\<bar> div 4)"

definition cleanup_panics :: "int \<Rightarrow> bool" where
  "cleanup_panics timeout \<longleftrightarrow> cleanup_period timeout \<le> 0"

definition start_node_cfg :: "node_config \<Rightarrow> mobile \<Rightarrow> node_config" where
  "start_node_cfg generated y = (case mb_node_cfg y of Some c \<Rightarrow> c | None \<Rightarrow> admin_off generated)"

definition start_config :: "node_config \<Rightarrow> string \<Rightarrow> string \<Rightarrow> mobile \<Rightarrow> config_obj" where
  "start_config generated socks nameserver y =
     \<lparr>co_config = Some (start_node_cfg generated y), co_multicast_logger = False, co_socks_addr = socks,
      co_nameserver = nameserver,
      co_local_tcp = map (\<lambda>m. (tcp_listen m, tcp_mapped m)) (mb_local_tcps y),
      co_local_udp = map (\<lambda>m. (udp_listen m, udp_mapped m)) (mb_local_udps y),
      co_remote_tcp = map (\<lambda>m. (tcp_listen m, tcp_mapped m)) (mb_remote_tcps y),
      co_remote_udp = map (\<lambda>m. (udp_listen m, udp_mapped m)) (mb_remote_udps y),
      co_udp_timeout = duration_ms (mb_udp_timeout_ms y), co_activity_callback = False, co_peer_callback = True,
      co_core_stop_timeout = duration_ms (mb_core_stop_ms y), co_low_power = None\<rparr>"

definition mobile_start ::
  "node_config \<Rightarrow> string \<Rightarrow> string \<Rightarrow> bool \<Rightarrow> start_env \<Rightarrow> mobile \<Rightarrow> (mobile_error option \<times> mobile) option" where
  "mobile_start generated socks nameserver hangs env y =
     (if mb_node y \<noteq> None then Some (Some AlreadyRunning, y)
      else (case new_node generated (start_config generated socks nameserver y) hangs env of
         None \<Rightarrow> None
       | Some (Some e, _) \<Rightarrow> Some (Some (StartNode e), y)
       | Some (None, n) \<Rightarrow> Some (None, y\<lparr>mb_node := Some n\<rparr>)))"

text \<open>The closed node is returned beside the object, for the statements about what it leaves.\<close>

definition mobile_stop :: "mobile \<Rightarrow> (node option \<times> mobile) option" where
  "mobile_stop y = (case mb_node y of
       None \<Rightarrow> Some (None, y)
     | Some n \<Rightarrow> map_option (\<lambda>m. (Some m, y\<lparr>mb_node := None\<rparr>)) (close_node n))"

definition is_running :: "mobile \<Rightarrow> bool" where
  "is_running y \<longleftrightarrow> mb_node y \<noteq> None"

subsection \<open>Getters\<close>

text \<open>Each takes the node under the mutex (\<open>mb_node y\<close>) and then asks it; the two steps are separate functions.\<close>

definition address_text :: "(nat \<Rightarrow> bytes) \<Rightarrow> node option \<Rightarrow> string" where
  "address_text core_address node = (case node of
       None \<Rightarrow> '''' | Some n \<Rightarrow> ip_string (node_address core_address n))"

definition subnet_text :: "(nat \<Rightarrow> ip option \<times> nat) \<Rightarrow> node option \<Rightarrow> string" where
  "subnet_text core_subnet node = (case node of
       None \<Rightarrow> '''' | Some n \<Rightarrow> ipnet_string (node_subnet core_subnet (None, 0) n))"

definition public_key_text :: "(nat \<Rightarrow> bytes) \<Rightarrow> node option \<Rightarrow> string" where
  "public_key_text core_key node = (case node of
       None \<Rightarrow> '''' | Some n \<Rightarrow> hex_encode (case node_public_key core_key n of None \<Rightarrow> [] | Some k \<Rightarrow> k))"

definition peers_text :: "('c \<Rightarrow> core_peer list) \<Rightarrow> (nat \<Rightarrow> 'c) \<Rightarrow> node option \<Rightarrow> string" where
  "peers_text core_peers cores node = (case node of
       None \<Rightarrow> ''[]'' | Some n \<Rightarrow> json_strings (map io_uri (node_get_peers core_peers n cores)))"

text \<open>\<open>GetPeersJSON\<close>; \<open>marshal\<close> is \<open>json.Marshal\<close> of the peer records, with its text.\<close>

definition peers_json_text ::
  "(info_obj list \<Rightarrow> string + bytes) \<Rightarrow> ('c \<Rightarrow> core_peer list) \<Rightarrow> (nat \<Rightarrow> 'c) \<Rightarrow> node option \<Rightarrow> string" where
  "peers_json_text marshal core_peers cores node = (case node of
       None \<Rightarrow> ''[]''
     | Some n \<Rightarrow> (case node_get_peers_json marshal core_peers n cores of
           Inl _ \<Rightarrow> ''[]'' | Inr b \<Rightarrow> map (\<lambda>w. char_of (unat w)) b))"

definition mobile_retry_peers :: "('c \<Rightarrow> 'c) \<Rightarrow> (nat \<Rightarrow> 'c) \<Rightarrow> node option \<Rightarrow> (nat \<Rightarrow> 'c)" where
  "mobile_retry_peers core_retry cores node = (case node of
       None \<Rightarrow> cores | Some n \<Rightarrow> node_retry_peers_now core_retry n cores)"

definition trigger_peer_update ::
  "('c \<Rightarrow> core_peer list) \<Rightarrow> (nat \<Rightarrow> 'c) \<Rightarrow> node option \<Rightarrow> nat option \<Rightarrow> (nat \<times> int \<times> int) option" where
  "trigger_peer_update core_peers cores node bridge = (case node of
       None \<Rightarrow> None
     | Some n \<Rightarrow> pb_on_peer_count_changed
         (fold (\<lambda>p (nup, ntotal). (if io_up p then nup + 1 else nup, ntotal + 1)) (node_get_peers core_peers n cores) (0, 0))
         bridge)"

definition mobile_active_connections :: "node option \<Rightarrow> int" where
  "mobile_active_connections node = (case node of None \<Rightarrow> 0 | Some n \<Rightarrow> node_active_connections n)"

subsection \<open>Free functions\<close>

text \<open>\<open>GenerateConfig\<close>, over the encoder \<open>json.MarshalIndent\<close>.\<close>

definition generate_config :: "(node_config \<Rightarrow> 'e + string) \<Rightarrow> node_config \<Rightarrow> 'e + string" where
  "generate_config marshal_indent generated = marshal_indent (admin_off generated)"

datatype quic_error = QuicUrlError string | NotQuic string | NoQuicHost string | QuicDialError string

text \<open>
  \<open>CheckQuicRTT\<close>: \<open>url_parse\<close> gives scheme and host, \<open>dial\<close> the nanoseconds until the connection stands or
  its error. The value beside an error is -1.
\<close>

definition check_quic_rtt ::
  "(string \<Rightarrow> string + string \<times> string) \<Rightarrow> (string \<Rightarrow> string + nat) \<Rightarrow> string \<Rightarrow> int \<times> quic_error option" where
  "check_quic_rtt url_parse dial uri = (case url_parse uri of
       Inl e \<Rightarrow> (-1, Some (QuicUrlError e))
     | Inr (scheme, host) \<Rightarrow>
         if scheme \<noteq> ''quic'' then (-1, Some (NotQuic scheme))
         else if host = '''' then (-1, Some (NoQuicHost uri))
         else (case dial host of
             Inl e \<Rightarrow> (-1, Some (QuicDialError e))
           | Inr ns \<Rightarrow> (int (ns div 1000000), None)))"

lemma check_quic_rtt_error: "fst (check_quic_rtt p d uri) < 0 \<longleftrightarrow> snd (check_quic_rtt p d uri) \<noteq> None"
  by (auto simp: check_quic_rtt_def split: sum.splits)

subsection \<open>Calls\<close>

datatype mobile_call =
    LoadConfigJSON node_config string
  | SetLogCallback "nat option"
  | SetLogLevel string
  | SetPeerChangeCallback "nat option"
  | SetCoreStopTimeout int64
  | SetSessionTimeout int64
  | SetMulticastEnabled bool
  | AddPeer node_config string
  | RemovePeer string
  | AddLocalTCPMapping string string
  | AddLocalUDPMapping string string
  | AddRemoteTCPMapping int string
  | AddRemoteUDPMapping int string
  | ClearLocalMappings
  | ClearRemoteMappings
  | Start node_config string string bool start_env
  | Stop

type_synonym 'c mobile_state = "mobile \<times> (nat \<Rightarrow> 'c)"

text \<open>A successful \<open>Start\<close> has created a core.\<close>

definition started_cores :: "'c mobile_lib \<Rightarrow> mobile_error option \<Rightarrow> mobile \<Rightarrow> (nat \<Rightarrow> 'c) \<Rightarrow> (nat \<Rightarrow> 'c)" where
  "started_cores lib r y cores = (case (r, mb_node y) of
       (None, Some n) \<Rightarrow> install_core (ml_core_new lib) n cores
     | _ \<Rightarrow> cores)"

text \<open>One call: its error and the new state; None is a call that does not return.\<close>

fun mobile_exec :: "'c mobile_lib \<Rightarrow> mobile_call \<Rightarrow> 'c mobile_state \<Rightarrow> (mobile_error option \<times> 'c mobile_state) option" where
  "mobile_exec lib (LoadConfigJSON g json) (y, cores) = Some (case load_config_json lib g json y of (r, y') \<Rightarrow> (r, y', cores))"
| "mobile_exec lib (SetLogCallback cb) (y, cores) = Some (None, set_log_callback cb y, cores)"
| "mobile_exec lib (SetLogLevel l) (y, cores) = Some (None, set_log_level l y, cores)"
| "mobile_exec lib (SetPeerChangeCallback cb) (y, cores) = Some (None, set_peer_change_callback cb y, cores)"
| "mobile_exec lib (SetCoreStopTimeout ms) (y, cores) = Some (None, set_core_stop_timeout ms y, cores)"
| "mobile_exec lib (SetSessionTimeout ms) (y, cores) = Some (None, set_session_timeout ms y, cores)"
| "mobile_exec lib (SetMulticastEnabled b) (y, cores) = Some (None, set_multicast_enabled b y, cores)"
| "mobile_exec lib (AddPeer g uri) (y, cores) = Some (mobile_add_peer lib g uri y cores)"
| "mobile_exec lib (RemovePeer uri) (y, cores) = Some (mobile_remove_peer lib uri y cores)"
| "mobile_exec lib (AddLocalTCPMapping l r) (y, cores) = Some (case add_local_tcp_mapping lib l r y of (e, y') \<Rightarrow> (e, y', cores))"
| "mobile_exec lib (AddLocalUDPMapping l r) (y, cores) = Some (case add_local_udp_mapping lib l r y of (e, y') \<Rightarrow> (e, y', cores))"
| "mobile_exec lib (AddRemoteTCPMapping p l) (y, cores) = Some (case add_remote_tcp_mapping lib p l y of (e, y') \<Rightarrow> (e, y', cores))"
| "mobile_exec lib (AddRemoteUDPMapping p l) (y, cores) = Some (case add_remote_udp_mapping lib p l y of (e, y') \<Rightarrow> (e, y', cores))"
| "mobile_exec lib ClearLocalMappings (y, cores) = Some (None, clear_local_mappings y, cores)"
| "mobile_exec lib ClearRemoteMappings (y, cores) = Some (None, clear_remote_mappings y, cores)"
| "mobile_exec lib (Start g socks ns hangs env) (y, cores) = map_option (\<lambda>(r, y'). (r, y', started_cores lib r y' cores)) (mobile_start g socks ns hangs env y)"
| "mobile_exec lib Stop (y, cores) = map_option (\<lambda>(_, y'). (None, y', cores)) (mobile_stop y)"

fun mobile_run :: "'c mobile_lib \<Rightarrow> mobile_call list \<Rightarrow> 'c mobile_state \<Rightarrow> 'c mobile_state option" where
  "mobile_run lib [] s = Some s"
| "mobile_run lib (c # cs) s = Option.bind (mobile_exec lib c s) (\<lambda>(r, s'). mobile_run lib cs s')"

subsection \<open>Well-formed objects\<close>

definition tcp_addrs_ok :: "tcp_mapping \<Rightarrow> bool" where
  "tcp_addrs_ok m \<longleftrightarrow> addr_ok (tcp_listen m) \<and> addr_ok (tcp_mapped m)"

definition udp_addrs_ok :: "udp_mapping \<Rightarrow> bool" where
  "udp_addrs_ok m \<longleftrightarrow> addr_ok (udp_listen m) \<and> addr_ok (udp_mapped m)"

definition exposes_port :: "net_addr \<Rightarrow> bool" where
  "exposes_port a \<longleftrightarrow> addr_ip a = None \<and> 1 \<le> addr_port a \<and> addr_port a \<le> 65535"

text \<open>A node of the bindings came out of \<open>New\<close>, with a core that does not hang and without an admin socket.\<close>

definition started_node :: "node \<Rightarrow> bool" where
  "started_node n \<longleftrightarrow> (\<exists>g cfg env. new_node g cfg False env = Some (None, n)) \<and> nc_admin_listen (nd_config n) = ''none''"

definition mappings_ok :: "mobile \<Rightarrow> bool" where
  "mappings_ok y \<longleftrightarrow> list_all tcp_addrs_ok (mb_local_tcps y @ mb_remote_tcps y) \<and>
     list_all udp_addrs_ok (mb_local_udps y @ mb_remote_udps y) \<and>
     list_all (\<lambda>m. exposes_port (tcp_listen m)) (mb_remote_tcps y) \<and>
     list_all (\<lambda>m. exposes_port (udp_listen m)) (mb_remote_udps y)"

definition admin_is_off :: "mobile \<Rightarrow> bool" where
  "admin_is_off y \<longleftrightarrow> (\<forall>c. mb_node_cfg y = Some c \<longrightarrow> nc_admin_listen c = ''none'')"

definition mobile_ok :: "mobile \<Rightarrow> bool" where
  "mobile_ok y \<longleftrightarrow> mappings_ok y \<and> admin_is_off y \<and> (\<forall>n. mb_node y = Some n \<longrightarrow> started_node n)"

text \<open>Calls under which the network lets the core stop.\<close>

fun call_fine :: "mobile_call \<Rightarrow> bool" where
  "call_fine (Start g socks ns hangs env) = (\<not> hangs)"
| "call_fine _ = True"

lemma mobile_start_spec:
  assumes "mb_node y = None" "\<not> hangs \<or> duration_ms (mb_core_stop_ms y) \<noteq> 0"
  obtains (ok) n where "mobile_start g socks ns hangs env y = Some (None, y\<lparr>mb_node := Some n\<rparr>)"
      "new_node g (start_config g socks ns y) hangs env = Some (None, n)" "nd_config n = start_node_cfg g y"
  | (error) e m where "mobile_start g socks ns hangs env y = Some (Some (StartNode e), y)"
      "new_node g (start_config g socks ns y) hangs env = Some (Some e, m)" "hangs \<or> nd_live m = {}"
proof -
  have t: "\<not> hangs \<or> co_core_stop_timeout (start_config g socks ns y) \<noteq> 0"
    using assms(2) by (simp add: start_config_def)
  show thesis
  proof (rule new_spec [OF t, of g env])
    fix n assume n: "new_node g (start_config g socks ns y) hangs env = Some (None, n)"
    have "nd_config n = start_node_cfg g y"
      using new_frame(1) [OF n t] by (simp add: effective_config_def start_config_def)
    then show thesis using ok [of n] n assms(1) by (simp add: mobile_start_def)
  next
    fix e m K assume "new_node g (start_config g socks ns y) hangs env = Some (Some e, m)" "nd_live m = K" "hangs \<or> K = {}"
    then show thesis using error [of e m] assms(1) by (simp add: mobile_start_def)
  qed
qed

lemma start_node_cfg_admin: "admin_is_off y \<Longrightarrow> nc_admin_listen (start_node_cfg g y) = ''none''"
  by (auto simp: admin_is_off_def start_node_cfg_def admin_off_def split: option.splits)

lemma mobile_ok_node: "mobile_ok y \<Longrightarrow> started_node n \<Longrightarrow> mobile_ok (y\<lparr>mb_node := Some n\<rparr>)"
  by (simp add: mobile_ok_def mappings_ok_def admin_is_off_def)

lemma mobile_ok_stopped: "mobile_ok y \<Longrightarrow> mobile_ok (y\<lparr>mb_node := None\<rparr>)"
  by (simp add: mobile_ok_def mappings_ok_def admin_is_off_def)

lemma mobile_ok_cfg: "mobile_ok y \<Longrightarrow> nc_admin_listen c = ''none'' \<Longrightarrow> mobile_ok (y\<lparr>mb_node_cfg := Some c\<rparr>)"
  by (simp add: mobile_ok_def mappings_ok_def admin_is_off_def)

lemma start_ok:
  assumes "mobile_ok y"
  shows "\<exists>r y'. mobile_start g socks ns False env y = Some (r, y') \<and> mobile_ok y'"
proof (cases "mb_node y")
  case (Some n)
  with assms show ?thesis by (simp add: mobile_start_def)
next
  case None
  show ?thesis
  proof (rule mobile_start_spec [OF None, of False g socks ns env])
    fix n assume n: "mobile_start g socks ns False env y = Some (None, y\<lparr>mb_node := Some n\<rparr>)"
      "new_node g (start_config g socks ns y) False env = Some (None, n)" "nd_config n = start_node_cfg g y"
    have "started_node n"
      using n(2,3) start_node_cfg_admin [of y g] assms unfolding started_node_def mobile_ok_def by auto
    then show ?thesis using n(1) mobile_ok_node [OF assms] by blast
  qed (use assms in auto)
qed

lemma stop_ok:
  assumes "mobile_ok y"
  shows "\<exists>m y'. mobile_stop y = Some (m, y') \<and> mobile_ok y' \<and> mb_node y' = None \<and>
    (\<forall>n. m = Some n \<longrightarrow> nd_live n = {} \<and> down n)"
proof (cases "mb_node y")
  case None
  with assms show ?thesis by (simp add: mobile_stop_def)
next
  case (Some n)
  then obtain g cfg env where "new_node g cfg False env = Some (None, n)"
    using assms by (auto simp: mobile_ok_def started_node_def)
  then obtain m where "close_node n = Some m" "down m" "nd_live m = {}"
    using close_after_new [of g cfg False env n] by auto
  then show ?thesis
    using Some mobile_ok_stopped [OF assms] by (simp add: mobile_stop_def)
qed

lemma parsed_mappings_ok:
  assumes "ip_lookup_ok (ml_lookup_ip lib)"
  shows "parse_tcp_mapping lib l r = Inr t \<Longrightarrow> tcp_addrs_ok t" "parse_udp_mapping lib l r = Inr u \<Longrightarrow> udp_addrs_ok u"
    "parse_remote_tcp_mapping lib p r = Inr t \<Longrightarrow> tcp_addrs_ok t \<and> exposes_port (tcp_listen t)"
    "parse_remote_udp_mapping lib p r = Inr u \<Longrightarrow> udp_addrs_ok u \<and> exposes_port (udp_listen u)"
proof -
  have w: "wrap_err f (resolve_tcp_addr lib s) = Inr a \<Longrightarrow> addr_ok a"
    "wrap_err f (resolve_udp_addr lib s) = Inr a \<Longrightarrow> addr_ok a" for f :: "resolve_error \<Rightarrow> mobile_error" and s a
    using resolve_addr_ok [OF assms]
    by (cases "resolve_tcp_addr lib s"; cases "resolve_udp_addr lib s";
        auto simp: wrap_err_def resolve_tcp_addr_def resolve_udp_addr_def)+
  show "parse_tcp_mapping lib l r = Inr t \<Longrightarrow> tcp_addrs_ok t" "parse_udp_mapping lib l r = Inr u \<Longrightarrow> udp_addrs_ok u"
    by (auto simp: parse_tcp_mapping_def parse_udp_mapping_def try_bind_eq_Inr tcp_addrs_ok_def udp_addrs_ok_def dest: w)
  show "parse_remote_tcp_mapping lib p r = Inr t \<Longrightarrow> tcp_addrs_ok t \<and> exposes_port (tcp_listen t)"
    "parse_remote_udp_mapping lib p r = Inr u \<Longrightarrow> udp_addrs_ok u \<and> exposes_port (udp_listen u)"
    by (auto simp: parse_remote_tcp_mapping_def parse_remote_udp_mapping_def try_bind_eq_Inr tcp_addrs_ok_def
        udp_addrs_ok_def exposes_port_def addr_ok_def [of "net_addr.make None p"] net_addr.defs dest: w split: if_splits)
      (auto simp: addr_ok_def)
qed

lemma setters_ok:
  assumes "mobile_ok y"
  shows "mobile_ok (set_log_callback cb y)" "mobile_ok (set_log_level l y)" "mobile_ok (set_peer_change_callback cb y)"
    "mobile_ok (set_core_stop_timeout ms y)" "mobile_ok (set_session_timeout ms y)" "mobile_ok (set_multicast_enabled b y)"
    "mobile_ok (clear_local_mappings y)" "mobile_ok (clear_remote_mappings y)"
  using assms
  by (simp_all add: mobile_ok_def mappings_ok_def admin_is_off_def set_log_callback_def set_log_level_def
      set_peer_change_callback_def set_core_stop_timeout_def set_session_timeout_def set_multicast_enabled_def
      clear_local_mappings_def clear_remote_mappings_def)

lemma add_mappings_ok:
  assumes "mobile_ok y" "ip_lookup_ok (ml_lookup_ip lib)"
  shows "mobile_ok (snd (add_local_tcp_mapping lib l r y))" "mobile_ok (snd (add_local_udp_mapping lib l r y))"
    "mobile_ok (snd (add_remote_tcp_mapping lib p r y))" "mobile_ok (snd (add_remote_udp_mapping lib p r y))"
  using assms(1) parsed_mappings_ok [OF assms(2)]
  by (auto simp: mobile_ok_def mappings_ok_def admin_is_off_def add_local_tcp_mapping_def add_local_udp_mapping_def
      add_remote_tcp_mapping_def add_remote_udp_mapping_def split: sum.splits)

lemma load_config_ok: "mobile_ok y \<Longrightarrow> mobile_ok (snd (load_config_json lib g json y))"
  by (auto simp: load_config_json_def admin_off_def intro: mobile_ok_cfg split: sum.splits)

lemma peers_ok:
  assumes "mobile_ok y"
  shows "mobile_ok (fst (snd (mobile_add_peer lib g uri y cores)))" "mobile_ok (fst (snd (mobile_remove_peer lib uri y cores)))"
  using assms
  by (auto simp: mobile_add_peer_def mobile_remove_peer_def mobile_ok_def mappings_ok_def admin_is_off_def admin_off_def
      Let_def split: option.splits prod.splits)

lemma mobile_exec_ok:
  assumes "mobile_ok y" "ip_lookup_ok (ml_lookup_ip lib)" "call_fine c"
  shows "\<exists>r y' cores'. mobile_exec lib c (y, cores) = Some (r, y', cores') \<and> mobile_ok y'"
proof (cases c)
  case (Start g socks ns hangs env)
  then show ?thesis using start_ok [OF assms(1), of g socks ns env] assms(3) by auto
next
  case Stop
  then show ?thesis using stop_ok [OF assms(1)] by auto
next
  case (AddPeer g uri)
  then show ?thesis using peers_ok(1) [OF assms(1), of lib g uri cores] by (cases "mobile_add_peer lib g uri y cores") auto
next
  case (RemovePeer uri)
  then show ?thesis using peers_ok(2) [OF assms(1), of lib uri cores] by (cases "mobile_remove_peer lib uri y cores") auto
qed (use setters_ok [OF assms(1)] add_mappings_ok [OF assms(1,2)] load_config_ok [OF assms(1)] in
    \<open>auto split: prod.splits dest!: arg_cong [of _ _ snd]\<close>)

lemma new_yggstack_ok: "mobile_ok new_yggstack"
  by (simp add: mobile_ok_def mappings_ok_def admin_is_off_def new_yggstack_def)

lemma mobile_run_ok:
  assumes "ip_lookup_ok (ml_lookup_ip lib)"
  shows "mobile_ok y \<Longrightarrow> list_all call_fine cs \<Longrightarrow> \<exists>y' cores'. mobile_run lib cs (y, cores) = Some (y', cores') \<and> mobile_ok y'"
proof (induction cs arbitrary: y cores)
  case (Cons c cs)
  obtain r y1 cores1 where "mobile_exec lib c (y, cores) = Some (r, y1, cores1)" "mobile_ok y1"
    using mobile_exec_ok [OF Cons.prems(1) assms, of c cores] Cons.prems(2) by auto
  then show ?case using Cons.IH [of y1 cores1] Cons.prems(2) by simp
qed simp

subsection \<open>Concrete objects for the examples\<close>

text \<open>No name service; the decoder reads the whole text as the private key and leaves the certificate alone.\<close>

definition demo_lib :: "string list mobile_lib" where
  "demo_lib = \<lparr>ml_lookup_ip = (\<lambda>_. []), ml_tcp_service = (\<lambda>_. None), ml_udp_service = (\<lambda>_. None),
     ml_unmarshal = (\<lambda>c j. Inr (c\<lparr>nc_private_key := map (\<lambda>x. of_nat (byte_of x)) j\<rparr>)),
     ml_url_parse = Inr, ml_core_new = demo_core, ml_core_add = demo_core_add, ml_core_remove = (\<lambda>u i ps. (None, filter (\<lambda>p. p \<noteq> u) ps))\<rparr>"

abbreviation demo_start_call :: mobile_call where
  "demo_start_call \<equiv> Start demo_node_config '':1080'' [] False (demo_env True)"

lemma demo_lookup_ok: "ip_lookup_ok (ml_lookup_ip demo_lib)"
  by (simp add: ip_lookup_ok_def demo_lib_def)

lemmas mobile_eval = mobile_start_def start_config_def start_node_cfg_def new_yggstack_def admin_off_def mobile_stop_def
  load_config_json_def duration_ms_def demo_lib_def

lemma demo_mobile_start:
  "\<exists>n. mobile_start demo_node_config '':1080'' [] False (demo_env True) new_yggstack = Some (None, new_yggstack\<lparr>mb_node := Some n\<rparr>)"
  by (simp add: mobile_eval node_eval demo_defs)

subsection \<open>Properties\<close>





text \<open>
  \<open>Start\<close> is atomic: it refuses exactly when the object is running, and when it fails the object is as
  before, so a later \<open>Start\<close> can succeed; when it succeeds only the node has been added.
\<close>

theorem mobile_start_is_atomic:
  "\<exists>r y'. mobile_start g socks ns False env y = Some (r, y') \<and>
     (r = Some AlreadyRunning \<longleftrightarrow> is_running y) \<and>
     (if r = None then is_running y' \<and> y'\<lparr>mb_node := None\<rparr> = y else y' = y)"
proof (cases "mb_node y")
  case (Some n)
  then show ?thesis by (simp add: mobile_start_def is_running_def)
next
  case None
  then have y: "y\<lparr>mb_node := None\<rparr> = y" by (cases y) simp
  show ?thesis
  proof (rule mobile_start_spec [OF None, of False g socks ns env])
    fix n assume "mobile_start g socks ns False env y = Some (None, y\<lparr>mb_node := Some n\<rparr>)"
    then show ?thesis using None y by (simp add: is_running_def)
  next
    fix e assume "mobile_start g socks ns False env y = Some (Some (StartNode e), y)"
    then show ?thesis using None by (simp add: is_running_def)
  qed simp
qed

lemma sint_small_mult:
  assumes "0 < sint ms" "sint ms \<le> 9223372036854"
  shows "sint (ms * 1000000 :: int64) = sint ms * 1000000"
proof -
  have "ms * 1000000 = word_of_int (sint ms * 1000000)" by simp
  moreover have "sint (word_of_int (sint ms * 1000000) :: int64) = sint ms * 1000000"
    unfolding sint_sbintrunc' by (rule signed_take_bit_int_eq_self) (use assms in auto)
  ultimately show ?thesis by simp
qed

text \<open>
  a core that does not stop cannot block the application, given a stop timeout between one millisecond and 292
  years: \<open>Start\<close> returns, and so does \<open>Stop\<close> of what it started.
\<close>

theorem stop_timeout_unblocks_stop:
  assumes "0 < sint (mb_core_stop_ms y)" "sint (mb_core_stop_ms y) \<le> 9223372036854" "\<not> is_running y"
  shows "\<exists>r y'. mobile_start g socks ns True env y = Some (r, y') \<and>
     (\<exists>m. mobile_stop y' = Some (m, y'\<lparr>mb_node := None\<rparr>))"
proof -
  have d: "duration_ms (mb_core_stop_ms y) \<noteq> 0"
    using assms(1) sint_small_mult [OF assms(1,2)] by (simp add: duration_ms_def)
  have none: "mb_node y = None" using assms(3) by (simp add: is_running_def)
  show ?thesis
  proof (rule mobile_start_spec [OF none, of True g socks ns env])
    fix n assume n: "mobile_start g socks ns True env y = Some (None, y\<lparr>mb_node := Some n\<rparr>)"
      "new_node g (start_config g socks ns y) True env = Some (None, n)"
    obtain m where "close_node n = Some m"
      using close_after_new [OF n(2)] d by (auto simp: start_config_def)
    then show ?thesis using n(1) by (auto simp: mobile_stop_def)
  next
    fix e m assume "mobile_start g socks ns True env y = Some (Some (StartNode e), y)"
    then show ?thesis using none by (cases y) (simp add: mobile_stop_def)
  qed (use d in simp)
qed

theorem stop_timeout_unblocks_stop_witness:
  "\<exists>r y'. mobile_start demo_node_config '':1080'' [] True (demo_env True) (set_core_stop_timeout 3000 new_yggstack) = Some (r, y') \<and>
     (\<exists>m. mobile_stop y' = Some (m, y'\<lparr>mb_node := None\<rparr>))"
  by (rule stop_timeout_unblocks_stop) (simp_all add: set_core_stop_timeout_def new_yggstack_def is_running_def)

text \<open>The peer list of a stopped object as a set; \<open>GenerateConfig\<close> generates no peers.\<close>

definition config_peers :: "mobile \<Rightarrow> string list" where
  "config_peers y = (case mb_node_cfg y of None \<Rightarrow> [] | Some c \<Rightarrow> nc_peers c)"

fun peer_call :: "mobile_call \<Rightarrow> bool" where
  "peer_call (AddPeer g uri) = (nc_peers g = [])"
| "peer_call (RemovePeer uri) = True"
| "peer_call _ = False"

fun peer_set_spec :: "mobile_call \<Rightarrow> string set \<Rightarrow> string set" where
  "peer_set_spec (AddPeer g uri) S = insert uri S"
| "peer_set_spec (RemovePeer uri) S = S - {uri}"
| "peer_set_spec _ S = S"

lemma peers_add_set: "set (peers_add uri ps) = insert uri (set ps)" "distinct ps \<Longrightarrow> distinct (peers_add uri ps)"
  by (auto simp: peers_add_def list_ex_iff)

lemma peers_remove_set: "set (peers_remove uri ps) = set ps - {uri}" "distinct ps \<Longrightarrow> distinct (peers_remove uri ps)"
  by (auto simp: peers_remove_def)

lemma peer_call_step:
  assumes "peer_call c" "mb_node y = None" "distinct (config_peers y)"
  shows "\<exists>y'. mobile_exec lib c (y, cores) = Some (None, y', cores) \<and> mb_node y' = None \<and>
    distinct (config_peers y') \<and> set (config_peers y') = peer_set_spec c (set (config_peers y))"
  using assms
  by (cases c) (auto simp: mobile_add_peer_def mobile_remove_peer_def config_peers_def admin_off_def peers_add_set
      peers_remove_set Let_def split: option.splits)

text \<open>
  C13: before \<open>Start\<close>, adding and removing peers is insertion into and removal from a set: whatever the calls
  and their order, no call fails, the configured peers are the set one expects, and none is listed twice.
\<close>

theorem peer_calls_refine_set:
  assumes "list_all peer_call cs" "mb_node y = None" "distinct (config_peers y)"
  shows "\<exists>y'. mobile_run lib cs (y, cores) = Some (y', cores) \<and> distinct (config_peers y') \<and>
     set (config_peers y') = fold peer_set_spec cs (set (config_peers y))"
  using assms
proof (induction cs arbitrary: y)
  case (Cons c cs)
  obtain y1 where y1: "mobile_exec lib c (y, cores) = Some (None, y1, cores)" "mb_node y1 = None"
      "distinct (config_peers y1)" "set (config_peers y1) = peer_set_spec c (set (config_peers y))"
    using peer_call_step [of c y lib cores] Cons.prems by auto
  then show ?case using Cons.IH [of y1] Cons.prems(1) by simp
qed simp

theorem peer_calls_refine_set_witness:
  "let g = demo_node_config\<lparr>nc_peers := []\<rparr> in
   \<exists>y'. mobile_run demo_lib [AddPeer g ''a'', AddPeer g ''b'', AddPeer g ''a'', RemovePeer ''b''] (new_yggstack, \<lambda>_. []) = Some (y', \<lambda>_. []) \<and>
     distinct (config_peers y') \<and> set (config_peers y') = {''a''}"
proof -
  let ?g = "demo_node_config\<lparr>nc_peers := []\<rparr>"
  show ?thesis
    using peer_calls_refine_set [of "[AddPeer ?g ''a'', AddPeer ?g ''b'', AddPeer ?g ''a'', RemovePeer ''b'']" new_yggstack demo_lib "\<lambda>_. []"]
    by (auto simp: new_yggstack_def config_peers_def Let_def)
qed

text \<open>
  C33: the session timeout reaches the node as set, in nanoseconds, exactly when it is at most 9223372036854 ms, and
  then the cleanup of UDP sessions can run; beyond that the multiplication wraps around, and one millisecond more
  makes the cleanup panic when the first UDP mapping starts.
\<close>

theorem session_timeout_exact_iff:
  assumes "0 < sint ms"
  shows "(co_udp_timeout (start_config g socks ns (set_session_timeout ms y)) = sint ms * 1000000 \<longleftrightarrow> sint ms \<le> 9223372036854) \<and>
     (sint ms \<le> 9223372036854 \<longrightarrow> \<not> cleanup_panics (co_udp_timeout (new_defaults (start_config g socks ns (set_session_timeout ms y))))) \<and>
     cleanup_panics (co_udp_timeout (new_defaults (start_config g socks ns (set_session_timeout 9223372036855 y))))"
proof -
  have t: "co_udp_timeout (start_config g socks ns (set_session_timeout m y)) = duration_ms m" for m
    by (simp add: start_config_def set_session_timeout_def)
  have "sint (ms * 1000000) < 2 ^ 63" using sint_less [of "ms * 1000000"] by simp
  moreover have "duration_ms 9223372036855 = -9223372036854551616" by (simp add: duration_ms_def)
  ultimately show ?thesis
    using assms sint_small_mult [OF assms]
    by (auto simp: t duration_ms_def new_defaults_def cleanup_panics_def cleanup_period_def)
qed

theorem session_timeout_exact_iff_witness:
  "co_udp_timeout (start_config demo_node_config [] [] (set_session_timeout 30000 new_yggstack)) = 30000000000 \<and>
   cleanup_panics (co_udp_timeout (new_defaults (start_config demo_node_config [] [] (set_session_timeout 9223372036855 new_yggstack))))"
  using session_timeout_exact_iff [of 30000 demo_node_config "[]" "[]" new_yggstack] by simp

text \<open>
  the private key of a loaded configuration is not the key the node runs with: the decoder fills in the
  private key but not the certificate (the field is excluded from JSON), and \<open>core.New\<close> is given the
  certificate, which stays the one of the random configuration \<open>LoadConfigJSON\<close> starts from.
\<close>

theorem loaded_key_is_not_the_nodes_key:
  assumes "\<And>c j b. ml_unmarshal lib c j = Inr b \<Longrightarrow> nc_certificate b = nc_certificate c"
    and "ml_unmarshal lib (admin_off gen) json = Inr base"
    and "mobile_run lib [LoadConfigJSON gen json, Start g socks ns False env] (new_yggstack, cores) = Some (y, cores')"
    and "mb_node y = Some n"
  shows "nc_private_key (nd_config n) = nc_private_key base \<and> nc_certificate (nd_config n) = nc_certificate gen"
proof -
  let ?y = "new_yggstack\<lparr>mb_node_cfg := Some (admin_off base)\<rparr>"
  have l: "load_config_json lib gen json new_yggstack = (None, ?y)"
    using assms(2) by (simp add: load_config_json_def new_yggstack_def)
  have none: "mb_node ?y = None" by (simp add: new_yggstack_def)
  have c: "nc_certificate base = nc_certificate gen"
    using assms(1) [OF assms(2)] by (simp add: admin_off_def)
  obtain r where s: "mobile_start g socks ns False env ?y = Some (r, y)"
    using assms(3) l by (auto simp: bind_eq_Some_conv)
  show ?thesis
  proof (rule mobile_start_spec [OF none, of False g socks ns env])
    fix m assume "mobile_start g socks ns False env ?y = Some (None, ?y\<lparr>mb_node := Some m\<rparr>)" "nd_config m = start_node_cfg g ?y"
    then show ?thesis using s assms(4) c by (auto simp: start_node_cfg_def admin_off_def)
  next
    fix e assume "mobile_start g socks ns False env ?y = Some (Some (StartNode e), ?y)"
    then show ?thesis using s assms(4) none by auto
  qed simp
qed

theorem loaded_key_is_not_the_nodes_key_witness:
  "\<exists>y cores' n. mobile_run demo_lib [LoadConfigJSON demo_node_config ''k'', demo_start_call] (new_yggstack, \<lambda>_. []) = Some (y, cores') \<and>
     mb_node y = Some n \<and> nc_private_key (nd_config n) = [107] \<and> nc_certificate (nd_config n) = Some [1]"
proof -
  obtain y cores' n where y: "mobile_run demo_lib [LoadConfigJSON demo_node_config ''k'', demo_start_call] (new_yggstack, \<lambda>_. []) = Some (y, cores')"
      "mb_node y = Some n"
    by (simp add: mobile_eval node_eval demo_defs started_cores_def install_core_def core_options_def)
  have u: "ml_unmarshal demo_lib (admin_off demo_node_config) ''k'' = Inr ((admin_off demo_node_config)\<lparr>nc_private_key := [107]\<rparr>)"
    by (simp add: demo_lib_def)
  have "\<And>c j b. ml_unmarshal demo_lib c j = Inr b \<Longrightarrow> nc_certificate b = nc_certificate c"
    by (auto simp: demo_lib_def)
  from loaded_key_is_not_the_nodes_key [OF this u y] y show ?thesis
    by (auto simp: admin_off_def demo_node_config_def)
qed

lemma mobile_start_keeps_cfg: "mobile_start g socks ns hangs env y = Some (r, y') \<Longrightarrow> mb_node_cfg y' = mb_node_cfg y"
  by (auto simp: mobile_start_def split: if_splits option.splits)

lemma mobile_start_config:
  assumes "mb_node y = None" "mobile_start g socks ns False env y = Some (r, y')" "mb_node y' = Some n"
  shows "nd_config n = start_node_cfg g y"
proof (rule mobile_start_spec [OF assms(1), of False g socks ns env])
  fix m assume "mobile_start g socks ns False env y = Some (None, y\<lparr>mb_node := Some m\<rparr>)" "nd_config m = start_node_cfg g y"
  then show ?thesis using assms(2,3) by auto
next
  fix e assume "mobile_start g socks ns False env y = Some (Some (StartNode e), y)"
  then show ?thesis using assms by auto
qed simp

text \<open>
  a node keeps its configuration, and with it its keys, over a stop and a new start exactly if one was loaded
  or a peer was added before: without, the configuration generated by the first start is not kept, and the
  second start runs with the new random one.
\<close>

theorem restart_uses_stored_config:
  assumes "mobile_ok y" "\<not> is_running y"
    "mobile_run lib [Start g1 s1 n1 False e1, Stop, Start g2 s2 n2 False e2] (y, cores) = Some (y2, cores2)"
    "mb_node y2 = Some n"
  shows "nd_config n = (case mb_node_cfg y of Some c \<Rightarrow> c | None \<Rightarrow> admin_off g2)"
proof -
  obtain r1 y1 r2 y1' where r: "mobile_start g1 s1 n1 False e1 y = Some (r1, y1)"
      "mobile_stop y1 = Some (r2, y1')" "mb_node y1' = None"
      "\<exists>r. mobile_start g2 s2 n2 False e2 y1' = Some (r, y2)"
    using assms(3) start_ok [OF assms(1), of g1 s1 n1 e1] stop_ok
    by (auto simp: bind_eq_Some_conv) (metis prod.inject option.inject)
  have "mb_node_cfg y1' = mb_node_cfg y"
    using r(2) mobile_start_keeps_cfg [OF r(1)] by (auto simp: mobile_stop_def split: option.splits)
  then show ?thesis
    using mobile_start_config [OF r(3)] r(4) assms(4) by (auto simp: start_node_cfg_def)
qed

theorem restart_uses_stored_config_witness:
  "\<exists>y2 cores2 n. mobile_run demo_lib [demo_start_call, Stop, Start (demo_node_config\<lparr>nc_certificate := Some [2]\<rparr>) [] [] False (demo_env True)]
     (new_yggstack, \<lambda>_. []) = Some (y2, cores2) \<and> mb_node y2 = Some n \<and> nc_certificate (nd_config n) = Some [2]"
proof -
  let ?cs = "[demo_start_call, Stop, Start (demo_node_config\<lparr>nc_certificate := Some [2]\<rparr>) [] [] False (demo_env True)]"
  obtain y2 cores2 n where y: "mobile_run demo_lib ?cs (new_yggstack, \<lambda>_. []) = Some (y2, cores2)" "mb_node y2 = Some n"
    by (simp add: mobile_eval node_eval demo_defs started_cores_def install_core_def core_options_def)
  have "\<not> is_running new_yggstack" by (simp add: is_running_def new_yggstack_def)
  from restart_uses_stored_config [OF new_yggstack_ok this y] y show ?thesis
    by (simp add: new_yggstack_def admin_off_def)
qed

text \<open>
  \<open>SetMulticastEnabled\<close> has no effect: the setting changes neither what \<open>Start\<close> returns nor the node it
  starts, which never has multicast.
\<close>

theorem multicast_setting_ignored:
  "mobile_start g socks ns hangs env (set_multicast_enabled b y) =
     map_option (\<lambda>(r, y'). (r, set_multicast_enabled b y')) (mobile_start g socks ns hangs env y) \<and>
   \<not> co_multicast_logger (start_config g socks ns (set_multicast_enabled True y))"
  by (simp add: mobile_start_def set_multicast_enabled_def start_config_def start_node_cfg_def
      split: option.split prod.split)

text \<open>What a level lets through, as ranks; each level passes a message to the callback unchanged or not at all.\<close>

definition delivered :: "string \<Rightarrow> log_method set" where
  "delivered level = {m. log_call m [] \<lparr>lb_cb = Some 0, lb_level = parse_log_level level\<rparr> \<noteq> None}"

text \<open>
  the log levels are nested: \<open>error\<close> passes errors only, \<open>warn\<close> (or \<open>warning\<close>) warnings as well, \<open>info\<close>
  the plain and information messages too, \<open>debug\<close> debugging messages, \<open>trace\<close> everything; any other text means
  \<open>info\<close>.
\<close>

theorem log_levels_nested:
  "delivered ''error'' = {Errorf, Errorln} \<and> delivered ''warn'' = delivered ''error'' \<union> {Warnf, Warnln} \<and>
   delivered ''warning'' = delivered ''warn'' \<and> delivered ''info'' = delivered ''warn'' \<union> {Printf, Println, Infof, Infoln} \<and>
   delivered ''debug'' = delivered ''info'' \<union> {Debugf, Debugln} \<and> delivered ''trace'' = UNIV \<and>
   (\<forall>l. l \<notin> {''trace'', ''debug'', ''warn'', ''warning'', ''error''} \<longrightarrow> delivered l = delivered ''info'')"
proof -
  let ?lev = "\<lambda>m. case m of Printf \<Rightarrow> 2 | Println \<Rightarrow> 2 | Infof \<Rightarrow> 2 | Infoln \<Rightarrow> 2 | Warnf \<Rightarrow> 3 | Warnln \<Rightarrow> 3
    | Errorf \<Rightarrow> 4 | Errorln \<Rightarrow> 4 | Debugf \<Rightarrow> 1 | Debugln \<Rightarrow> 1 | Traceln \<Rightarrow> (0::int)"
  have d: "delivered l = {m. parse_log_level l \<le> ?lev m}" for l
    by (rule set_eqI, case_tac x) (auto simp: delivered_def emit_def log_levels)
  show ?thesis
    unfolding d by (intro conjI) (auto simp: parse_log_level_def log_levels split: log_method.splits, (metis log_method.exhaust)+)
qed

theorem log_levels_nested_witness: "delivered ''loud'' = delivered ''info'' \<and> Debugf \<notin> delivered ''loud''"
  using log_levels_nested by auto

text \<open>
  a getter that took the node before \<open>Stop\<close> and asks it afterwards answers \<open><nil>\<close> for the address and the
  subnet, where the object itself would answer with the empty string.
\<close>

theorem getter_overtaken_by_stop_says_nil:
  assumes "mobile_ok y" "mobile_stop y = Some (Some m, y')"
  shows "address_text core_address (Some m) = ''<nil>'' \<and> subnet_text core_subnet (Some m) = ''<nil>'' \<and>
     public_key_text core_key (Some m) = [] \<and> peers_text core_peers cores (Some m) = ''[]'' \<and>
     address_text core_address (mb_node y') = [] \<and> subnet_text core_subnet (mb_node y') = []"
proof -
  have d: "down m" "mb_node y' = None" using stop_ok [OF assms(1)] assms(2) by auto
  then have c: "nd_core m = None" by (simp add: down_def cleared_def)
  show ?thesis
    by (simp add: d(2) c address_text_def subnet_text_def public_key_text_def peers_text_def node_address_def
        node_subnet_def node_public_key_def node_get_peers_def ip_string_def ipnet_string_def json_strings_def)
qed

theorem getter_overtaken_by_stop_says_nil_witness:
  "\<exists>y m y'. mobile_ok y \<and> mobile_stop y = Some (Some m, y') \<and> address_text (\<lambda>_. []) (Some m) = ''<nil>''"
proof -
  obtain n where n: "mobile_start demo_node_config '':1080'' [] False (demo_env True) new_yggstack = Some (None, new_yggstack\<lparr>mb_node := Some n\<rparr>)"
    using demo_mobile_start by blast
  have ok: "mobile_ok (new_yggstack\<lparr>mb_node := Some n\<rparr>)"
    using start_ok [OF new_yggstack_ok, of demo_node_config "'':1080''" "[]" "demo_env True"] n by auto
  obtain m y' where s: "mobile_stop (new_yggstack\<lparr>mb_node := Some n\<rparr>) = Some (Some m, y')"
    using stop_ok [OF ok] by (auto simp: mobile_stop_def)
  show ?thesis using ok s getter_overtaken_by_stop_says_nil [OF ok s, of "\<lambda>_. []"] by blast
qed

text \<open>
  the text \<open>GetPeers\<close> returns is a JSON array from which the application reads back exactly the URIs of the
  peers, in order, for ASCII URIs; it is the empty array when the object is not running.
\<close>

theorem peers_text_reads_back:
  assumes "uris = (case mb_node y of None \<Rightarrow> [] | Some n \<Rightarrow> map io_uri (node_get_peers core_peers n cores))"
    "list_all ascii uris"
  shows "json_read_strings (peers_text core_peers cores (mb_node y)) = Some uris"
proof -
  have "peers_text core_peers cores (mb_node y) = json_strings uris"
    using assms(1) by (cases "mb_node y") (simp_all add: peers_text_def json_strings_def)
  then show ?thesis using json_read_strings [OF assms(2)] by simp
qed

theorem peers_text_reads_back_witness:
  "json_read_strings (peers_text (map demo_peer) (\<lambda>_. [''tls://a:1'', ''tcp://b?x=<&>'']) (Some demo_up)) =
     Some [''tls://a:1'', ''tcp://b?x=<&>'']"
  using peers_text_reads_back [where uris = "[''tls://a:1'', ''tcp://b?x=<&>'']" and y = "new_yggstack\<lparr>mb_node := Some demo_up\<rparr>"
      and core_peers = "map demo_peer" and cores = "\<lambda>_. [''tls://a:1'', ''tcp://b?x=<&>'']"]
  by (simp add: node_get_peers_def get_peers_def demo_up_core peer_info_def demo_peer_def ascii_def)

text \<open>
  unlike the parser of the command line, the bindings take any destination: a mapping without destination, or
  to an IPv4 address, is accepted and stored.
\<close>

theorem mobile_mapping_destination_unchecked:
  assumes "parse_ip ip = Some b" "CHR '':'' \<notin> set ip" "CHR ''['' \<notin> set ip" "CHR '']'' \<notin> set ip" "ip \<noteq> []"
    "p < 65536" "resolve_tcp_addr lib listen = Inr l"
  shows "add_local_tcp_mapping lib listen (ip @ '':'' @ dec_str p) y =
      (None, y\<lparr>mb_local_tcps := mb_local_tcps y @ [\<lparr>tcp_listen = l, tcp_mapped = \<lparr>addr_ip = Some b, addr_port = int p\<rparr>\<rparr>]\<rparr>) \<and>
    add_local_tcp_mapping lib listen [] y =
      (None, y\<lparr>mb_local_tcps := mb_local_tcps y @ [\<lparr>tcp_listen = l, tcp_mapped = \<lparr>addr_ip = None, addr_port = 0\<rparr>\<rparr>]\<rparr>)"
proof -
  have s: "split_host_port (ip @ CHR '':'' # dec_str p) = Inr (ip, dec_str p)"
    using assms by (intro split_host_port_plain) simp_all
  have "parse_port (dec_str p) = Some (int p)"
    by (simp add: parse_port_def sign_split_digits dec_str_digits dec_val_dec_str)
  then have "resolve_tcp_addr lib (ip @ '':'' @ dec_str p) = Inr \<lparr>addr_ip = Some b, addr_port = int p\<rparr>"
    using assms s by (simp add: resolve_tcp_addr_def resolve_addr_def resolve_port_def resolve_host_def)
  then show ?thesis
    using assms(7) by (simp add: add_local_tcp_mapping_def parse_tcp_mapping_def wrap_err_def resolve_tcp_addr_def resolve_addr_def)
qed

theorem mobile_mapping_destination_unchecked_witness:
  "add_local_tcp_mapping demo_lib [] (dotted 127 0 0 1 @ '':'' @ dec_str 80) new_yggstack =
     (None, new_yggstack\<lparr>mb_local_tcps := [\<lparr>tcp_listen = \<lparr>addr_ip = None, addr_port = 0\<rparr>,
        tcp_mapped = \<lparr>addr_ip = Some (v4_in_v6 [127, 0, 0, 1]), addr_port = 80\<rparr>\<rparr>]\<rparr>)"
  using mobile_mapping_destination_unchecked [OF parse_ip_dotted dotted_plain dotted_not_Nil,
      of 80 demo_lib "[]" "\<lparr>addr_ip = None, addr_port = 0\<rparr>" 127 0 0 1 new_yggstack]
  by (simp add: resolve_tcp_addr_def resolve_addr_def new_yggstack_def)

end
