(* ===== verification/GoText.thy ===== *)
theory GoText
  imports GoStrings
begin

text \<open>
  \<open>strings.TrimSpace\<close> and \<open>strings.ToLower\<close>. A Go string is a list of bytes; white space beyond ASCII is
  recognised by its UTF-8 encoding. Lowering is for ASCII, all the program compares with. These model the
  standard library and have no entry in the manifest's map.
\<close>

definition go_spaces :: "string list" where
  "go_spaces = map (map char_of)
     ([[9], [10], [11], [12], [13], [32], [194, 133], [194, 160], [225, 154, 128], [226, 128, 168], [226, 128, 169],
       [226, 128, 175], [226, 129, 159], [227, 128, 128 :: nat]] @ map (\<lambda>k. [226, 128, 128 + k]) [0..<11])"

lemma go_spaces_not_Nil: "p \<in> set go_spaces \<Longrightarrow> p \<noteq> []"
  by (auto simp: go_spaces_def)

function trim_left :: "string \<Rightarrow> string" where
  "trim_left s = (case List.find (has_prefix s) go_spaces of None \<Rightarrow> s | Some p \<Rightarrow> trim_left (drop (length p) s))"
  by pat_completeness auto
termination
proof (relation "measure length")
  fix s p assume "List.find (has_prefix s) go_spaces = Some p"
  then have "p \<in> set go_spaces" "has_prefix s p" by (auto simp: find_Some_iff)
  then show "(drop (length p) s, s) \<in> measure length"
    using go_spaces_not_Nil [of p] by (cases p; cases s) (auto simp: has_prefix_def)
qed simp

declare trim_left.simps [simp del]

function trim_right :: "string \<Rightarrow> string" where
  "trim_right s = (case List.find (has_suffix s) go_spaces of
     None \<Rightarrow> s | Some p \<Rightarrow> trim_right (take (length s - length p) s))"
  by pat_completeness auto
termination
proof (relation "measure length")
  fix s p assume "List.find (has_suffix s) go_spaces = Some p"
  then have "p \<in> set go_spaces" "has_suffix s p" by (auto simp: find_Some_iff)
  then show "(take (length s - length p) s, s) \<in> measure length"
    using go_spaces_not_Nil [of p] by (cases p; cases s) (auto simp: has_suffix_def)
qed simp

declare trim_right.simps [simp del]

definition trim_space :: "string \<Rightarrow> string" where
  "trim_space s = trim_right (trim_left s)"

definition lower_char :: "char \<Rightarrow> char" where
  "lower_char c = (let n = (of_char c :: nat) in if 65 \<le> n \<and> n \<le> 90 then char_of (n + 32) else c)"

definition to_lower :: "string \<Rightarrow> string" where
  "to_lower s = map lower_char s"

text \<open>Graphic ASCII characters stop the trimming, the space is trimmed.\<close>

definition graphic :: "char \<Rightarrow> bool" where
  "graphic c \<longleftrightarrow> 32 < (of_char c :: nat) \<and> (of_char c :: nat) < 128"

lemma go_spaces_ends:
  "p \<in> set go_spaces \<Longrightarrow> \<not> graphic (hd p) \<and> \<not> graphic (last p) \<and> (of_char (hd p) = (32::nat) \<longrightarrow> length p = 1)"
  by (auto simp: go_spaces_def graphic_def upt_rec_numeral upt_rec)

text \<open>Trimmed text begins and ends with no white space, and trimming is idempotent.\<close>

lemma trim_left_stop: "(\<And>p. p \<in> set go_spaces \<Longrightarrow> \<not> has_prefix s p) \<Longrightarrow> trim_left s = s"
  by (subst trim_left.simps) (auto split: option.splits simp: find_Some_iff)

lemma trim_right_stop: "(\<And>p. p \<in> set go_spaces \<Longrightarrow> \<not> has_suffix s p) \<Longrightarrow> trim_right s = s"
  by (subst trim_right.simps) (auto split: option.splits simp: find_Some_iff)

lemma has_prefix_hd: "has_prefix s p \<Longrightarrow> p \<noteq> [] \<Longrightarrow> s \<noteq> [] \<and> hd s = hd p"
  by (cases p; cases s) (auto simp: has_prefix_def)

lemma has_suffix_ends: "has_suffix s p \<Longrightarrow> p \<noteq> [] \<Longrightarrow> s \<noteq> [] \<and> last s = last p"
  by (auto simp: has_suffix_conv)

lemma trim_left_graphic: "graphic c \<Longrightarrow> trim_left (c # s) = c # s"
  by (rule trim_left_stop) (use go_spaces_ends go_spaces_not_Nil has_prefix_hd in fastforce)

lemma trim_right_graphic: "graphic (last s) \<Longrightarrow> trim_right s = s"
  by (rule trim_right_stop) (use go_spaces_ends go_spaces_not_Nil has_suffix_ends in metis)

lemma trim_left_space: "trim_left (CHR '' '' # s) = trim_left s"
proof -
  have "'' '' \<in> set go_spaces" by (simp add: go_spaces_def char_of_def bit_0)
  moreover have "has_prefix (CHR '' '' # s) '' ''" by (simp add: has_prefix_def)
  ultimately obtain p where p: "List.find (has_prefix (CHR '' '' # s)) go_spaces = Some p"
    by (metis find_None_iff option.exhaust)
  then have "p \<in> set go_spaces" "has_prefix (CHR '' '' # s) p" by (auto simp: find_Some_iff)
  then have h: "p \<noteq> []" "hd p = CHR '' ''" "p \<in> set go_spaces"
    using go_spaces_not_Nil [of p] has_prefix_hd [of "CHR '' '' # s" p] by auto
  then have "of_char (hd p) = (32::nat)" by simp
  then have "length p = 1" using go_spaces_ends [OF h(3)] by simp
  then show ?thesis by (subst trim_left.simps) (simp add: p)
qed

lemma trim_left_no_space: "p \<in> set go_spaces \<Longrightarrow> \<not> has_prefix (trim_left s) p"
proof (induction s rule: trim_left.induct)
  case (1 s)
  then show ?case
    by (subst trim_left.simps) (auto split: option.splits simp: find_None_iff)
qed

lemma trim_right_no_space: "p \<in> set go_spaces \<Longrightarrow> \<not> has_suffix (trim_right s) p"
proof (induction s rule: trim_right.induct)
  case (1 s)
  then show ?case
    by (subst trim_right.simps) (auto split: option.splits simp: find_None_iff)
qed

lemma trim_right_take: "\<exists>n. trim_right s = take n s"
proof (induction s rule: trim_right.induct)
  case (1 s)
  show ?case
  proof (cases "List.find (has_suffix s) go_spaces")
    case None
    then have "trim_right s = take (length s) s" by (subst trim_right.simps) simp
    then show ?thesis by blast
  next
    case (Some p)
    then obtain n where "trim_right (take (length s - length p) s) = take n (take (length s - length p) s)"
      using 1 by blast
    with Some have "trim_right s = take (min n (length s - length p)) s" by (subst trim_right.simps) simp
    then show ?thesis by blast
  qed
qed

lemma trim_space_Nil [simp]: "trim_space [] = []"
proof -
  have "trim_left [] = []" by (rule trim_left_stop) (use go_spaces_not_Nil in \<open>auto simp: has_prefix_def\<close>)
  moreover have "trim_right [] = []"
    by (rule trim_right_stop) (use go_spaces_not_Nil in \<open>auto simp: has_suffix_def\<close>)
  ultimately show ?thesis by (simp add: trim_space_def)
qed

lemma trim_space_idem: "trim_space (trim_space s) = trim_space s"
proof -
  have "\<not> has_prefix (trim_space s) p" if "p \<in> set go_spaces" for p
  proof
    assume "has_prefix (trim_space s) p"
    moreover obtain n where "trim_space s = take n (trim_left s)"
      using trim_right_take [of "trim_left s"] by (auto simp: trim_space_def)
    ultimately have "has_prefix (trim_left s) p"
      by (auto simp: has_prefix_def) (metis take_take min.absorb1 min.absorb2 length_take linorder_le_cases take_all)
    with trim_left_no_space [OF that] show False by blast
  qed
  then have "trim_left (trim_space s) = trim_space s" by (rule trim_left_stop)
  moreover have "trim_right (trim_space s) = trim_space s"
    unfolding trim_space_def by (rule trim_right_stop) (rule trim_right_no_space)
  ultimately show ?thesis by (simp add: trim_space_def)
qed

end
