(* ===== verification/Cli.thy ===== *)
theory Cli
  imports NodeLife GoText
begin

text \<open>
  The command line program (\<open>cmd/yggstack/main.go\<close>): flags, the choice of the log target and level, the choice
  of the configuration, the queries that print something and end, and the configuration the node is started
  with. Printing is the outcome of a run. What depends on third-party code is the record \<open>cli_env\<close>: reading
  a configuration, encoding one, and the address and subnet of a key.
\<close>

subsection \<open>Flags\<close>

record map_flags =
  mf_local_tcp :: "tcp_mapping list"
  mf_local_udp :: "udp_mapping list"
  mf_remote_tcp :: "tcp_mapping list"
  mf_remote_udp :: "udp_mapping list"

datatype map_flag = LocalTcpFlag string | LocalUdpFlag string | RemoteTcpFlag string | RemoteUdpFlag string

text \<open>\<open>flag.Parse\<close> over the mapping flags: \<open>Set\<close> for each occurrence, up to the first error, which ends the program.\<close>

fun set_map_flag :: "map_flag \<Rightarrow> map_flags \<Rightarrow> map_error option \<times> map_flags" where
  "set_map_flag (LocalTcpFlag v) m = (case tcp_local_set (mf_local_tcp m) v of (e, l) \<Rightarrow> (e, m\<lparr>mf_local_tcp := l\<rparr>))"
| "set_map_flag (LocalUdpFlag v) m = (case udp_local_set (mf_local_udp m) v of (e, l) \<Rightarrow> (e, m\<lparr>mf_local_udp := l\<rparr>))"
| "set_map_flag (RemoteTcpFlag v) m = (case tcp_remote_set (mf_remote_tcp m) v of (e, l) \<Rightarrow> (e, m\<lparr>mf_remote_tcp := l\<rparr>))"
| "set_map_flag (RemoteUdpFlag v) m = (case udp_remote_set (mf_remote_udp m) v of (e, l) \<Rightarrow> (e, m\<lparr>mf_remote_udp := l\<rparr>))"

fun parse_map_flags :: "map_flag list \<Rightarrow> map_flags \<Rightarrow> map_error + map_flags" where
  "parse_map_flags [] m = Inr m"
| "parse_map_flags (f # fs) m = (case set_map_flag f m of
     (Some e, _) \<Rightarrow> Inl e
   | (None, m') \<Rightarrow> parse_map_flags fs m')"

definition no_map_flags :: map_flags where
  "no_map_flags = \<lparr>mf_local_tcp = [], mf_local_udp = [], mf_remote_tcp = [], mf_remote_udp = []\<rparr>"

record flags =
  fl_genconf :: bool
  fl_useconf :: bool
  fl_useconffile :: string
  fl_normaliseconf :: bool
  fl_exportkey :: bool
  fl_json :: bool
  fl_autoconf :: bool
  fl_version :: bool
  fl_logto :: string
  fl_address :: bool
  fl_subnet :: bool
  fl_publickey :: bool
  fl_loglevel :: string
  fl_socks :: string
  fl_nameserver :: string
  fl_maps :: map_flags

definition default_flags :: flags where
  "default_flags = \<lparr>fl_genconf = False, fl_useconf = False, fl_useconffile = '''', fl_normaliseconf = False,
     fl_exportkey = False, fl_json = False, fl_autoconf = False, fl_version = False, fl_logto = ''stdout'',
     fl_address = False, fl_subnet = False, fl_publickey = False, fl_loglevel = ''info'', fl_socks = '''',
     fl_nameserver = '''', fl_maps = no_map_flags\<rparr>"

subsection \<open>Logging\<close>

datatype log_target = LogStdout | LogSyslog | LogFile string

text \<open>\<open>syslog_ok\<close> and \<open>file_ok\<close>: can the target be opened. The flag says whether the program fell back to stdout.\<close>

definition choose_logger :: "bool \<Rightarrow> (string \<Rightarrow> bool) \<Rightarrow> string \<Rightarrow> log_target \<times> bool" where
  "choose_logger syslog_ok file_ok logto =
     (if logto = ''stdout'' then (LogStdout, False)
      else if logto = ''syslog'' then (if syslog_ok then (LogSyslog, False) else (LogStdout, True))
      else if file_ok logto then (LogFile logto, False) else (LogStdout, True))"

definition cli_levels :: "string list" where
  "cli_levels = [''error'', ''warn'', ''info'', ''debug'', ''trace'']"

fun enable_until :: "string \<Rightarrow> string list \<Rightarrow> string list" where
  "enable_until level [] = []"
| "enable_until level (l # ls) = l # (if l = level then [] else enable_until level ls)"

definition effective_level :: "string \<Rightarrow> string" where
  "effective_level s = (let l = trim_space (to_lower s) in if list_ex (\<lambda>v. v = l) cli_levels then l else ''info'')"

definition cli_set_log_level :: "string \<Rightarrow> string list" where
  "cli_set_log_level s = enable_until (effective_level s) cli_levels"

definition enabled_levels :: "flags \<Rightarrow> string list" where
  "enabled_levels f = cli_set_log_level (if fl_normaliseconf f then ''error'' else fl_loglevel f)"

subsection \<open>The run\<close>

datatype cli_outcome =
    ShowVersion
  | ShowUsage bool                  \<comment> \<open>with the hint that a configuration is needed\<close>
  | PrintConfig bool node_config    \<comment> \<open>as JSON or HJSON\<close>
  | PrintAddress bytes
  | PrintSubnet bytes
  | PrintPublicKey string
  | PrintKey node_config
  | CliPanic
  | RunNode config_obj

record cli_env =
  ce_stdin :: "node_config \<Rightarrow> string + node_config"
  ce_file :: "string \<Rightarrow> node_config \<Rightarrow> string + node_config"
  ce_encodable :: "bool \<Rightarrow> node_config \<Rightarrow> bool"
  ce_pem :: "node_config \<Rightarrow> bool"
  ce_addr_for_key :: "bytes \<Rightarrow> bytes"
  ce_subnet_for_key :: "bytes \<Rightarrow> bytes"

definition print_config :: "cli_env \<Rightarrow> bool \<Rightarrow> node_config \<Rightarrow> cli_outcome" where
  "print_config env json c = (if ce_encodable env json c then PrintConfig json c else CliPanic)"

definition cfg_admin_none :: "node_config \<Rightarrow> node_config" where
  "cfg_admin_none c = c\<lparr>nc_admin_listen := ''none''\<rparr>"

text \<open>The first switch: an outcome that ends the program, or the configuration to go on with.\<close>

definition choose_config :: "cli_env \<Rightarrow> node_config \<Rightarrow> flags \<Rightarrow> cli_outcome + node_config" where
  "choose_config env generated f =
     (if fl_version f then Inl ShowVersion
      else if fl_autoconf f then Inr (cfg_admin_none generated)
      else if fl_useconf f then (case ce_stdin env generated of Inl _ \<Rightarrow> Inl CliPanic | Inr c \<Rightarrow> Inr c)
      else if fl_useconffile f \<noteq> '''' then (case ce_file env (fl_useconffile f) generated of Inl _ \<Rightarrow> Inl CliPanic | Inr c \<Rightarrow> Inr c)
      else if fl_genconf f then Inl (print_config env (fl_json f) (cfg_admin_none generated))
      else Inl (ShowUsage (fl_address f \<or> fl_subnet f)))"

text \<open>\<open>ed25519.PrivateKey.Public\<close>: the last 32 of the 64 bytes; a key of less than 32 bytes panics.\<close>

definition public_key_of :: "bytes \<Rightarrow> bytes option" where
  "public_key_of k = (if length k < 32 then None else Some (take 32 (drop 32 k @ replicate 32 0)))"

text \<open>The second switch: queries about the configuration. None goes on to start the node.\<close>

definition query :: "cli_env \<Rightarrow> flags \<Rightarrow> bytes \<Rightarrow> node_config \<Rightarrow> cli_outcome option" where
  "query env f key c =
     (if fl_address f then Some (PrintAddress (ce_addr_for_key env key))
      else if fl_subnet f then Some (PrintSubnet (ce_subnet_for_key env key @ replicate 8 0))
      else if fl_publickey f then Some (PrintPublicKey (hex_encode key))
      else if fl_normaliseconf f then
        (let d = cfg_admin_none c in
         Some (print_config env (fl_json f) (if nc_private_key_path d \<noteq> '''' then d\<lparr>nc_private_key := []\<rparr> else d)))
      else if fl_exportkey f then Some (if ce_pem env c then PrintKey c else CliPanic)
      else None)"

text \<open>The node's configuration; the logger and \<open>SocksVerbose\<close>, which adds a logger to the proxy, have no field.\<close>

definition cli_config_obj :: "flags \<Rightarrow> node_config \<Rightarrow> config_obj" where
  "cli_config_obj f c =
     \<lparr>co_config = Some c, co_multicast_logger = True, co_socks_addr = fl_socks f, co_nameserver = fl_nameserver f,
      co_local_tcp = map (\<lambda>m. (tcp_listen m, tcp_mapped m)) (mf_local_tcp (fl_maps f)),
      co_local_udp = map (\<lambda>m. (udp_listen m, udp_mapped m)) (mf_local_udp (fl_maps f)),
      co_remote_tcp = map (\<lambda>m. (tcp_listen m, tcp_mapped m)) (mf_remote_tcp (fl_maps f)),
      co_remote_udp = map (\<lambda>m. (udp_listen m, udp_mapped m)) (mf_remote_udp (fl_maps f)),
      co_udp_timeout = 0, co_activity_callback = False, co_peer_callback = False, co_core_stop_timeout = 0,
      co_low_power = None\<rparr>"

definition cli_main :: "cli_env \<Rightarrow> node_config \<Rightarrow> flags \<Rightarrow> cli_outcome" where
  "cli_main env generated f = (case choose_config env generated f of
       Inl out \<Rightarrow> out
     | Inr c \<Rightarrow> (case public_key_of (nc_private_key c) of
         None \<Rightarrow> CliPanic
       | Some key \<Rightarrow> (case query env f key c of
             Some out \<Rightarrow> out
           | None \<Rightarrow> RunNode (cli_config_obj f c))))"

subsection \<open>Lemmas\<close>

definition maps_ok :: "map_flags \<Rightarrow> bool" where
  "maps_ok m \<longleftrightarrow> list_all (\<lambda>x. local_mapping_ok (tcp_listen x) (tcp_mapped x)) (mf_local_tcp m) \<and>
     list_all (\<lambda>x. local_mapping_ok (udp_listen x) (udp_mapped x)) (mf_local_udp m) \<and>
     list_all (\<lambda>x. remote_mapping_ok (tcp_listen x) (tcp_mapped x)) (mf_remote_tcp m) \<and>
     list_all (\<lambda>x. remote_mapping_ok (udp_listen x) (udp_mapped x)) (mf_remote_udp m)"

lemma set_map_flag_ok: "maps_ok m \<Longrightarrow> maps_ok (snd (set_map_flag f m))"
  by (cases f) (auto simp: maps_ok_def tcp_local_set_def udp_local_set_def tcp_remote_set_def udp_remote_set_def
      build_mapping_local build_mapping_remote split: sum.splits)

lemma parse_map_flags_ok: "maps_ok m \<Longrightarrow> parse_map_flags fs m = Inr m' \<Longrightarrow> maps_ok m'"
proof (induction fs arbitrary: m)
  case (Cons f fs)
  then show ?case
    using set_map_flag_ok [of m f] by (auto split: prod.splits option.splits)
qed simp

text \<open>How many mappings the flags make: one for each, of its kind.\<close>

lemma set_map_flag_length:
  "set_map_flag f m = (None, m') \<Longrightarrow>
     length (mf_local_tcp m') + length (mf_local_udp m') + length (mf_remote_tcp m') + length (mf_remote_udp m') =
     Suc (length (mf_local_tcp m) + length (mf_local_udp m) + length (mf_remote_tcp m) + length (mf_remote_udp m))"
  by (cases f) (auto simp: tcp_local_set_def udp_local_set_def tcp_remote_set_def udp_remote_set_def split: sum.splits)

lemma parse_map_flags_length:
  "parse_map_flags fs m = Inr m' \<Longrightarrow>
     length (mf_local_tcp m') + length (mf_local_udp m') + length (mf_remote_tcp m') + length (mf_remote_udp m') =
     length fs + (length (mf_local_tcp m) + length (mf_local_udp m) + length (mf_remote_tcp m) + length (mf_remote_udp m))"
proof (induction fs arbitrary: m)
  case (Cons f fs)
  then show ?case
    by (auto dest!: set_map_flag_length split: prod.splits option.splits)
qed simp

lemma enable_until_Nil [simp]: "enable_until level ls = [] \<longleftrightarrow> ls = []"
  by (cases ls) simp_all

lemma enable_until_prefix:
  "level \<in> set ls \<Longrightarrow> \<exists>rest. ls = enable_until level ls @ rest \<and> last (enable_until level ls) = level"
  by (induction ls) auto

lemma effective_level_mem: "effective_level s \<in> set cli_levels"
  by (auto simp: effective_level_def Let_def list_ex_iff cli_levels_def)

subsection \<open>Properties\<close>

text \<open>
  the program starts a node exactly when a configuration was chosen (automatic, from stdin or from a file) and
  could be read, its key is usable, and nothing is to be printed instead; the node then gets that
  configuration, the addresses of the flags and multicast.
\<close>

theorem cli_starts_node_iff:
  "cli_main env g f = RunNode o' \<longleftrightarrow>
     (\<exists>c. choose_config env g f = Inr c \<and> 32 \<le> length (nc_private_key c) \<and> o' = cli_config_obj f c) \<and>
     \<not> (fl_address f \<or> fl_subnet f \<or> fl_publickey f \<or> fl_normaliseconf f \<or> fl_exportkey f)"
proof -
  have p: "print_config env j c \<noteq> RunNode o'" for j c by (simp add: print_config_def)
  have c: "choose_config env g f \<noteq> Inl (RunNode o')"
    by (auto simp: choose_config_def p split: sum.splits)
  show ?thesis
    by (cases "choose_config env g f") (use c in \<open>auto simp: cli_main_def public_key_of_def query_def p Let_def split: option.splits if_splits\<close>)
qed

text \<open>
  the mappings a started node is given are those of the flags, one for each occurrence: every local one leads
  to a 16-byte destination that is not IPv4, every remote one listens on all addresses of the node, and every port
  is between 1 and 65535.
\<close>

theorem cli_node_mappings_valid:
  assumes "parse_map_flags fs no_map_flags = Inr (fl_maps f)" "cli_main env g f = RunNode o'"
  shows "list_all (\<lambda>(l, m). local_mapping_ok l m) (co_local_tcp o' @ co_local_udp o') \<and>
     list_all (\<lambda>(l, m). remote_mapping_ok l m) (co_remote_tcp o' @ co_remote_udp o') \<and>
     length (co_local_tcp o' @ co_local_udp o' @ co_remote_tcp o' @ co_remote_udp o') = length fs"
proof -
  have "maps_ok no_map_flags" by (simp add: maps_ok_def no_map_flags_def)
  then have m: "maps_ok (fl_maps f)" using parse_map_flags_ok assms(1) by blast
  have l: "length (mf_local_tcp (fl_maps f)) + length (mf_local_udp (fl_maps f)) + length (mf_remote_tcp (fl_maps f)) +
      length (mf_remote_udp (fl_maps f)) = length fs"
    using parse_map_flags_length [OF assms(1)] by (simp add: no_map_flags_def)
  have "\<exists>c. o' = cli_config_obj f c"
    using assms(2) by (auto simp: cli_main_def choose_config_def query_def print_config_def Let_def
        split: sum.splits option.splits if_splits)
  then show ?thesis
    using m l by (auto simp: cli_config_obj_def maps_ok_def list_all_iff)
qed

definition demo_cli_env :: cli_env where
  "demo_cli_env = \<lparr>ce_stdin = Inr, ce_file = (\<lambda>_. Inr), ce_encodable = (\<lambda>_ _. True), ce_pem = (\<lambda>_. True),
     ce_addr_for_key = id, ce_subnet_for_key = id\<rparr>"

lemma demo_map_flag: "set_map_flag (LocalTcpFlag ''[::1]:8080:[200::1]:80'') no_map_flags =
  (None, no_map_flags\<lparr>mf_local_tcp := [\<lparr>tcp_listen = \<lparr>addr_ip = parse_ip ''::1'', addr_port = 8080\<rparr>,
     tcp_mapped = \<lparr>addr_ip = parse_ip ''200::1'', addr_port = 80\<rparr>\<rparr>]\<rparr>)"
  by code_simp

theorem cli_node_mappings_valid_witness:
  "\<exists>m o'. parse_map_flags [LocalTcpFlag ''[::1]:8080:[200::1]:80''] no_map_flags = Inr m \<and>
     cli_main demo_cli_env (demo_node_config\<lparr>nc_private_key := replicate 64 1\<rparr>) (default_flags\<lparr>fl_autoconf := True, fl_maps := m\<rparr>) = RunNode o' \<and>
     list_all (\<lambda>(l, m). local_mapping_ok l m) (co_local_tcp o') \<and> length (co_local_tcp o') = 1"
proof -
  let ?m = "no_map_flags\<lparr>mf_local_tcp := [\<lparr>tcp_listen = \<lparr>addr_ip = parse_ip ''::1'', addr_port = 8080\<rparr>,
     tcp_mapped = \<lparr>addr_ip = parse_ip ''200::1'', addr_port = 80\<rparr>\<rparr>]\<rparr>"
  let ?f = "default_flags\<lparr>fl_autoconf := True, fl_maps := ?m\<rparr>"
  let ?g = "demo_node_config\<lparr>nc_private_key := replicate 64 1\<rparr>"
  have p: "parse_map_flags [LocalTcpFlag ''[::1]:8080:[200::1]:80''] no_map_flags = Inr (fl_maps ?f)"
    using demo_map_flag by simp
  have r: "cli_main demo_cli_env ?g ?f = RunNode (cli_config_obj ?f (cfg_admin_none ?g))"
    by (simp add: cli_main_def choose_config_def query_def default_flags_def cfg_admin_none_def public_key_of_def)
  have "co_local_tcp (cli_config_obj ?f (cfg_admin_none ?g)) \<noteq> []" "length (co_local_tcp (cli_config_obj ?f (cfg_admin_none ?g))) = 1"
    by (simp_all add: cli_config_obj_def)
  then show ?thesis
    using cli_node_mappings_valid [OF p r] p r by auto
qed

text \<open>
  the enabled log levels are always an initial part of \<open>error, warn, info, debug, trace\<close>; they end with the
  level of the flag, read without case and surrounding white space, or with \<open>info\<close> if that is no level, and are
  errors only when a normalised configuration is printed.
\<close>

theorem cli_levels_are_initial:
  "\<exists>rest. cli_levels = enabled_levels f @ rest \<and>
     last (enabled_levels f) =
       (if fl_normaliseconf f then ''error''
        else if trim_space (to_lower (fl_loglevel f)) \<in> set cli_levels then trim_space (to_lower (fl_loglevel f)) else ''info'')"
proof -
  have "effective_level ''error'' = ''error''" by code_simp
  then have "last (enabled_levels f) = (if fl_normaliseconf f then ''error'' else effective_level (fl_loglevel f)) \<and>
      (\<exists>rest. cli_levels = enabled_levels f @ rest)"
    using enable_until_prefix [OF effective_level_mem [of "fl_loglevel f"]] enable_until_prefix [OF effective_level_mem [of "''error''"]]
    by (auto simp: enabled_levels_def cli_set_log_level_def)
  then show ?thesis
    by (auto simp: effective_level_def Let_def list_ex_iff)
qed

text \<open>
  a printed configuration has the admin socket switched off, and a normalised one shows no private key when the
  key is kept in a file of its own.
\<close>

theorem printed_config_is_safe:
  assumes "cli_main env g f = PrintConfig json c"
  shows "nc_admin_listen c = ''none'' \<and> (fl_genconf f \<or> nc_private_key_path c = [] \<or> nc_private_key c = [])"
  using assms
  by (auto simp: cli_main_def choose_config_def query_def print_config_def cfg_admin_none_def Let_def
      split: sum.splits option.splits if_splits)

theorem printed_config_is_safe_witness:
  "\<exists>c. cli_main demo_cli_env (demo_node_config\<lparr>nc_private_key := replicate 64 1, nc_private_key_path := ''k.pem''\<rparr>)
     (default_flags\<lparr>fl_useconf := True, fl_normaliseconf := True\<rparr>) = PrintConfig False c \<and> nc_private_key c = []"
proof -
  obtain c where "cli_main demo_cli_env (demo_node_config\<lparr>nc_private_key := replicate 64 1, nc_private_key_path := ''k.pem''\<rparr>)
     (default_flags\<lparr>fl_useconf := True, fl_normaliseconf := True\<rparr>) = PrintConfig False c" "nc_private_key_path c = ''k.pem''"
    by (simp add: cli_main_def choose_config_def query_def default_flags_def cfg_admin_none_def public_key_of_def
        demo_cli_env_def print_config_def)
  with printed_config_is_safe [OF this(1)] show ?thesis by (auto simp: default_flags_def)
qed

text \<open>
  the second example in the help of \<open>-local-udp\<close>, a listen address without a listen port, is no valid mapping:
  the flag is rejected.
\<close>

theorem help_example_rejected:
  "\<exists>e. parse_map_flags [LocalUdpFlag ''127.0.0.1:[200::1]:22''] no_map_flags = Inl e"
proof -
  have "fst (udp_local_set [] ''127.0.0.1:[200::1]:22'') \<noteq> None" by code_simp
  then show ?thesis by (auto simp: no_map_flags_def split: prod.splits option.splits)
qed

end
