(* ===== verification/GoPath.thy ===== *)
theory GoPath
  imports GoStrings
begin

text \<open>
  Go's \<open>path.Clean\<close>, \<open>filepath.Join\<close>, \<open>filepath.Abs\<close> and \<open>filepath.Ext\<close> on a system whose separator is the
  slash. These model the standard library and have no entry in the manifest's map.
\<close>

subsection \<open>Clean\<close>

text \<open>
  The components from left to right: empty ones and \<open>.\<close> are dropped, \<open>..\<close> removes the component before it, is
  dropped at the root, and is kept at the front of a relative path. \<open>acc\<close> holds the components so far, last first.
\<close>

fun clean_comps :: "bool \<Rightarrow> string list \<Rightarrow> string list \<Rightarrow> string list" where
  "clean_comps rooted [] acc = rev acc"
| "clean_comps rooted (c # cs) acc =
     (if c = '''' \<or> c = ''.'' then clean_comps rooted cs acc
      else if c = ''..'' then
        (case acc of
           [] \<Rightarrow> clean_comps rooted cs (if rooted then [] else [''..''])
         | a # as \<Rightarrow> if a = ''..'' then clean_comps rooted cs (''..'' # acc) else clean_comps rooted cs as)
      else clean_comps rooted cs (c # acc))"

definition abs_path :: "string list \<Rightarrow> string" where
  "abs_path cs = CHR ''/'' # go_join ''/'' cs"

definition path_clean :: "string \<Rightarrow> string" where
  "path_clean p =
     (if has_prefix p ''/'' then abs_path (clean_comps True (go_split CHR ''/'' p) [])
      else (case clean_comps False (go_split CHR ''/'' p) [] of
         [] \<Rightarrow> ''.''
       | cs \<Rightarrow> go_join ''/'' cs))"

text \<open>\<open>filepath.Join\<close> of two elements: empty ones at the front are left out.\<close>

definition path_join :: "string \<Rightarrow> string \<Rightarrow> string" where
  "path_join a b =
     (if a = '''' then (if b = '''' then '''' else path_clean b) else path_clean (a @ ''/'' @ b))"

definition path_abs :: "string \<Rightarrow> string \<Rightarrow> string" where
  "path_abs wd p = (if has_prefix p ''/'' then path_clean p else path_join wd p)"

text \<open>The extension: from the last dot of the last component on.\<close>

definition path_ext :: "string \<Rightarrow> string" where
  "path_ext p = (let b = after_last CHR ''/'' p in
     case last_index_of CHR ''.'' b of None \<Rightarrow> '''' | Some i \<Rightarrow> drop i b)"

subsection \<open>Safe components\<close>

definition safe_comp :: "string \<Rightarrow> bool" where
  "safe_comp c \<longleftrightarrow> c \<noteq> '''' \<and> c \<noteq> ''.'' \<and> c \<noteq> ''..'' \<and> CHR ''/'' \<notin> set c"

lemma clean_comps_safe:
  "list_all safe_comp acc \<Longrightarrow> list_all (\<lambda>c. CHR ''/'' \<notin> set c) cs \<Longrightarrow> list_all safe_comp (clean_comps True cs acc)"
proof (induction True cs acc rule: clean_comps.induct)
  case (2 c cs acc)
  then show ?case by (cases acc) (auto simp: safe_comp_def)
qed (simp add: list_all_iff)

lemma split_no_slash: "list_all (\<lambda>c. CHR ''/'' \<notin> set c) (go_split CHR ''/'' p)"
  by (auto simp: list_all_iff dest: go_split_elems)

lemma clean_comps_keep:
  "list_all safe_comp cs \<Longrightarrow> clean_comps True (cs @ ds) acc = clean_comps True ds (rev cs @ acc)"
  by (induction cs arbitrary: acc) (auto simp: safe_comp_def)

lemma split_abs_path:
  assumes "list_all safe_comp cs"
  shows "go_split CHR ''/'' (abs_path cs) = (if cs = [] then [[], []] else [] # cs)"
proof (cases "cs = []")
  case False
  then have "go_split CHR ''/'' (go_join ''/'' cs) = cs"
    using assms by (intro go_split_join) (auto simp: list_all_iff safe_comp_def)
  then show ?thesis using False by (simp add: abs_path_def)
qed (simp add: abs_path_def)

lemma path_clean_rooted:
  "has_prefix p ''/'' \<Longrightarrow> \<exists>cs. path_clean p = abs_path cs \<and> list_all safe_comp cs"
  using clean_comps_safe [OF _ split_no_slash, of "[]" p] by (auto simp: path_clean_def)

lemma path_abs_rooted:
  "has_prefix wd ''/'' \<Longrightarrow> \<exists>cs. path_abs wd p = abs_path cs \<and> list_all safe_comp cs"
  by (cases wd) (auto simp: path_abs_def path_join_def has_prefix_def intro!: path_clean_rooted)

lemma path_clean_abs_path [simp]: "list_all safe_comp cs \<Longrightarrow> path_clean (abs_path cs) = abs_path cs"
  using clean_comps_keep [of cs "[]" "[]"]
  by (simp add: path_clean_def split_abs_path has_prefix_def) (simp add: abs_path_def)

lemma has_prefix_abs_path [simp]: "has_prefix (abs_path cs) ''/''"
  by (simp add: has_prefix_def abs_path_def)

text \<open>Joining two clean absolute paths puts the components of the second behind those of the first.\<close>

lemma path_join_abs:
  assumes "list_all safe_comp ws" "list_all safe_comp us"
  shows "path_join (abs_path ws) (abs_path us) = abs_path (ws @ us)"
proof -
  have s: "go_split CHR ''/'' (abs_path ws @ ''/'' @ abs_path us) =
      go_split CHR ''/'' (abs_path ws) @ go_split CHR ''/'' (abs_path us)"
    using go_split_append_sep [of "CHR ''/''" "abs_path ws" "abs_path us"] by simp
  have "clean_comps True (go_split CHR ''/'' (abs_path ws) @ go_split CHR ''/'' (abs_path us)) [] = ws @ us"
    using assms clean_comps_keep [OF assms(1), of "[] # us" "[]"] clean_comps_keep [OF assms(1), of "[[], []]" "[]"]
      clean_comps_keep [OF assms(2), of "[]" "rev ws"] clean_comps_keep [OF assms(2), of "[]" "[]"]
    by (auto simp: split_abs_path)
  then show ?thesis
    using s by (simp add: path_join_def path_clean_def) (simp add: abs_path_def has_prefix_def)
qed

lemma abs_path_append:
  assumes "ws \<noteq> []"
  shows "abs_path (ws @ us) @ ''/'' = abs_path ws @ ''/'' @ (if us = [] then [] else go_join ''/'' us @ ''/'')"
  using assms go_join_append [of ws us "''/''"] by (cases "us = []") (simp_all add: abs_path_def)

lemma abs_path_not_Nil [simp]: "abs_path cs \<noteq> []"
  by (simp add: abs_path_def)

text \<open>A relative component behind a clean absolute path.\<close>

lemma path_join_comp:
  assumes "list_all safe_comp ws" "safe_comp c"
  shows "path_join (abs_path ws) c = abs_path (ws @ [c])"
proof -
  have "go_split CHR ''/'' c = [c]" using assms(2) by (intro go_split_no_sep) (simp add: safe_comp_def)
  then have s: "go_split CHR ''/'' (abs_path ws @ ''/'' @ c) = go_split CHR ''/'' (abs_path ws) @ [c]"
    using go_split_append_sep [of "CHR ''/''" "abs_path ws" c] by simp
  have "clean_comps True (go_split CHR ''/'' (abs_path ws) @ [c]) [] = ws @ [c]"
    using assms clean_comps_keep [OF assms(1), of "[c]" "[]"] by (auto simp: split_abs_path safe_comp_def)
  then show ?thesis
    using s by (simp add: path_join_def path_clean_def) (simp add: abs_path_def has_prefix_def)
qed

end
