(* ===== verification/HttpDemo.thy ===== *)
theory HttpDemo
  imports NodeLife GoPath GoText
begin

text \<open>
  The HTTP demo (\<open>cmd/embedded/http\<close>): its configuration, the two file handlers, the information endpoint with
  its cache, and the set-up of the servers.

  The file system is the record \<open>web_fs\<close>: for each absolute path, what opening, stating and reading it gives
  during one request; a file may change between being hashed and being served, so the two reads are separate.
  Open files are kept in a list of paths. The hash, the compressor, MIME types and the core are parameters.
\<close>

subsection \<open>Configuration\<close>

record http_config =
  hc_private_key :: string
  hc_hostname :: string
  hc_peers :: "string list"
  hc_http_ports :: "int list"
  hc_ygg_ports :: "int list"

datatype http_config_error = ReadConfigError string | ParseConfigError string

text \<open>\<open>read_file\<close> is \<open>os.ReadFile\<close>, \<open>unmarshal\<close> is \<open>yaml.Unmarshal\<close> into an empty configuration.\<close>

definition load_config ::
  "(string \<Rightarrow> string + 'd) \<Rightarrow> ('d \<Rightarrow> string + http_config) \<Rightarrow> string \<Rightarrow> http_config_error + http_config" where
  "load_config read_file unmarshal path = (case read_file path of
       Inl e \<Rightarrow> Inl (ReadConfigError path)
     | Inr data \<Rightarrow> (case unmarshal data of
         Inl e \<Rightarrow> Inl (ParseConfigError e)
       | Inr c0 \<Rightarrow>
           let c1 = (if hc_hostname c0 = '''' then c0\<lparr>hc_hostname := ''localhost''\<rparr> else c0);
               c2 = (if hc_http_ports c1 = [] then c1\<lparr>hc_http_ports := [8080]\<rparr> else c1)
           in Inr (if hc_ygg_ports c2 = [] then c2\<lparr>hc_ygg_ports := [8443]\<rparr> else c2)))"

subsection \<open>Files\<close>

record file_stat =
  fs_is_dir :: bool
  fs_size :: int

record file_view =
  fv_exists :: bool                 \<comment> \<open>can be opened\<close>
  fv_stat :: "file_stat option"     \<comment> \<open>None: \<open>Stat\<close> fails\<close>
  fv_hashed :: "bytes option"       \<comment> \<open>what is read for the ETag; None: a read error\<close>
  fv_seek :: bool
  fv_served :: "bytes \<times> bool"       \<comment> \<open>what is read when serving, and whether it ends without an error\<close>

type_synonym web_fs = "string \<Rightarrow> file_view"
type_synonym handles = "string list"

datatype fs_error = ErrPermission | ErrNotExist | ErrOpen | ErrStat

definition os_open :: "web_fs \<Rightarrow> string \<Rightarrow> handles \<Rightarrow> handles option" where
  "os_open fs p hs = (if fv_exists (fs p) then Some (p # hs) else None)"

definition f_close :: "string \<Rightarrow> handles \<Rightarrow> handles" where
  "f_close p hs = remove1 p hs"

text \<open>\<open>noListFSObj.Open\<close>: a directory is opened only if it holds an \<open>index.html\<close>.\<close>

definition no_list_open :: "web_fs \<Rightarrow> string \<Rightarrow> handles \<Rightarrow> (fs_error + string) \<times> handles" where
  "no_list_open fs name hs = (case os_open fs name hs of
       None \<Rightarrow> (Inl ErrOpen, hs)
     | Some hs1 \<Rightarrow> (case fv_stat (fs name) of
         None \<Rightarrow> (Inl ErrStat, f_close name hs1)
       | Some st \<Rightarrow>
           if \<not> fs_is_dir st then (Inr name, hs1)
           else (let idx = path_join name ''index.html'' in
             case os_open fs idx hs1 of
               None \<Rightarrow> (Inl ErrNotExist, f_close name hs1)
             | Some hs2 \<Rightarrow> (Inr name, f_close idx hs2))))"

text \<open>The cleaned URL path under the root: \<open>path.Clean("/" + strings.TrimPrefix(urlPath, "/"))\<close>, joined and made absolute.\<close>

definition url_file :: "string \<Rightarrow> string \<Rightarrow> string" where
  "url_file www_abs url = path_clean (path_join www_abs (path_clean (''/'' @ cut_prefix url ''/'')))"

text \<open>\<open>newYggFileHandler\<close>: the root made absolute; \<open>cwd\<close> is the working directory.\<close>

definition new_ygg_file_handler :: "string \<Rightarrow> string \<Rightarrow> string" where
  "new_ygg_file_handler cwd www = path_abs cwd www"

definition escapes_root :: "string \<Rightarrow> string \<Rightarrow> bool" where
  "escapes_root www_abs p \<longleftrightarrow> \<not> has_prefix (p @ ''/'') (www_abs @ ''/'')"

definition resolve_file :: "web_fs \<Rightarrow> string \<Rightarrow> string \<Rightarrow> handles \<Rightarrow> (fs_error + string \<times> file_stat) \<times> handles" where
  "resolve_file fs www_abs url hs =
     (let p = url_file www_abs url in
      if escapes_root www_abs p then (Inl ErrPermission, hs)
      else (case os_open fs p hs of
         None \<Rightarrow> (Inl ErrOpen, hs)
       | Some hs1 \<Rightarrow> (case fv_stat (fs p) of
           None \<Rightarrow> (Inl ErrStat, f_close p hs1)
         | Some st \<Rightarrow>
             if \<not> fs_is_dir st then (Inr (p, st), hs1)
             else (let idx = path_join p ''index.html''; hs2 = f_close p hs1 in
               case os_open fs idx hs2 of
                 None \<Rightarrow> (Inl ErrNotExist, hs2)
               | Some hs3 \<Rightarrow> (case fv_stat (fs idx) of
                   None \<Rightarrow> (Inl ErrStat, f_close idx hs3)
                 | Some st' \<Rightarrow> (Inr (idx, st'), hs3))))))"

subsection \<open>Serving\<close>

record response =
  rs_status :: nat
  rs_headers :: "string \<rightharpoonup> string"
  rs_writes :: "bytes list"
  rs_trailers :: "string \<rightharpoonup> string"

record web_request =
  rq_path :: string
  rq_if_none_match :: string
  rq_accept_encoding :: string

record web_lib =
  wl_hash :: "bytes \<Rightarrow> bytes"
  wl_zstd :: "bytes \<Rightarrow> bytes"
  wl_mime :: "string \<Rightarrow> string option"    \<comment> \<open>the system's types by extension\<close>
  wl_mime_lower :: "string \<Rightarrow> string"     \<comment> \<open>and by extension in lower case, empty for none\<close>

definition chunk_size :: nat where
  "chunk_size = 250 * 1024"

definition etag_of :: "web_lib \<Rightarrow> bytes \<Rightarrow> string" where
  "etag_of lib data = [CHR 0x22] @ hex_encode (wl_hash lib data) @ [CHR 0x22]"

definition encode :: "web_lib \<Rightarrow> bool \<Rightarrow> bytes \<Rightarrow> bytes" where
  "encode lib compress b = (if compress then wl_zstd lib b else b)"

text \<open>The blocks \<open>io.ReadFull\<close> gives: full ones, and the rest.\<close>

function chunks :: "nat \<Rightarrow> 'a list \<Rightarrow> 'a list list" where
  "chunks k xs = (if k = 0 \<or> xs = [] then [] else take k xs # chunks k (drop k xs))"
  by pat_completeness auto
termination by (relation "measure (\<lambda>(k, xs). length xs)") auto

declare chunks.simps [simp del]

definition trailer_key :: "nat \<Rightarrow> string" where
  "trailer_key i = ''X-Chunk-Hash-'' @ dec_str i"

definition chunk_count :: "int \<Rightarrow> nat" where
  "chunk_count n = nat ((n + int chunk_size - 1) div int chunk_size)"

text \<open>None is the panic of \<open>trailerKeys[i]\<close> out of range.\<close>

fun set_trailers :: "string list \<Rightarrow> nat \<Rightarrow> string list \<Rightarrow> (string \<rightharpoonup> string) \<Rightarrow> (string \<rightharpoonup> string) option" where
  "set_trailers keys i [] m = Some m"
| "set_trailers keys i (h # hs) m = (if i < length keys then set_trailers keys (i + 1) hs (m(keys ! i \<mapsto> h)) else None)"

definition serve_chunked :: "web_lib \<Rightarrow> bytes \<Rightarrow> int \<Rightarrow> bool \<Rightarrow> response \<Rightarrow> response option" where
  "serve_chunked lib data fsize compress r =
     (let keys = map trailer_key [0..<chunk_count fsize]; cs = chunks chunk_size data in
      map_option (\<lambda>t. r\<lparr>rs_headers := (rs_headers r)(''Trailer'' \<mapsto> go_join '', '' keys),
          rs_writes := map (encode lib compress) cs, rs_trailers := t\<rparr>)
        (set_trailers keys 0 (map (\<lambda>c. hex_encode (wl_hash lib c)) cs) Map.empty))"

definition serve_small :: "web_lib \<Rightarrow> bytes \<times> bool \<Rightarrow> bool \<Rightarrow> response \<Rightarrow> response" where
  "serve_small lib dr compress r =
     (if snd dr then r\<lparr>rs_writes := [encode lib compress (fst dr)]\<rparr> else r)"

text \<open>\<open>http.NotFound\<close> and \<open>http.Error\<close> by their status; their text and headers are not modelled.\<close>

definition http_error :: "nat \<Rightarrow> response \<Rightarrow> response" where
  "http_error code r = r\<lparr>rs_status := code\<rparr>"

fun contains_str :: "string \<Rightarrow> string \<Rightarrow> bool" where
  "contains_str [] t = (t = [])"
| "contains_str (x # xs) t = (has_prefix (x # xs) t \<or> contains_str xs t)"

text \<open>The types \<open>init\<close> registers, and \<open>mime.TypeByExtension\<close>: first the extension as it is, then in lower case.\<close>

definition registered_types :: "(string \<times> string) list" where
  "registered_types =
     [(''.html'', ''text/html; charset=utf-8''), (''.css'', ''text/css; charset=utf-8''),
      (''.js'', ''application/javascript; charset=utf-8''), (''.json'', ''application/json''),
      (''.svg'', ''image/svg+xml''), (''.png'', ''image/png''), (''.ico'', ''image/x-icon''), (''.woff2'', ''font/woff2'')]"

definition mime_type :: "web_lib \<Rightarrow> string \<Rightarrow> string" where
  "mime_type lib ext = (case map_of registered_types ext of
       Some t \<Rightarrow> t
     | None \<Rightarrow> (case wl_mime lib ext of
         Some t \<Rightarrow> t
       | None \<Rightarrow> (case map_of registered_types (to_lower ext) of
           Some t \<Rightarrow> t
         | None \<Rightarrow> wl_mime_lower lib (to_lower ext))))"

definition octet_stream :: string where
  "octet_stream = ''application/octet-stream''"

text \<open>The file handler once the file is open; its deferred \<open>Close\<close> is in \<open>serve_http\<close>.\<close>

definition serve_open :: "web_lib \<Rightarrow> file_view \<Rightarrow> string \<Rightarrow> file_stat \<Rightarrow> web_request \<Rightarrow> response \<Rightarrow> response option" where
  "serve_open lib v p st q r0 = (case fv_hashed v of
       None \<Rightarrow> Some (http_error 500 r0)
     | Some hashed \<Rightarrow>
         let etag = etag_of lib hashed; r1 = r0\<lparr>rs_headers := (rs_headers r0)(''ETag'' \<mapsto> etag)\<rparr> in
         if rq_if_none_match q = etag then Some (r1\<lparr>rs_status := 304\<rparr>)
         else if \<not> fv_seek v then Some (http_error 500 r1)
         else
           let ct = mime_type lib (path_ext p);
               r2 = r1\<lparr>rs_headers := (rs_headers r1)(''Content-Type'' \<mapsto> (if ct = '''' then octet_stream else ct))\<rparr>;
               zstd = contains_str (rq_accept_encoding q) ''zstd'';
               r3 = (if zstd then r2\<lparr>rs_headers := (rs_headers r2)(''Content-Encoding'' \<mapsto> ''zstd'')\<rparr> else r2)
           in if fs_size st > int chunk_size then serve_chunked lib (fst (fv_served v)) (fs_size st) zstd r3
              else Some (serve_small lib (fv_served v) zstd r3))"

definition blank_response :: response where
  "blank_response = \<lparr>rs_status = 200, rs_headers = Map.empty, rs_writes = [], rs_trailers = Map.empty\<rparr>"

definition serve_http :: "web_lib \<Rightarrow> web_fs \<Rightarrow> string \<Rightarrow> web_request \<Rightarrow> handles \<Rightarrow> response option \<times> handles" where
  "serve_http lib fs www_abs q hs = (case resolve_file fs www_abs (rq_path q) hs of
       (Inl _, hs1) \<Rightarrow> (Some (http_error 404 blank_response), hs1)
     | (Inr (p, st), hs1) \<Rightarrow> (serve_open lib (fs p) p st q blank_response, f_close p hs1))"

subsection \<open>Lemmas\<close>

lemma url_file_inside:
  assumes "list_all safe_comp ws"
  obtains us where "url_file (abs_path ws) url = abs_path (ws @ us)" "list_all safe_comp us"
proof -
  have "has_prefix (''/'' @ cut_prefix url ''/'') ''/''" by (rule has_prefix_append)
  then obtain us where us: "path_clean (''/'' @ cut_prefix url ''/'') = abs_path us" "list_all safe_comp us"
    using path_clean_rooted by blast
  have "list_all safe_comp (ws @ us)" using assms us(2) by simp
  then have "url_file (abs_path ws) url = abs_path (ws @ us)"
    unfolding url_file_def us(1) path_join_abs [OF assms us(2)] by (rule path_clean_abs_path)
  with us(2) that show ?thesis by blast
qed

lemma escapes_root_iff:
  assumes "list_all safe_comp ws" "list_all safe_comp us"
  shows "escapes_root (abs_path ws) (abs_path (ws @ us)) \<longleftrightarrow> ws = [] \<and> us \<noteq> []"
proof (cases "ws = []")
  case True
  have "has_prefix (abs_path us @ ''/'') (abs_path [] @ ''/'') \<longleftrightarrow> us = []"
  proof (cases us)
    case (Cons u vs)
    then obtain x r where "go_join ''/'' us = x # r" "x \<noteq> CHR ''/''"
      using assms(2) by (cases u; cases vs) (auto simp: safe_comp_def)
    then show ?thesis using Cons by (simp add: abs_path_def has_prefix_def)
  qed (simp add: abs_path_def has_prefix_def)
  then show ?thesis by (simp add: escapes_root_def True)
next
  case False
  have "has_prefix (abs_path (ws @ us) @ ''/'') (abs_path ws @ ''/'')"
    unfolding abs_path_append [OF False] has_prefix_conv by auto
  then show ?thesis by (simp add: escapes_root_def False)
qed

lemma index_html_safe: "safe_comp ''index.html''"
  by (simp add: safe_comp_def)

lemma f_close_Cons [simp]: "f_close p (p # hs) = hs"
  by (simp add: f_close_def)

lemma os_open_Some [simp]: "os_open fs p hs = Some hs' \<longleftrightarrow> fv_exists (fs p) \<and> hs' = p # hs"
  by (auto simp: os_open_def)

text \<open>
  What a handler relies on when it opens a file: an error has left nothing open, and success leaves open exactly the
  file returned, so that the deferred \<open>Close\<close> restores the open files.
\<close>

locale file_opener =
  fixes open_file :: "handles \<Rightarrow> ('e + 'f) \<times> handles"
    and file_path :: "'f \<Rightarrow> string"
  assumes left_open: "snd (open_file hs) = (case fst (open_file hs) of Inl _ \<Rightarrow> hs | Inr f \<Rightarrow> file_path f # hs)"
begin

lemma failed: "open_file hs = (Inl e, hs') \<Longrightarrow> hs' = hs"
  using left_open [of hs] by simp

lemma closed: "open_file hs = (Inr f, hs') \<Longrightarrow> f_close (file_path f) hs' = hs"
  using left_open [of hs] by simp

end

interpretation ygg_files: file_opener "resolve_file fs w url" fst for fs w url
  by unfold_locales (auto simp: resolve_file_def Let_def split: option.splits)

interpretation plain_files: file_opener "no_list_open fs name" "\<lambda>p. p" for fs name
  by unfold_locales (auto simp: no_list_open_def Let_def split: option.splits)

lemma concat_chunks: "0 < k \<Longrightarrow> concat (chunks k xs) = xs"
proof (induction k xs rule: chunks.induct)
  case (1 k xs)
  then show ?case by (subst chunks.simps) auto
qed

lemma chunks_bounded: "c \<in> set (chunks k xs) \<Longrightarrow> c \<noteq> [] \<and> length c \<le> k"
proof (induction k xs rule: chunks.induct)
  case (1 k xs)
  then show ?case by (subst (asm) chunks.simps) (auto split: if_splits)
qed

lemma length_chunks: "0 < k \<Longrightarrow> length (chunks k xs) = (length xs + k - 1) div k"
proof (induction k xs rule: chunks.induct)
  case (1 k xs)
  show ?case
  proof (cases "xs = []")
    case True
    then show ?thesis using 1(2) by (simp add: chunks.simps)
  next
    case False
    then have "length (chunks k xs) = Suc ((length xs - k + k - 1) div k)"
      using 1 by (subst chunks.simps) simp
    also have "\<dots> = (length xs + k - 1) div k"
    proof (cases "length xs \<le> k")
      case True
      have "0 < length xs" using False by simp
      then have "length xs + k - 1 = (length xs - 1) + k" by linarith
      then have "(length xs + k - 1) div k = Suc ((length xs - 1) div k)"
        using 1(2) by (metis Suc_eq_plus1 add.commute div_add_self2 less_numeral_extra(3))
      moreover have lt: "length xs - 1 < k" "k - 1 < k" using True 1(2) \<open>0 < length xs\<close> by linarith+
      moreover have "(length xs - 1) div k = 0" "(k - 1) div k = 0" "length xs - k + k - 1 = k - 1"
        by (rule div_less [OF lt(1)], rule div_less [OF lt(2)]) (use True in simp)
      ultimately show ?thesis by (simp only:)
    next
      case False
      then have "length xs + k - 1 = (length xs - k + k - 1) + k" by simp
      then show ?thesis using 1(2) by (metis Suc_eq_plus1 add.commute div_add_self2 less_numeral_extra(3))
    qed
    finally show ?thesis .
  qed
qed

lemma chunk_count_length: "chunk_count (int n) = (n + chunk_size - 1) div chunk_size"
proof -
  have "int n + int chunk_size - 1 = int (n + chunk_size - 1)" by (simp add: chunk_size_def of_nat_diff)
  then show ?thesis unfolding chunk_count_def by (metis nat_int zdiv_int)
qed

lemma set_trailers_spec:
  "set_trailers keys i hs m =
     (if i + length hs \<le> length keys \<or> hs = [] then Some (m ++ map_of (rev (zip (drop i keys) hs))) else None)"
proof (induction hs arbitrary: i m)
  case (Cons h hs)
  show ?case
  proof (cases "i < length keys")
    case True
    then have "drop i keys = keys ! i # drop (i + 1) keys" by (simp add: Cons_nth_drop_Suc)
    then show ?thesis using True by (cases "hs = []") (auto simp: Cons.IH)
  qed simp
qed simp

subsection \<open>Properties of the file handlers\<close>

text \<open>A file system for the examples: every path is a file with the content \<open>data\<close>.\<close>

definition demo_fs :: "bytes \<Rightarrow> web_fs" where
  "demo_fs data = (\<lambda>_. \<lparr>fv_exists = True, fv_stat = Some \<lparr>fs_is_dir = False, fs_size = int (length data)\<rparr>,
     fv_hashed = Some data, fv_seek = True, fv_served = (data, True)\<rparr>)"

definition demo_web_lib :: web_lib where
  "demo_web_lib = \<lparr>wl_hash = id, wl_zstd = rev, wl_mime = (\<lambda>_. None), wl_mime_lower = (\<lambda>_. '''')\<rparr>"

lemma demo_www_safe: "list_all safe_comp [''srv'', ''www'']"
  by (simp add: safe_comp_def)

lemma resolved_file:
  assumes "list_all safe_comp ws" "resolve_file fs (abs_path ws) url hs = (Inr (p, st), hs')"
  obtains us where "p = abs_path (ws @ us)" "list_all safe_comp us" "fv_exists (fs p)" "fv_stat (fs p) = Some st"
proof -
  obtain us where us: "url_file (abs_path ws) url = abs_path (ws @ us)" "list_all safe_comp us"
    using url_file_inside [OF assms(1)] by blast
  have s: "list_all safe_comp (ws @ us)" using assms(1) us(2) by simp
  have i: "path_join (abs_path (ws @ us)) ''index.html'' = abs_path (ws @ us @ [''index.html''])"
    using path_join_comp [OF s index_html_safe] by simp
  have "p = abs_path (ws @ us) \<or> p = abs_path (ws @ us @ [''index.html''])" "fv_exists (fs p)" "fv_stat (fs p) = Some st"
    using assms(2) by (auto simp: resolve_file_def Let_def us(1) i split: if_splits option.splits)
  moreover have "list_all safe_comp (us @ [''index.html''])" using us(2) index_html_safe by simp
  ultimately show ?thesis using us(2) that by blast
qed

text \<open>
  C12: the file handler opens nothing outside its root, whatever the directory the program was given and whatever
  the path of the request: the root is an absolute path, and the file served is the root followed by components that
  are neither empty nor \<open>.\<close> nor \<open>..\<close>.
\<close>

theorem served_file_inside_root:
  assumes "has_prefix cwd ''/''" "resolve_file fs (new_ygg_file_handler cwd www) url hs = (Inr (p, st), hs')"
  shows "\<exists>ws us. new_ygg_file_handler cwd www = abs_path ws \<and> p = abs_path (ws @ us) \<and> list_all safe_comp (ws @ us) \<and>
     fv_exists (fs p) \<and> fv_stat (fs p) = Some st"
proof -
  obtain ws where ws: "new_ygg_file_handler cwd www = abs_path ws" "list_all safe_comp ws"
    using path_abs_rooted [OF assms(1)] by (auto simp: new_ygg_file_handler_def)
  show ?thesis by (rule resolved_file [OF ws(2) assms(2) [unfolded ws(1)]]) (use ws in auto)
qed

lemma demo_root: "new_ygg_file_handler ''/srv'' ''www'' = abs_path [''srv'', ''www'']"
  by (simp add: new_ygg_file_handler_def path_abs_def path_join_def path_clean_def has_prefix_def)

lemma demo_traversal:
  "resolve_file (demo_fs []) (abs_path [''srv'', ''www'']) ''/../../etc/passwd'' [] =
     (Inr (''/srv/www/etc/passwd'', \<lparr>fs_is_dir = False, fs_size = 0\<rparr>), [''/srv/www/etc/passwd''])"
proof -
  have c: "path_clean (''/'' @ cut_prefix ''/../../etc/passwd'' ''/'') = abs_path [''etc'', ''passwd'']"
    by (simp add: path_clean_def has_prefix_def)
  have s: "list_all safe_comp [''etc'', ''passwd'']" by (simp add: safe_comp_def)
  have "list_all safe_comp ([''srv'', ''www''] @ [''etc'', ''passwd''])" using demo_www_safe s by simp
  then have "url_file (abs_path [''srv'', ''www'']) ''/../../etc/passwd'' = abs_path ([''srv'', ''www''] @ [''etc'', ''passwd''])"
    unfolding url_file_def c path_join_abs [OF demo_www_safe s] by (rule path_clean_abs_path)
  moreover have "\<not> escapes_root (abs_path [''srv'', ''www'']) (abs_path ([''srv'', ''www''] @ [''etc'', ''passwd'']))"
    unfolding escapes_root_iff [OF demo_www_safe s] by simp
  ultimately show ?thesis
    by (simp add: resolve_file_def os_open_def demo_fs_def abs_path_def Let_def)
qed

theorem served_file_inside_root_witness:
  "\<exists>ws us. ''/srv/www/etc/passwd'' = abs_path (ws @ us) \<and> list_all safe_comp (ws @ us) \<and> abs_path ws = ''/srv/www''"
proof -
  have "has_prefix ''/srv'' ''/''" by (simp add: has_prefix_def)
  then obtain ws us where "abs_path [''srv'', ''www''] = abs_path ws" "''/srv/www/etc/passwd'' = abs_path (ws @ us)"
      "list_all safe_comp (ws @ us)"
    using served_file_inside_root [OF _ demo_traversal [folded demo_root]] unfolding demo_root by blast
  moreover have "abs_path [''srv'', ''www''] = ''/srv/www''" by (simp add: abs_path_def)
  ultimately show ?thesis by metis
qed

text \<open>
  no request leaves a file open: however the handler ends, also when it panics, and whatever the file system
  answers, the open files are those from before; opening through the listing filter leaves exactly the file it
  returns open.
\<close>

theorem requests_close_their_files:
  "snd (serve_http lib fs w q hs) = hs \<and>
   snd (no_list_open fs name hs) = (case fst (no_list_open fs name hs) of Inl _ \<Rightarrow> hs | Inr p \<Rightarrow> p # hs)"
proof
  show "snd (serve_http lib fs w q hs) = hs"
    using ygg_files.failed ygg_files.closed
    by (fastforce simp: serve_http_def split: prod.splits sum.splits)
  show "snd (no_list_open fs name hs) = (case fst (no_list_open fs name hs) of Inl _ \<Rightarrow> hs | Inr p \<Rightarrow> p # hs)"
    using plain_files.left_open by simp
qed

text \<open>
  C27: a big file arrives whole and can be checked piece by piece: if the file does not change while it is served,
  the response has one write for each chunk of at most 250 KB, decoding and concatenating the writes gives the
  file, and the trailers hold the hash of each chunk under its number.
\<close>

theorem chunked_response_reassembles:
  assumes "fv_hashed v = Some data" "fv_served v = (data, True)" "fv_seek v" "fs_size st = int (length data)"
    "chunk_size < length data" "rq_if_none_match q \<noteq> etag_of lib data" "\<And>b. dec (wl_zstd lib b) = b"
  shows "\<exists>r. serve_open lib v p st q blank_response = Some r \<and> rs_status r = 200 \<and>
     (let parts = (if rs_headers r ''Content-Encoding'' = Some ''zstd'' then map dec (rs_writes r) else rs_writes r) in
       concat parts = data \<and> length parts = (length data + chunk_size - 1) div chunk_size \<and>
       list_all (\<lambda>c. length c \<le> chunk_size) parts \<and>
       (\<forall>i < length parts. rs_trailers r (trailer_key i) = Some (hex_encode (wl_hash lib (parts ! i)))))"
proof -
  let ?cs = "chunks chunk_size data"
  let ?keys = "map trailer_key [0..<chunk_count (int (length data))]"
  let ?hs = "map (\<lambda>c. hex_encode (wl_hash lib c)) ?cs"
  let ?z = "contains_str (rq_accept_encoding q) ''zstd''"
  have k: "0 < chunk_size" by (simp add: chunk_size_def)
  have len: "length ?cs = chunk_count (int (length data))"
    by (simp add: length_chunks [OF k] chunk_count_length)
  have keys: "length ?keys = length ?hs" by (simp add: len)
  then have t: "set_trailers ?keys 0 ?hs Map.empty = Some (map_of (rev (zip ?keys ?hs)))"
    by (simp add: set_trailers_spec)
  have inj: "distinct ?keys"
    by (simp add: distinct_map inj_on_def trailer_key_def dec_str_inj)
  have d: "distinct (map fst (zip ?keys ?hs))" using inj by (simp only: map_fst_zip [OF keys])
  have tr: "map_of (rev (zip ?keys ?hs)) (trailer_key i) = Some (hex_encode (wl_hash lib (?cs ! i)))"
    if "i < length ?cs" for i
  proof -
    have "map_of (rev (zip ?keys ?hs)) = map_of (zip ?keys ?hs)"
      by (rule map_of_inject_set [THEN iffD2]) (use d in \<open>simp_all add: rev_map [symmetric] distinct_rev\<close>)
    moreover have "(trailer_key i, hex_encode (wl_hash lib (?cs ! i))) \<in> set (zip ?keys ?hs)"
      unfolding set_zip using that len by (intro CollectI exI [of _ i]) simp
    ultimately show ?thesis using map_of_is_SomeI [OF d] by simp
  qed
  have dec: "map (dec \<circ> wl_zstd lib) xs = xs" for xs using assms(7) by (induction xs) simp_all
  obtain r where r: "serve_open lib v p st q blank_response = Some r" "rs_status r = 200"
      "rs_writes r = map (encode lib ?z) ?cs" "rs_trailers r = map_of (rev (zip ?keys ?hs))"
      "rs_headers r ''Content-Encoding'' = (if ?z then Some ''zstd'' else None)"
    using assms t by (simp add: serve_open_def serve_chunked_def Let_def blank_response_def)
  have "(if rs_headers r ''Content-Encoding'' = Some ''zstd'' then map dec (rs_writes r) else rs_writes r) = ?cs"
    by (simp add: r(3,5) encode_def [abs_def] dec)
  then show ?thesis
    using r(1,2,4) tr concat_chunks [OF k, of data] length_chunks [OF k, of data] chunks_bounded [of _ chunk_size data]
    by (auto simp: Let_def list_all_iff)
qed

theorem chunked_response_reassembles_witness:
  "let data = replicate 256001 (7 :: byte) in
   \<exists>r. serve_open demo_web_lib (demo_fs data []) [] \<lparr>fs_is_dir = False, fs_size = 256001\<rparr>
      \<lparr>rq_path = '''', rq_if_none_match = '''', rq_accept_encoding = ''gzip, zstd''\<rparr> blank_response = Some r \<and>
     concat (map rev (rs_writes r)) = data \<and> length (rs_writes r) = 2"
proof -
  let ?d = "replicate 256001 (7 :: byte)"
  let ?q = "\<lparr>rq_path = '''', rq_if_none_match = '''', rq_accept_encoding = ''gzip, zstd''\<rparr>"
  obtain r where r: "serve_open demo_web_lib (demo_fs ?d []) [] \<lparr>fs_is_dir = False, fs_size = 256001\<rparr> ?q blank_response = Some r"
    "let parts = (if rs_headers r ''Content-Encoding'' = Some ''zstd'' then map rev (rs_writes r) else rs_writes r) in
       concat parts = ?d \<and> length parts = (length ?d + chunk_size - 1) div chunk_size"
    using chunked_response_reassembles [of "demo_fs ?d []" ?d "\<lparr>fs_is_dir = False, fs_size = 256001\<rparr>" ?q demo_web_lib rev "[]"]
    by (auto simp: demo_fs_def demo_web_lib_def chunk_size_def etag_of_def Let_def)
  moreover have "rs_headers r ''Content-Encoding'' = Some ''zstd''"
    using r(1) by (auto simp: serve_open_def serve_chunked_def Let_def demo_fs_def etag_of_def chunk_size_def has_prefix_def)
  ultimately show ?thesis by (auto simp: Let_def chunk_size_def)
qed

text \<open>
  serving in chunks panics exactly when the file has outgrown the size it had when it was opened by more than
  fills its last chunk: the number of trailers is fixed from the old size, and the loop over the hashes runs past it.
\<close>

theorem chunked_panics_iff_file_grew:
  "serve_chunked lib data fsize compress r = None \<longleftrightarrow> chunk_count fsize * chunk_size < length data"
proof -
  have k: "0 < chunk_size" by (simp add: chunk_size_def)
  have "length (chunks chunk_size data) \<le> n \<longleftrightarrow> length data \<le> n * chunk_size" for n
  proof -
    have "(length data + chunk_size - 1) div chunk_size \<le> n \<longleftrightarrow> length data + chunk_size - 1 < Suc n * chunk_size"
      using less_mult_imp_div_less [of "length data + chunk_size - 1" "Suc n" chunk_size] div_less_iff_less_mult [OF k, of "length data + chunk_size - 1" "Suc n"]
      by (simp add: less_Suc_eq_le)
    then show ?thesis unfolding length_chunks [OF k] by (auto simp: chunk_size_def)
  qed
  moreover have "chunks chunk_size data = [] \<longleftrightarrow> data = []" by (simp add: chunks.simps [of _ data] chunk_size_def)
  ultimately show ?thesis
    by (auto simp: serve_chunked_def Let_def set_trailers_spec not_le [symmetric])
qed

text \<open>
  revalidation works: a client that sends back the ETag of an earlier response gets status 304 without a body
  exactly if the file still has the same hash.
\<close>

theorem revalidation_by_hash:
  assumes "serve_open lib v p st q blank_response = Some r" "rs_headers r ''ETag'' = Some tag"
    "fv_hashed v' = Some data'" "fv_hashed v = Some data" "serve_open lib v' p' st' (q'\<lparr>rq_if_none_match := tag\<rparr>) blank_response = Some r'"
  shows "(rs_status r' = 304 \<longleftrightarrow> wl_hash lib data' = wl_hash lib data) \<and> (rs_status r' = 304 \<longrightarrow> rs_writes r' = [])"
proof -
  have "tag = etag_of lib data"
    using assms(1,2,4)
    by (auto simp: serve_open_def serve_chunked_def serve_small_def http_error_def Let_def split: if_splits option.splits)
  moreover have "etag_of lib data = etag_of lib data' \<longleftrightarrow> wl_hash lib data = wl_hash lib data'"
    by (auto simp: etag_of_def) (metis hex_decode_encode sum.inject(2))
  ultimately show ?thesis
    using assms(3,5)
    by (auto simp: serve_open_def serve_chunked_def serve_small_def http_error_def blank_response_def Let_def split: if_splits)
qed

theorem revalidation_by_hash_witness:
  "\<exists>r r'. let q = \<lparr>rq_path = '''', rq_if_none_match = '''', rq_accept_encoding = ''''\<rparr>; st = \<lparr>fs_is_dir = False, fs_size = 1\<rparr> in
     serve_open demo_web_lib (demo_fs [5] []) [] st q blank_response = Some r \<and>
     serve_open demo_web_lib (demo_fs [5] []) [] st (q\<lparr>rq_if_none_match := [CHR 0x22] @ ''05'' @ [CHR 0x22]\<rparr>) blank_response = Some r' \<and>
     rs_writes r = [[5]] \<and> rs_status r' = 304"
proof -
  let ?q = "\<lparr>rq_path = '''', rq_if_none_match = '''', rq_accept_encoding = ''''\<rparr>"
  let ?st = "\<lparr>fs_is_dir = False, fs_size = 1\<rparr>"
  let ?tag = "[CHR 0x22] @ ''05'' @ [CHR 0x22]"
  have tag: "etag_of demo_web_lib [5] = ?tag" by (simp add: etag_of_def demo_web_lib_def hex_digit_def)
  obtain r where r: "serve_open demo_web_lib (demo_fs [5] []) [] ?st ?q blank_response = Some r" "rs_headers r ''ETag'' = Some ?tag" "rs_writes r = [[5]]"
    using tag by (simp add: serve_open_def demo_fs_def blank_response_def serve_small_def Let_def chunk_size_def encode_def)
  obtain r' where r': "serve_open demo_web_lib (demo_fs [5] []) [] ?st (?q\<lparr>rq_if_none_match := ?tag\<rparr>) blank_response = Some r'"
    using tag by (simp add: serve_open_def demo_fs_def Let_def)
  from revalidation_by_hash [OF r(1,2) _ _ r'] have "rs_status r' = 304" by (simp add: demo_fs_def)
  with r(1,3) r' show ?thesis by (simp add: Let_def)
qed

text \<open>
  with the file system's root as the directory to serve, every path but the root itself is refused, because
  the test for escaping appends a second slash.
\<close>

theorem root_directory_serves_only_itself:
  "fst (resolve_file fs ''/'' url hs) = Inl ErrPermission \<longleftrightarrow> url_file ''/'' url \<noteq> ''/''"
proof -
  have r: "abs_path [] = ''/''" by (simp add: abs_path_def)
  obtain us where us: "url_file ''/'' url = abs_path us" "list_all safe_comp us"
    using url_file_inside [of "[]" url] by (auto simp: r)
  have "abs_path us = ''/'' \<longleftrightarrow> us = []"
  proof (cases us)
    case (Cons u vs)
    then show ?thesis using us(2) by (cases vs) (auto simp: abs_path_def safe_comp_def)
  qed (simp add: r)
  moreover have "escapes_root ''/'' (abs_path us) \<longleftrightarrow> us \<noteq> []"
    using escapes_root_iff [of "[]" us] us(2) by (simp add: r)
  ultimately show ?thesis
    by (auto simp: resolve_file_def us(1) Let_def split: option.splits)
qed

end
