(* ===== verification/HttpInfo.thy ===== *)
theory HttpInfo
  imports HttpDemo Peers
begin

text \<open>
  The information endpoint of the HTTP demo (\<open>info.go\<close>), with its cache of metrics, and the program's set-up
  (\<open>main.go\<close>): the node's configuration, the listeners, and the routing of requests. Times are nanoseconds of
  the monotonic clock; \<open>float64\<close> values are exact rationals.
\<close>

subsection \<open>Metrics\<close>

record web_peer = core_peer +
  wp_rx_rate :: "64 word"
  wp_tx_rate :: "64 word"
  wp_last_error_time :: int

record peer_json =
  pj_uri :: string
  pj_up :: bool
  pj_rx :: "64 word"
  pj_tx :: "64 word"
  pj_rx_rate :: "64 word"
  pj_tx_rate :: "64 word"
  pj_latency :: rat
  pj_last_error :: string
  pj_last_error_time :: "int option"

record bandwidth =
  bw_rx :: "64 word"
  bw_tx :: "64 word"
  bw_rx_rate :: "64 word"
  bw_tx_rate :: "64 word"

record metrics =
  mt_peers :: "peer_json list"
  mt_sessions :: nat
  mt_bw :: bandwidth
  mt_at :: int

definition peer_entry :: "web_peer \<Rightarrow> peer_json" where
  "peer_entry p = (let e = \<lparr>pj_uri = cp_uri p, pj_up = cp_up p, pj_rx = cp_rx p, pj_tx = cp_tx p,
       pj_rx_rate = wp_rx_rate p, pj_tx_rate = wp_tx_rate p,
       pj_latency = of_int (microseconds (cp_latency p)) / 1000, pj_last_error = '''', pj_last_error_time = None\<rparr>
     in case cp_last_error p of
          Some msg \<Rightarrow> if \<not> cp_up p then e\<lparr>pj_last_error := msg, pj_last_error_time := Some (wp_last_error_time p)\<rparr> else e
        | None \<Rightarrow> e)"

definition add_bandwidth :: "web_peer \<Rightarrow> bandwidth \<Rightarrow> bandwidth" where
  "add_bandwidth p b = \<lparr>bw_rx = bw_rx b + cp_rx p, bw_tx = bw_tx b + cp_tx p,
     bw_rx_rate = bw_rx_rate b + wp_rx_rate p, bw_tx_rate = bw_tx_rate b + wp_tx_rate p\<rparr>"

definition no_bandwidth :: bandwidth where
  "no_bandwidth = \<lparr>bw_rx = 0, bw_tx = 0, bw_rx_rate = 0, bw_tx_rate = 0\<rparr>"

definition refresh_metrics :: "web_peer list \<Rightarrow> nat \<Rightarrow> int \<Rightarrow> metrics" where
  "refresh_metrics ps sessions now =
     \<lparr>mt_peers = map peer_entry ps, mt_sessions = sessions, mt_bw = fold add_bandwidth ps no_bandwidth, mt_at = now\<rparr>"

definition metrics_ttl :: int where
  "metrics_ttl = 10 * 10 ^ 9"

text \<open>One request: the time of the check, the time a refresh takes its stamp, and what the core would answer.\<close>

record info_request =
  ir_now :: int
  ir_done :: int
  ir_peers :: "web_peer list"
  ir_sessions :: nat

text \<open>\<open>getMetrics\<close>; it runs under the handler's mutex. The result is also the new cache.\<close>

definition get_metrics :: "info_request \<Rightarrow> metrics option \<Rightarrow> metrics" where
  "get_metrics r cached = (case cached of
       None \<Rightarrow> refresh_metrics (ir_peers r) (ir_sessions r) (ir_done r)
     | Some m \<Rightarrow>
         if ir_now r - mt_at m \<ge> metrics_ttl then refresh_metrics (ir_peers r) (ir_sessions r) (ir_done r) else m)"

fun metrics_run :: "info_request list \<Rightarrow> metrics option \<Rightarrow> metrics list" where
  "metrics_run [] cached = []"
| "metrics_run (r # rs) cached = (let m = get_metrics r cached in m # metrics_run rs (Some m))"

subsection \<open>The response\<close>

definition int_str :: "int \<Rightarrow> string" where
  "int_str n = (if n < 0 then ''-'' @ dec_str (nat (- n)) else dec_str (nat n))"

definition build_addresses :: "http_config \<Rightarrow> string list" where
  "build_addresses c =
     (if hc_hostname c = ''localhost'' then map (\<lambda>p. ''localhost:'' @ int_str p) (hc_http_ports c) else [hc_hostname c])"

record info_json =
  ij_public_key :: string
  ij_ygg_address :: string
  ij_addresses :: "string list"
  ij_ygg_ports :: "int list"
  ij_is_yggdrasil :: bool
  ij_uptime :: rat
  ij_sessions :: nat
  ij_bandwidth :: bandwidth
  ij_peers :: "peer_json list"
  ij_cached_at :: int

definition info_response :: "http_config \<Rightarrow> bytes \<Rightarrow> string \<Rightarrow> bool \<Rightarrow> int \<Rightarrow> int \<Rightarrow> metrics \<Rightarrow> info_json" where
  "info_response c key addr is_ygg start now m =
     \<lparr>ij_public_key = hex_encode key, ij_ygg_address = addr, ij_addresses = build_addresses c,
      ij_ygg_ports = hc_ygg_ports c, ij_is_yggdrasil = is_ygg, ij_uptime = of_int (now - start) / 10 ^ 9,
      ij_sessions = mt_sessions m, ij_bandwidth = mt_bw m, ij_peers = mt_peers m, ij_cached_at = mt_at m\<rparr>"

subsection \<open>Set-up\<close>

text \<open>The node's configuration; Inl is the exit with an invalid key.\<close>

definition http_node_config :: "http_config \<Rightarrow> node_config \<Rightarrow> unit + node_config" where
  "http_node_config c generated =
     (let base = generated\<lparr>nc_admin_listen := ''none'', nc_peers := hc_peers c\<rparr> in
      if hc_private_key c \<noteq> '''' then
        (case hex_decode (hc_private_key c) of
           Inl _ \<Rightarrow> Inl ()
         | Inr key \<Rightarrow> if length key \<noteq> 64 then Inl () else Inr (base\<lparr>nc_private_key := key\<rparr>))
      else Inr base)"

definition shutdown_timeout :: int where
  "shutdown_timeout = 2 * 10 ^ 9"

definition http_config_obj :: "node_config \<Rightarrow> config_obj" where
  "http_config_obj nc =
     \<lparr>co_config = Some nc, co_multicast_logger = False, co_socks_addr = '''', co_nameserver = '''', co_local_tcp = [],
      co_local_udp = [], co_remote_tcp = [], co_remote_udp = [], co_udp_timeout = 0, co_activity_callback = False,
      co_peer_callback = False, co_core_stop_timeout = shutdown_timeout, co_low_power = None\<rparr>"

datatype http_exit =
    LoadConfigFailed http_config_error
  | InvalidPrivateKey
  | StartFailed start_error
  | ListenHttpFailed int
  | ListenYggFailed int

datatype http_outcome = HttpExit http_exit | HttpServing string node

fun http_listen_all :: "(int \<Rightarrow> bool) \<Rightarrow> int list \<Rightarrow> int option" where
  "http_listen_all listen [] = None"
| "http_listen_all listen (p # ps) = (if listen p then http_listen_all listen ps else Some p)"

fun ygg_listen_all :: "(nat \<Rightarrow> int \<Rightarrow> api_error option) \<Rightarrow> int list \<Rightarrow> node \<Rightarrow> int option \<times> node" where
  "ygg_listen_all ns_listen [] n = (None, n)"
| "ygg_listen_all ns_listen (p # ps) n = (case node_listen ns_listen p n of
     (Inl _, m) \<Rightarrow> (Some p, m)
   | (Inr _, m) \<Rightarrow> ygg_listen_all ns_listen ps m)"

text \<open>The URL of the QR code; the head of an empty port list is a panic.\<close>

definition qr_url :: "string \<Rightarrow> http_config \<Rightarrow> string option" where
  "qr_url addr c = (case hc_ygg_ports c of
       [] \<Rightarrow> None
     | p # _ \<Rightarrow> Some (''http://['' @ addr @ '']:'' @ int_str p @ ''/''))"

definition http_main ::
  "http_config_error + http_config \<Rightarrow> node_config \<Rightarrow> bool \<Rightarrow> start_env \<Rightarrow> string \<Rightarrow> (int \<Rightarrow> bool) \<Rightarrow>
     (nat \<Rightarrow> int \<Rightarrow> api_error option) \<Rightarrow> http_outcome option" where
  "http_main loaded generated hangs env addr listen ns_listen = (case loaded of
       Inl e \<Rightarrow> Some (HttpExit (LoadConfigFailed e))
     | Inr c \<Rightarrow> (case http_node_config c generated of
         Inl _ \<Rightarrow> Some (HttpExit InvalidPrivateKey)
       | Inr nc \<Rightarrow> (case new_node generated (http_config_obj nc) hangs env of
           None \<Rightarrow> None
         | Some (Some e, _) \<Rightarrow> Some (HttpExit (StartFailed e))
         | Some (None, n) \<Rightarrow> (case qr_url addr c of
             None \<Rightarrow> None
           | Some qr \<Rightarrow> (case http_listen_all listen (hc_http_ports c) of
               Some p \<Rightarrow> Some (HttpExit (ListenHttpFailed p))
             | None \<Rightarrow> (case ygg_listen_all ns_listen (hc_ygg_ports c) n of
                 (Some p, _) \<Rightarrow> Some (HttpExit (ListenYggFailed p))
               | (None, m) \<Rightarrow> Some (HttpServing qr m)))))))"

datatype route = RouteInfo bool | RouteQr | RouteYggFiles | RoutePlainFiles

text \<open>\<open>buildMux\<close>: the handler of a path the mux has cleaned.\<close>

definition mux_route :: "bool \<Rightarrow> string \<Rightarrow> route" where
  "mux_route is_ygg p =
     (if p = ''/yggdrasil-server.json'' then RouteInfo is_ygg
      else if p = ''/ygg-qr.png'' then RouteQr
      else if is_ygg then RouteYggFiles else RoutePlainFiles)"

subsection \<open>Lemmas and properties\<close>

lemma load_config_ports:
  "load_config read_file unmarshal path = Inr c \<Longrightarrow> hc_http_ports c \<noteq> [] \<and> hc_ygg_ports c \<noteq> [] \<and> hc_hostname c \<noteq> []"
  by (auto simp: load_config_def Let_def split: sum.splits if_splits)

lemma ygg_listen_all_registers:
  "ygg_listen_all ns ps n = (None, m) \<Longrightarrow> length (nd_closers m) = length (nd_closers n) + length ps"
proof (induction ps arbitrary: n)
  case (Cons p ps)
  then show ?case
    by (auto simp: node_listen_def alloc_def add_closer_def split: option.splits)
qed simp

lemma http_key_not_in_certificate:
  "http_node_config c g = Inr nc \<Longrightarrow> nc_certificate nc = nc_certificate g"
  by (auto simp: http_node_config_def Let_def split: if_splits sum.splits)

text \<open>
  the demo never fails on a configuration it has loaded: the program ends with one of its own error
  exits or serves, in particular the port of the QR code exists; when it serves, every Yggdrasil listener is
  registered for shutdown with the node.
\<close>

theorem http_main_never_panics:
  assumes "load_config read_file unmarshal path = loaded"
  shows "\<exists>out. http_main loaded g hangs env addr listen ns_listen = Some out \<and>
     (\<forall>qr m. out = HttpServing qr m \<longrightarrow> (\<exists>c. loaded = Inr c \<and> length (hc_ygg_ports c) \<le> length (nd_closers m)))"
proof (cases loaded)
  case (Inr c)
  obtain p ps where ports: "hc_ygg_ports c = p # ps"
    using load_config_ports assms Inr by (cases "hc_ygg_ports c") auto
  show ?thesis
  proof (cases "http_node_config c g")
    case (Inr nc)
    have t: "\<not> hangs \<or> co_core_stop_timeout (http_config_obj nc) \<noteq> 0"
      by (simp add: http_config_obj_def shutdown_timeout_def)
    show ?thesis
    proof (rule new_spec [OF t, of g env])
      fix n assume n: "new_node g (http_config_obj nc) hangs env = Some (None, n)"
      obtain f m where y: "ygg_listen_all ns_listen (hc_ygg_ports c) n = (f, m)" by (cases "ygg_listen_all ns_listen (hc_ygg_ports c) n")
      show ?thesis
        using n y \<open>loaded = Inr c\<close> Inr ports ygg_listen_all_registers [of ns_listen "hc_ygg_ports c" n m]
        by (cases "http_listen_all listen (hc_http_ports c)"; cases f) (simp_all add: http_main_def qr_url_def)
    next
      fix e m assume "new_node g (http_config_obj nc) hangs env = Some (Some e, m)"
      then show ?thesis using \<open>loaded = Inr c\<close> Inr by (simp add: http_main_def)
    qed
  qed (simp add: http_main_def \<open>loaded = Inr c\<close>)
qed (simp add: http_main_def)

definition demo_http_config :: http_config where
  "demo_http_config = \<lparr>hc_private_key = '''', hc_hostname = '''', hc_peers = [], hc_http_ports = [], hc_ygg_ports = []\<rparr>"

theorem http_main_never_panics_witness:
  "\<exists>out. http_main (load_config Inr (\<lambda>_. Inr demo_http_config) ''conf.yml'') demo_node_config False (demo_env True)
     ''200::1'' (\<lambda>_. True) (\<lambda>_ _. None) = Some out"
  using http_main_never_panics [of Inr "\<lambda>_. Inr demo_http_config" "''conf.yml''" _ demo_node_config False "demo_env True"
      "''200::1''" "\<lambda>_. True" "\<lambda>_ _. None"] by blast

text \<open>Requests in the order the mutex lets them through, on a clock that does not go back.\<close>

fun timed :: "int \<Rightarrow> info_request list \<Rightarrow> bool" where
  "timed t [] = True"
| "timed t (r # rs) = (t \<le> ir_now r \<and> ir_now r \<le> ir_done r \<and> timed (ir_done r) rs)"

fun spaced :: "int \<Rightarrow> int list \<Rightarrow> bool" where
  "spaced d (a # b # xs) = ((a = b \<or> a + d \<le> b) \<and> spaced d (b # xs))"
| "spaced d xs = True"

lemma get_metrics_cached:
  assumes "mt_at m \<le> t" "t \<le> ir_now r" "ir_now r \<le> ir_done r"
  shows "mt_at (get_metrics r (Some m)) \<le> ir_done r \<and> ir_now r - mt_at (get_metrics r (Some m)) < metrics_ttl \<and>
    (mt_at m = mt_at (get_metrics r (Some m)) \<or> mt_at m + metrics_ttl \<le> mt_at (get_metrics r (Some m)))"
  using assms by (auto simp: get_metrics_def refresh_metrics_def metrics_ttl_def)

lemma metrics_run_cached:
  "timed t rs \<Longrightarrow> mt_at m \<le> t \<Longrightarrow>
     list_all2 (\<lambda>r x. mt_at x \<le> ir_done r \<and> ir_now r - mt_at x < metrics_ttl) rs (metrics_run rs (Some m)) \<and>
     spaced metrics_ttl (mt_at m # map mt_at (metrics_run rs (Some m)))"
proof (induction rs arbitrary: t m)
  case (Cons r rs)
  then show ?case
    using get_metrics_cached [of m t r] Cons.IH [of "ir_done r" "get_metrics r (Some m)"] by (simp add: Let_def)
qed simp



lemma fold_bandwidth:
  "fold add_bandwidth ps b = \<lparr>bw_rx = bw_rx b + sum_list (map cp_rx ps), bw_tx = bw_tx b + sum_list (map cp_tx ps),
     bw_rx_rate = bw_rx_rate b + sum_list (map wp_rx_rate ps), bw_tx_rate = bw_tx_rate b + sum_list (map wp_tx_rate ps)\<rparr>"
  by (induction ps arbitrary: b) (simp_all add: add_bandwidth_def ac_simps)

text \<open>
  the reported bandwidth is the sum over the reported peers, entry by entry, modulo \<open>2^64\<close>, and an error is
  shown for peers that are down only.
\<close>

theorem metrics_totals:
  "mt_bw (refresh_metrics ps n t) =
     \<lparr>bw_rx = sum_list (map pj_rx (mt_peers (refresh_metrics ps n t))), bw_tx = sum_list (map pj_tx (mt_peers (refresh_metrics ps n t))),
      bw_rx_rate = sum_list (map pj_rx_rate (mt_peers (refresh_metrics ps n t))),
      bw_tx_rate = sum_list (map pj_tx_rate (mt_peers (refresh_metrics ps n t)))\<rparr> \<and>
   list_all (\<lambda>e. pj_last_error_time e = None \<or> \<not> pj_up e) (mt_peers (refresh_metrics ps n t))"
proof -
  have e: "pj_rx (peer_entry p) = cp_rx p" "pj_tx (peer_entry p) = cp_tx p" "pj_rx_rate (peer_entry p) = wp_rx_rate p"
    "pj_tx_rate (peer_entry p) = wp_tx_rate p" "pj_last_error_time (peer_entry p) = None \<or> \<not> pj_up (peer_entry p)" for p
    by (auto simp: peer_entry_def Let_def split: option.splits)
  show ?thesis
    by (auto simp: refresh_metrics_def fold_bandwidth no_bandwidth_def comp_def e list_all_iff)
qed

end
