(* ===== verification/HttpPlain.thy ===== *)
theory HttpPlain
  imports HttpInfo
begin

text \<open>
  The plain file server of the HTTP demo (\<open>handler_plain.go\<close>): \<open>http.FileServer\<close> of the standard library over the
  directory filter \<open>noListFSObj\<close>; the QR and information handlers of \<open>main.go\<close> and \<open>info.go\<close>, and the mux that
  chooses between the handlers. Conditional and range requests of the library are not modelled: a file is served
  by its name.
\<close>

subsection \<open>Paths\<close>

text \<open>\<open>path.Base\<close>.\<close>

definition path_base :: "string \<Rightarrow> string" where
  "path_base p =
     (if p = '''' then ''.''
      else let q = rev (dropWhile (\<lambda>c. c = CHR ''/'') (rev p)) in
        if q = '''' then ''/'' else last (go_split CHR ''/'' q))"

text \<open>\<open>http.Dir\<close>: a name is cleaned as an absolute path and put under the directory, the empty one being \<open>.\<close>.\<close>

definition http_dir_path :: "string \<Rightarrow> string \<Rightarrow> string" where
  "http_dir_path dir name = path_join (if dir = '''' then ''.'' else dir) (path_clean (''/'' @ name))"

definition dir_fs :: "web_fs \<Rightarrow> string \<Rightarrow> web_fs" where
  "dir_fs fs dir name = fs (http_dir_path dir name)"

subsection \<open>The file server\<close>

datatype plain_result =
    PlainRedirect string
  | PlainError fs_error      \<comment> \<open>answered with the status \<open>toHTTPError\<close> gives it\<close>
  | PlainTraversal           \<comment> \<open>a slash behind a file at the root, status 500\<close>
  | PlainListing string
  | PlainContent string

definition dir_index :: "string \<Rightarrow> string" where
  "dir_index name = cut_suffix name ''/'' @ ''/index.html''"

text \<open>
  \<open>serveFile\<close> of \<open>net/http\<close> with redirects, over an opener \<open>open_file\<close> that may refuse: an index page inside the
  directory takes its place when it can be opened and stated, and what is a directory after that is listed.
\<close>

definition serve_file ::
  "(string \<Rightarrow> handles \<Rightarrow> (fs_error + string) \<times> handles) \<Rightarrow> web_fs \<Rightarrow> string \<Rightarrow> string \<Rightarrow> handles \<Rightarrow> plain_result \<times> handles" where
  "serve_file open_file fs url name hs =
     (if has_suffix url ''/index.html'' then (PlainRedirect ''./'', hs)
      else (case open_file name hs of
         (Inl e, hs1) \<Rightarrow> (PlainError e, hs1)
       | (Inr f, hs1) \<Rightarrow> (case fv_stat (fs f) of
           None \<Rightarrow> (PlainError ErrStat, f_close f hs1)
         | Some st \<Rightarrow>
             if fs_is_dir st \<and> last url \<noteq> CHR ''/'' then (PlainRedirect (path_base url @ ''/''), f_close f hs1)
             else if \<not> fs_is_dir st \<and> last url = CHR ''/'' then
               (if path_base url = ''/'' \<or> path_base url = ''.'' then PlainTraversal
                else PlainRedirect (''../'' @ path_base url), f_close f hs1)
             else if fs_is_dir st then
               (case open_file (dir_index name) hs1 of
                  (Inl e, hs2) \<Rightarrow> (PlainListing f, f_close f hs2)
                | (Inr g, hs2) \<Rightarrow>
                    (case fv_stat (fs g) of
                       None \<Rightarrow> PlainListing f
                     | Some st' \<Rightarrow> if fs_is_dir st' then PlainListing g else PlainContent g,
                     f_close f (f_close g hs2)))
             else (PlainContent f, f_close f hs1))))"

definition slashed :: "string \<Rightarrow> string" where
  "slashed url = (if has_prefix url ''/'' then url else ''/'' @ url)"

text \<open>\<open>newPlainFileHandler\<close>, applied to a request: \<open>FileServer\<close> over the filter over \<open>http.Dir\<close>.\<close>

definition new_plain_file_handler :: "web_fs \<Rightarrow> string \<Rightarrow> string \<Rightarrow> handles \<Rightarrow> plain_result \<times> handles" where
  "new_plain_file_handler fs www url hs =
     (let d = dir_fs fs www in serve_file (no_list_open d) d (slashed url) (path_clean (slashed url)) hs)"

subsection \<open>The other handlers and the mux\<close>

text \<open>The QR handler: \<open>encode\<close> is \<open>qrcode.Encode\<close> of the URL, None where it fails.\<close>

definition qr_handler :: "(string \<Rightarrow> bytes option) \<Rightarrow> string \<Rightarrow> response" where
  "qr_handler qr_encode url = (case qr_encode url of
       None \<Rightarrow> http_error 500 blank_response
     | Some png \<Rightarrow> blank_response\<lparr>rs_headers := [''Content-Type'' \<mapsto> ''image/png'', ''Cache-Control'' \<mapsto> ''no-store''],
         rs_writes := [png]\<rparr>)"

text \<open>The information handler: \<open>marshal\<close> is \<open>json.Marshal\<close>; the result is also the new cache.\<close>

definition info_handler ::
  "(info_json \<Rightarrow> bytes) \<Rightarrow> http_config \<Rightarrow> bytes \<Rightarrow> string \<Rightarrow> int \<Rightarrow> bool \<Rightarrow> info_request \<Rightarrow> metrics option \<Rightarrow> response \<times> metrics" where
  "info_handler marshal c key addr start is_ygg r cached =
     (let m = get_metrics r cached in
      (blank_response\<lparr>rs_headers := [''Content-Type'' \<mapsto> ''application/json'', ''Cache-Control'' \<mapsto> ''max-age=10''],
         rs_writes := [marshal (info_response c key addr is_ygg start (ir_done r) m)]\<rparr>, m))"

record site =
  si_lib :: web_lib
  si_www :: string
  si_cwd :: string
  si_config :: http_config
  si_key :: bytes
  si_addr :: string
  si_start :: int
  si_qr :: "string \<Rightarrow> bytes option"
  si_qr_url :: string
  si_marshal :: "info_json \<Rightarrow> bytes"

text \<open>\<open>cleanPath\<close> of the mux, which redirects a request whose path is not clean.\<close>

definition mux_clean :: "string \<Rightarrow> string" where
  "mux_clean p =
     (let q = path_clean (slashed p) in
      if p = '''' then ''/''
      else if last p = CHR ''/'' \<and> q \<noteq> ''/'' then q @ ''/'' else q)"

datatype web_result = MuxRedirect string | Answered response | PlainAnswer plain_result | Panicked

text \<open>One request to a server: what it is answered, the cache, and the open files.\<close>

definition serve_site ::
  "site \<Rightarrow> web_fs \<Rightarrow> bool \<Rightarrow> info_request \<Rightarrow> web_request \<Rightarrow> metrics option \<times> handles \<Rightarrow> web_result \<times> metrics option \<times> handles" where
  "serve_site s fs is_ygg r q st = (case st of (cached, hs) \<Rightarrow>
     let p = rq_path q in
     if mux_clean p \<noteq> p then (MuxRedirect (mux_clean p), cached, hs)
     else (case mux_route is_ygg p of
        RouteInfo b \<Rightarrow> (case info_handler (si_marshal s) (si_config s) (si_key s) (si_addr s) (si_start s) b r cached of
            (resp, m) \<Rightarrow> (Answered resp, Some m, hs))
      | RouteQr \<Rightarrow> (Answered (qr_handler (si_qr s) (si_qr_url s)), cached, hs)
      | RouteYggFiles \<Rightarrow> (case serve_http (si_lib s) fs (new_ygg_file_handler (si_cwd s) (si_www s)) q hs of
            (None, hs1) \<Rightarrow> (Panicked, cached, hs1)
          | (Some resp, hs1) \<Rightarrow> (Answered resp, cached, hs1))
      | RoutePlainFiles \<Rightarrow> (case new_plain_file_handler fs (si_www s) p hs of
            (res, hs1) \<Rightarrow> (PlainAnswer res, cached, hs1))))"

subsection \<open>Properties\<close>

lemma serve_file_closes:
  assumes "\<And>name. file_opener (open_file name) (\<lambda>p. p)"
  shows "snd (serve_file open_file fs url name hs) = hs"
proof -
  have "snd (open_file nm h) = (case fst (open_file nm h) of Inl _ \<Rightarrow> h | Inr f \<Rightarrow> f # h)" for nm h
    using file_opener.left_open [OF assms] .
  then have "open_file nm h = (Inl e, h') \<Longrightarrow> h' = h" "open_file nm h = (Inr f, h') \<Longrightarrow> h' = f # h" for nm h h' e f
    by (metis fst_conv snd_conv old.sum.simps(5,6))+
  note o = this
  show ?thesis
    by (cases "open_file name hs"; cases "fst (open_file name hs)")
       (auto simp: serve_file_def split: option.splits prod.splits sum.splits dest!: o)
qed

lemma plain_opener: "file_opener (no_list_open fs name) (\<lambda>p. p)"
  by unfold_locales (rule plain_files.left_open)

text \<open>
  whichever handler the mux chooses, and however it ends, a request leaves open exactly the files that were
  open before.
\<close>

theorem every_route_closes_files:
  "snd (snd (serve_site s fs is_ygg r q (cached, hs))) = hs"
proof -
  have "snd (serve_http lib fs w q hs) = hs" for lib w
    using ygg_files.failed ygg_files.closed by (fastforce simp: serve_http_def split: prod.splits sum.splits)
  then have y: "serve_http lib fs w q hs = (x, hs1) \<Longrightarrow> hs1 = hs" for lib w x hs1 by (metis snd_conv)
  have "snd (new_plain_file_handler fs w p hs) = hs" for w p
    by (simp add: new_plain_file_handler_def Let_def serve_file_closes [OF plain_opener])
  then have p: "new_plain_file_handler fs w p hs = (x, hs1) \<Longrightarrow> hs1 = hs" for w p x hs1 by (metis snd_conv)
  show ?thesis
    by (auto simp: serve_site_def Let_def split: route.splits prod.splits option.splits dest: y p)
qed

lemma slashed_clean: "\<exists>cs. path_clean (slashed url) = abs_path cs \<and> list_all safe_comp cs"
proof -
  have "has_prefix (slashed url) ''/''" by (simp add: slashed_def has_prefix_append)
  then show ?thesis using path_clean_rooted by metis
qed

lemma abs_path_no_slash:
  assumes "list_all safe_comp cs" "cs \<noteq> []"
  shows "\<not> has_suffix (abs_path cs) ''/''"
proof -
  obtain ws c where cs: "cs = ws @ [c]" using assms(2) by (cases cs rule: rev_cases) auto
  then have c: "c \<noteq> []" "CHR ''/'' \<notin> set c" using assms(1) by (simp_all add: safe_comp_def)
  have "\<exists>r. abs_path cs = r @ c"
  proof (cases "ws = []")
    case False
    then have "abs_path cs = (abs_path ws @ ''/'') @ c"
      using abs_path_append [of ws "[c]"] by (simp add: cs)
    then show ?thesis by blast
  qed (simp add: cs abs_path_def exI [of _ "''/''"])
  then obtain r where "abs_path cs = r @ c" by blast
  then have "last (abs_path cs) = last c" using c(1) by simp
  then show ?thesis using c by (metis append_is_Nil_conv has_suffix_conv last_in_set last_snoc not_Cons_self2)
qed

lemma dir_index_clean:
  assumes "list_all safe_comp cs"
  shows "dir_index (abs_path cs) = abs_path (cs @ [''index.html''])"
    "path_join (abs_path cs) ''index.html'' = abs_path (cs @ [''index.html''])"
proof -
  show "path_join (abs_path cs) ''index.html'' = abs_path (cs @ [''index.html''])"
    by (rule path_join_comp [OF assms index_html_safe])
  show "dir_index (abs_path cs) = abs_path (cs @ [''index.html''])"
  proof (cases "cs = []")
    case True
    then show ?thesis by (simp add: dir_index_def cut_suffix_def has_suffix_def abs_path_def)
  next
    case False
    then have "cut_suffix (abs_path cs) ''/'' = abs_path cs"
      using abs_path_no_slash [OF assms] by (simp add: cut_suffix_def)
    then show ?thesis
      using abs_path_append [OF False, of "[''index.html'']"] by (simp add: dir_index_def)
  qed
qed

text \<open>
  the filter does not keep directories from being listed. A directory is listed exactly when it is asked for
  with a slash at the end and its \<open>index.html\<close> can be opened but is not a file that can be stated: a directory by
  that name passes the filter's test for an index page, and the library, which finds no page to serve, lists.
\<close>

theorem plain_lists_iff:
  "(\<exists>d. fst (new_plain_file_handler fs www url hs) = PlainListing d) \<longleftrightarrow>
     (let f = dir_fs fs www; name = path_clean (slashed url); idx = path_join name ''index.html'' in
       \<not> has_suffix (slashed url) ''/index.html'' \<and> last (slashed url) = CHR ''/'' \<and>
       fv_exists (f name) \<and> (\<exists>st. fv_stat (f name) = Some st \<and> fs_is_dir st) \<and>
       fv_exists (f idx) \<and> \<not> (\<exists>st. fv_stat (f idx) = Some st \<and> \<not> fs_is_dir st))"
proof -
  let ?f = "dir_fs fs www" and ?n = "path_clean (slashed url)"
  obtain cs where cs: "?n = abs_path cs" "list_all safe_comp cs" using slashed_clean by blast
  have idx: "dir_index ?n = path_join ?n ''index.html''"
    unfolding cs(1) using dir_index_clean [OF cs(2)] by simp
  show ?thesis
    unfolding new_plain_file_handler_def Let_def serve_file_def idx
    by (auto simp: no_list_open_def os_open_def Let_def split: option.splits if_splits prod.splits sum.splits)
qed

lemma clean_comps_append:
  "clean_comps True (xs @ ys) acc = clean_comps True ys (rev (clean_comps True xs acc))"
  by (induction True xs acc rule: clean_comps.induct) (auto split: list.splits)

lemma join_unclean:
  assumes "has_prefix www ''/''" "list_all safe_comp us"
  shows "\<exists>ws. path_clean www = abs_path ws \<and> list_all safe_comp ws \<and> path_join www (abs_path us) = abs_path (ws @ us)"
proof -
  let ?ws = "clean_comps True (go_split CHR ''/'' www) []"
  have ws: "path_clean www = abs_path ?ws" "list_all safe_comp ?ws"
    using assms(1) clean_comps_safe [OF _ split_no_slash, of "[]" www] by (simp_all add: path_clean_def)
  have n: "www \<noteq> []" "has_prefix (www @ ''/'' @ abs_path us) ''/''"
    using assms(1) by (auto simp: has_prefix_conv)
  have "go_split CHR ''/'' (www @ ''/'' @ abs_path us) = go_split CHR ''/'' www @ go_split CHR ''/'' (abs_path us)"
    using go_split_append_sep [of "CHR ''/''" www "abs_path us"] by simp
  then have "clean_comps True (go_split CHR ''/'' (www @ ''/'' @ abs_path us)) [] =
      clean_comps True (go_split CHR ''/'' (abs_path us)) (rev ?ws)"
    by (simp add: clean_comps_append)
  also have "\<dots> = ?ws @ us"
    using clean_comps_keep [OF assms(2), of "[]" "rev ?ws"] assms(2) by (auto simp: split_abs_path)
  finally have "path_join www (abs_path us) = abs_path (?ws @ us)"
    using n by (simp add: path_join_def path_clean_def)
  with ws show ?thesis by blast
qed

lemma clean_rooted_again: "list_all safe_comp us \<Longrightarrow> path_clean (''/'' @ abs_path us) = abs_path us"
proof -
  assume us: "list_all safe_comp us"
  have "go_split CHR ''/'' (''/'' @ abs_path us) = [] # go_split CHR ''/'' (abs_path us)"
    using go_split_append_sep [of "CHR ''/''" "[]" "abs_path us"] by simp
  then have "path_clean (''/'' @ abs_path us) = path_clean (abs_path us)"
    using has_prefix_append [of "''/''" "abs_path us"] by (simp add: path_clean_def del: has_prefix_append)
  then show ?thesis using us by simp
qed

text \<open>
  what the plain handler serves or lists lies under its directory, whatever the URL: its file is a clean
  path whose components begin with those of the directory, and what is served as content is not a directory.
\<close>

theorem plain_served_inside_root:
  assumes "has_prefix www ''/''" "fst (new_plain_file_handler fs www url hs) = res" "res = PlainContent p \<or> res = PlainListing p"
  shows "\<exists>ws us. path_clean www = abs_path ws \<and> http_dir_path www p = abs_path (ws @ us) \<and> list_all safe_comp (ws @ us) \<and>
     (res = PlainContent p \<longrightarrow> (\<exists>st. fv_stat (fs (abs_path (ws @ us))) = Some st \<and> \<not> fs_is_dir st))"
proof -
  let ?f = "dir_fs fs www" and ?n = "path_clean (slashed url)"
  obtain cs where cs: "?n = abs_path cs" "list_all safe_comp cs" using slashed_clean by blast
  have cs': "list_all safe_comp (cs @ [''index.html''])" using cs(2) index_html_safe by simp
  have "p = ?n \<or> p = dir_index ?n" "res = PlainContent p \<longrightarrow> (\<exists>st. fv_stat (?f p) = Some st \<and> \<not> fs_is_dir st)"
    using assms(2,3) unfolding new_plain_file_handler_def Let_def serve_file_def
    by (auto simp: no_list_open_def os_open_def Let_def split: option.splits if_splits prod.splits sum.splits)
  then obtain us where us: "p = abs_path us" "list_all safe_comp us"
      "res = PlainContent p \<longrightarrow> (\<exists>st. fv_stat (?f p) = Some st \<and> \<not> fs_is_dir st)"
    using cs cs' dir_index_clean(1) [OF cs(2)] by metis
  obtain ws where ws: "path_clean www = abs_path ws" "list_all safe_comp ws" "path_join www (abs_path us) = abs_path (ws @ us)"
    using join_unclean [OF assms(1) us(2)] by blast
  have "www \<noteq> ''''" using assms(1) by (auto simp: has_prefix_def)
  then have "http_dir_path www p = abs_path (ws @ us)"
    by (simp add: http_dir_path_def us(1) clean_rooted_again [OF us(2)] ws(3) del: append_Cons)
  then show ?thesis
    using ws us(2,3) by (intro exI [of _ ws] exI [of _ us]) (simp add: dir_fs_def)
qed

text \<open>A site whose only page is a directory called \<open>index.html\<close>.\<close>

definition listed_fs :: web_fs where
  "listed_fs p = \<lparr>fv_exists = True, fv_stat = Some \<lparr>fs_is_dir = True, fs_size = 0\<rparr>, fv_hashed = None, fv_seek = True,
     fv_served = ([], True)\<rparr>"

theorem plain_served_inside_root_witness:
  "\<exists>d ws us. fst (new_plain_file_handler listed_fs ''/srv'' ''/'' []) = PlainListing d \<and>
     http_dir_path ''/srv'' d = abs_path (ws @ us)"
proof -
  have "has_suffix (slashed ''/'') ''/index.html'' = False" "last (slashed ''/'') = CHR ''/''"
    by (simp_all add: slashed_def has_prefix_def has_suffix_def)
  then obtain d where d: "fst (new_plain_file_handler listed_fs ''/srv'' ''/'' []) = PlainListing d"
    by (auto simp: new_plain_file_handler_def serve_file_def no_list_open_def os_open_def listed_fs_def dir_fs_def Let_def)
  have "has_prefix ''/srv'' ''/''" by (simp add: has_prefix_def)
  from plain_served_inside_root [OF this refl] d show ?thesis by blast
qed

end
