(* ===== verification/Chat.thy ===== *)
theory Chat
  imports NodeLife GoText GoResolve "HOL-Library.Multiset"
begin

text \<open>
  The chat demo (\<open>cmd/embedded/tiny-chat\<close>) and the smallest HTTP demo (\<open>cmd/embedded/tiny-http\<close>). The chat is
  set up from two lines of input, waits for its peer to answer, and then turns each line into a goroutine that
  posts it; the receiving side is a handler of posted texts. The interleaving of the main loop with the posting
  goroutines is the order of the events of \<open>chat_turn\<close>.
\<close>

subsection \<open>Receiving\<close>

definition max_input :: nat where
  "max_input = 10 * 1024"

datatype reception = Dropped | PeerLeft | Shown string

text \<open>\<open>handleInput\<close>: a body beyond the limit is a read error, which is answered by nothing.\<close>

definition handle_input :: "string \<Rightarrow> reception" where
  "handle_input body =
     (if length body > max_input then Dropped
      else let msg = trim_space body in
        if msg = '''' then Dropped else if msg = ''/bye'' then PeerLeft else Shown msg)"

text \<open>The handler's state: \<open>shutdownOnce\<close>, how often \<open>shutdownCh\<close> has been closed, and what has been printed.\<close>

record receiver =
  rv_once :: bool
  rv_closed :: nat
  rv_shown :: "string list"

definition new_receiver :: receiver where
  "new_receiver = \<lparr>rv_once = False, rv_closed = 0, rv_shown = []\<rparr>"

definition close_shutdown :: "receiver \<Rightarrow> receiver" where
  "close_shutdown v = (if rv_once v then v else v\<lparr>rv_once := True, rv_closed := rv_closed v + 1\<rparr>)"

interpretation shutdown: close_once rv_once "\<lambda>_ :: unit. close_shutdown"
  by unfold_locales (simp_all add: close_shutdown_def)

definition receive :: "string \<Rightarrow> receiver \<Rightarrow> receiver" where
  "receive body v = (case handle_input body of
       Dropped \<Rightarrow> v
     | PeerLeft \<Rightarrow> close_shutdown v
     | Shown msg \<Rightarrow> v\<lparr>rv_shown := rv_shown v @ [msg]\<rparr>)"

definition handle_ping :: string where
  "handle_ping = ''OK-chat''"

subsection \<open>Set-up\<close>

definition chat_port :: int where
  "chat_port = 9998"

datatype chat_setup_error = NoInput | EmptyPeer | ChatStartFailed start_error | ChatListenFailed | InvalidPeerKey

definition chat_node_config :: "string \<Rightarrow> node_config \<Rightarrow> node_config" where
  "chat_node_config uri generated = generated\<lparr>nc_admin_listen := ''none'', nc_peers := [uri]\<rparr>"

definition plain_config_obj :: "node_config \<Rightarrow> int \<Rightarrow> config_obj" where
  "plain_config_obj nc stop_timeout =
     \<lparr>co_config = Some nc, co_multicast_logger = False, co_socks_addr = '''', co_nameserver = '''', co_local_tcp = [],
      co_local_udp = [], co_remote_tcp = [], co_remote_udp = [], co_udp_timeout = 0, co_activity_callback = False,
      co_peer_callback = False, co_core_stop_timeout = stop_timeout, co_low_power = None\<rparr>"

text \<open>\<open>lines\<close> are the lines of stdin, \<open>addr_for_key\<close> is \<open>address.AddrForKey\<close>; the result is the peer's URL.\<close>

definition peer_url :: "(bytes \<Rightarrow> bytes) \<Rightarrow> string \<Rightarrow> chat_setup_error + string" where
  "peer_url addr_for_key line = (case hex_decode (trim_space line) of
       Inl _ \<Rightarrow> Inl InvalidPeerKey
     | Inr key \<Rightarrow> if length key \<noteq> 32 then Inl InvalidPeerKey
         else Inr (''http://['' @ ip_string (Some (addr_for_key key)) @ '']:9998''))"

definition chat_setup ::
  "(bytes \<Rightarrow> bytes) \<Rightarrow> node_config \<Rightarrow> bool \<Rightarrow> start_env \<Rightarrow> (nat \<Rightarrow> int \<Rightarrow> api_error option) \<Rightarrow> string list \<Rightarrow>
     ((chat_setup_error + string) \<times> node option) option" where
  "chat_setup addr_for_key generated hangs env ns_listen lines = (case lines of
       [] \<Rightarrow> Some (Inl NoInput, None)
     | l1 # rest \<Rightarrow>
         (let uri = trim_space l1 in
          if uri = '''' then Some (Inl EmptyPeer, None)
          else (case new_node generated (plain_config_obj (chat_node_config uri generated) 0) hangs env of
              None \<Rightarrow> None
            | Some (Some e, _) \<Rightarrow> Some (Inl (ChatStartFailed e), None)
            | Some (None, n) \<Rightarrow> (case node_listen ns_listen chat_port n of
                (Inl _, m) \<Rightarrow> Some (Inl ChatListenFailed, Some m)
              | (Inr _, m) \<Rightarrow> (case rest of
                    [] \<Rightarrow> Some (Inl NoInput, Some m)
                  | l2 # _ \<Rightarrow> Some (peer_url addr_for_key l2, Some m))))))"

text \<open>
  Waiting for the peer: the answers to successive pings (None is an error), with whether the context has ended
  before each. The result is whether the peer answered; None where the pings run out.
\<close>

fun wait_for_peer :: "(bool \<times> string option) list \<Rightarrow> bool option" where
  "wait_for_peer [] = None"
| "wait_for_peer ((cancelled, answer) # ps) =
     (if cancelled then Some False
      else if answer = Some ''OK-chat'' then Some True
      else wait_for_peer ps)"

subsection \<open>The conversation\<close>

datatype chat_status = Chatting | Leaving | Ended

text \<open>\<open>ct_sending\<close> are the goroutines of \<open>sendMessage\<close>, by their texts; \<open>ct_posted\<close> has arrived at the peer.\<close>

record chat =
  ct_status :: chat_status
  ct_sending :: "string list"
  ct_posted :: "string list"
  ct_failed :: "string list"

definition new_chat :: chat where
  "new_chat = \<lparr>ct_status = Chatting, ct_sending = [], ct_posted = [], ct_failed = []\<rparr>"

text \<open>
  \<open>Leaving\<close> is between \<open>sendMessage("/bye")\<close> and \<open>os.Exit(0)\<close>, and during the deferred calls after the context or
  the input has ended; \<open>Exit\<close> ends the process, and then nothing moves.
\<close>

datatype chat_event =
    ShutdownSignal
  | ContextDone
  | InputClosed
  | Line string
  | Exit
  | Posted nat
  | PostFailed nat

definition send_message :: "string \<Rightarrow> chat \<Rightarrow> chat" where
  "send_message msg c = c\<lparr>ct_sending := ct_sending c @ [msg]\<rparr>"

definition remove_nth :: "nat \<Rightarrow> 'a list \<Rightarrow> 'a list" where
  "remove_nth i xs = take i xs @ drop (i + 1) xs"

fun main_turn :: "chat_event \<Rightarrow> chat \<Rightarrow> chat" where
  "main_turn (Line l) c =
     (if ct_status c \<noteq> Chatting \<or> l = '''' then c
      else if l = ''/bye'' then (send_message ''/bye'' c)\<lparr>ct_status := Leaving\<rparr>
      else send_message l c)"
| "main_turn Exit c = (if ct_status c = Leaving then c\<lparr>ct_status := Ended\<rparr> else c)"
| "main_turn (Posted i) c = c"
| "main_turn (PostFailed i) c = c"
| "main_turn ShutdownSignal c = (if ct_status c = Chatting then c\<lparr>ct_status := Ended\<rparr> else c)"
| "main_turn e c = (if ct_status c = Chatting then c\<lparr>ct_status := Leaving\<rparr> else c)"

definition chat_turn :: "chat_event \<Rightarrow> chat \<Rightarrow> chat" where
  "chat_turn e c =
     (if ct_status c = Ended then c
      else (case e of
         Posted i \<Rightarrow>
           if i < length (ct_sending c)
           then c\<lparr>ct_sending := remove_nth i (ct_sending c), ct_posted := ct_posted c @ [ct_sending c ! i]\<rparr> else c
       | PostFailed i \<Rightarrow>
           if i < length (ct_sending c)
           then c\<lparr>ct_sending := remove_nth i (ct_sending c), ct_failed := ct_failed c @ [ct_sending c ! i]\<rparr> else c
       | _ \<Rightarrow> main_turn e c))"

definition chat_run :: "chat_event list \<Rightarrow> chat \<Rightarrow> chat" where
  "chat_run es c = fold chat_turn es c"

text \<open>The lines a run takes: those entered while chatting, empty ones left out.\<close>

fun lines_taken :: "chat_event list \<Rightarrow> chat \<Rightarrow> string list" where
  "lines_taken [] c = []"
| "lines_taken (e # es) c =
     (case e of Line l \<Rightarrow> if ct_status c = Chatting \<and> l \<noteq> '''' then [l] else [] | _ \<Rightarrow> []) @ lines_taken es (chat_turn e c)"

subsection \<open>Reading the lines\<close>

text \<open>
  \<open>bufio.Scanner\<close> with its defaults: lines without their line feed and one carriage return before it, the
  unterminated rest of the input as the last one, and the end of all scanning at the first line of 64 KB or more.
\<close>

definition max_token :: nat where
  "max_token = 64 * 1024"

definition newline :: char where
  "newline = CHR 0x0A"

definition drop_cr :: "string \<Rightarrow> string" where
  "drop_cr l = (if l \<noteq> [] \<and> last l = CHR 0x0D then butlast l else l)"

function scan_lines :: "string \<Rightarrow> string list" where
  "scan_lines s =
     (if s = [] then []
      else let l = takeWhile (\<lambda>c. c \<noteq> newline) s; rest = dropWhile (\<lambda>c. c \<noteq> newline) s in
        if max_token \<le> length l then []
        else drop_cr l # (case rest of [] \<Rightarrow> [] | _ # r \<Rightarrow> scan_lines r))"
  by auto
termination
proof (relation "measure length", goal_cases)
  case (2 s l rest c r)
  then have "length (c # r) \<le> length s" by (metis length_dropWhile_le)
  then show ?case by simp
qed simp

declare scan_lines.simps [simp del]

text \<open>What the goroutine of \<open>main\<close> makes of the rest of the input.\<close>

definition input_events :: "string \<Rightarrow> chat_event list" where
  "input_events s = map Line (scan_lines s) @ [InputClosed]"

subsection \<open>The smallest HTTP demo\<close>

definition tiny_peer :: string where
  "tiny_peer = ''tls://yggdrasil.sunsung.fun:4443''"

definition tiny_port :: int where
  "tiny_port = 8080"

definition tiny_shutdown_timeout :: int where
  "tiny_shutdown_timeout = 5 * 10 ^ 9"

datatype tiny_outcome = TinyListenFailed | TinyStartFailed start_error | TinyYggListenFailed node | TinyServing node

definition tiny_http_main ::
  "bool \<Rightarrow> node_config \<Rightarrow> bool \<Rightarrow> start_env \<Rightarrow> (nat \<Rightarrow> int \<Rightarrow> api_error option) \<Rightarrow> tiny_outcome option" where
  "tiny_http_main tcp_ok generated hangs env ns_listen =
     (if \<not> tcp_ok then Some TinyListenFailed
      else (case new_node generated (plain_config_obj (chat_node_config tiny_peer generated) tiny_shutdown_timeout) hangs env of
         None \<Rightarrow> None
       | Some (Some e, _) \<Rightarrow> Some (TinyStartFailed e)
       | Some (None, n) \<Rightarrow> (case node_listen ns_listen tiny_port n of
           (Inl _, m) \<Rightarrow> Some (TinyYggListenFailed m)
         | (Inr _, m) \<Rightarrow> Some (TinyServing m))))"

subsection \<open>Properties\<close>

lemma mset_remove_nth: "i < length xs \<Longrightarrow> mset xs = add_mset (xs ! i) (mset (remove_nth i xs))"
  unfolding remove_nth_def by (metis Suc_eq_plus1 id_take_nth_drop mset.simps(2) mset_append union_mset_add_mset_right)

definition chat_all :: "chat \<Rightarrow> string multiset" where
  "chat_all c = mset (ct_sending c) + mset (ct_posted c) + mset (ct_failed c)"

lemma chat_turn_all:
  "chat_all (chat_turn e c) =
     chat_all c + mset (case e of Line l \<Rightarrow> if ct_status c = Chatting \<and> l \<noteq> '''' then [l] else [] | _ \<Rightarrow> [])"
  by (cases e) (auto simp: chat_turn_def chat_all_def send_message_def dest!: mset_remove_nth)

lemma chat_run_all: "chat_all (chat_run es c) = chat_all c + mset (lines_taken es c)"
proof (induction es arbitrary: c)
  case (Cons e es)
  then show ?case using chat_turn_all [of e c] by (simp add: chat_run_def ac_simps)
qed (simp add: chat_run_def)

text \<open>
  the chat makes up no message and sends none twice: in every interleaving of the loop with the posting
  goroutines, the messages that have arrived, have failed or are on their way are exactly the lines taken.
\<close>

theorem chat_messages_conserved:
  "mset (ct_posted (chat_run es new_chat)) + mset (ct_failed (chat_run es new_chat)) + mset (ct_sending (chat_run es new_chat)) =
     mset (lines_taken es new_chat)"
  using chat_run_all [of es new_chat] by (simp add: chat_all_def new_chat_def ac_simps)

text \<open>
  leaving does not wait for the farewell: the process can end with \<open>/bye\<close> and any number of messages typed
  before it unsent, and messages can arrive in another order than they were typed.
\<close>

theorem chat_bye_may_be_lost:
  assumes "list_all (\<lambda>l. l \<noteq> [] \<and> l \<noteq> ''/bye'') ls"
  shows "ct_status (chat_run (map Line ls @ [Line ''/bye'', Exit]) new_chat) = Ended \<and>
     ct_posted (chat_run (map Line ls @ [Line ''/bye'', Exit]) new_chat) = [] \<and>
     ct_posted (chat_run [Line ''a'', Line ''b'', Posted 1, Posted 0] new_chat) = [''b'', ''a'']"
proof -
  have "fold chat_turn (map Line ls) c = c\<lparr>ct_sending := ct_sending c @ ls\<rparr>" if "ct_status c = Chatting" for c
    using assms that
  proof (induction ls arbitrary: c)
    case (Cons l ls)
    then show ?case by (simp add: chat_turn_def send_message_def)
  qed simp
  from this [of new_chat] show ?thesis
    by (simp add: chat_run_def chat_turn_def send_message_def new_chat_def remove_nth_def)
qed

theorem chat_bye_may_be_lost_witness:
  "ct_status (chat_run [Line ''hi'', Line ''/bye'', Exit] new_chat) = Ended \<and>
   ct_posted (chat_run [Line ''hi'', Line ''/bye'', Exit] new_chat) = []"
  using chat_bye_may_be_lost [of "[''hi'']"] by simp

text \<open>
  the shutdown channel is closed at most once, so a peer that says farewell repeatedly cannot make the
  process panic, and it is closed exactly if some message of at most 10 KB is \<open>/bye\<close> up to white space.
\<close>

theorem receiver_closes_once:
  "rv_closed (fold receive bodies new_receiver) = (if list_ex (\<lambda>b. handle_input b = PeerLeft) bodies then 1 else 0)"
proof -
  have "rv_closed (fold receive bodies v) =
      rv_closed v + (if \<not> rv_once v \<and> list_ex (\<lambda>b. handle_input b = PeerLeft) bodies then 1 else 0)" for v
    by (induction bodies arbitrary: v) (auto simp: receive_def close_shutdown_def split: reception.splits)
  from this [of new_receiver] show ?thesis by (simp add: new_receiver_def)
qed

lemma scan_lines_nil [simp]: "scan_lines [] = []"
  by (simp add: scan_lines.simps)

lemma scan_lines_too_long:
  assumes "newline \<notin> set l" "max_token \<le> length l"
  shows "scan_lines (l @ rest) = []"
proof -
  have "takeWhile (\<lambda>c. c \<noteq> newline) (l @ rest) = l @ takeWhile (\<lambda>c. c \<noteq> newline) rest"
    using assms(1) by (intro takeWhile_append2) auto
  then show ?thesis using assms(2) by (subst scan_lines.simps) (simp add: Let_def)
qed

lemma scan_lines_line:
  assumes "newline \<notin> set l" "length l < max_token"
  shows "scan_lines (l @ newline # rest) = drop_cr l # scan_lines rest"
proof -
  have t: "takeWhile (\<lambda>c. c \<noteq> newline) (l @ newline # rest) = l" "dropWhile (\<lambda>c. c \<noteq> newline) (l @ newline # rest) = newline # rest"
    using assms(1) by (subst takeWhile_append2, auto) (subst dropWhile_append2, auto)
  show ?thesis using assms(2) by (subst scan_lines.simps) (simp add: t Let_def)
qed

text \<open>What the scanner yields holds no line feed and is shorter than the limit.\<close>

lemma scan_lines_bounds: "l \<in> set (scan_lines s) \<Longrightarrow> newline \<notin> set l \<and> length l < max_token"
proof (induction s rule: scan_lines.induct)
  case (1 s)
  let ?l = "takeWhile (\<lambda>c. c \<noteq> newline) s"
  have d: "set (drop_cr x) \<subseteq> set x \<and> length (drop_cr x) \<le> length x" for x
    by (auto simp: drop_cr_def dest: in_set_butlastD)
  have "newline \<notin> set ?l" by (auto dest: set_takeWhileD)
  with 1 d [of ?l] show ?case
    by (subst (asm) (2) scan_lines.simps) (auto simp: Let_def split: if_splits list.splits)
qed

text \<open>
  a line the user types is lost or fatal when it is long: from the first line of 64 KB on nothing more is
  read and the chat ends by itself, and a line over 10 KB below that is posted as a message, but the receiving
  end drops it without a word.
\<close>

theorem long_lines_end_or_vanish:
  assumes "newline \<notin> set l"
  shows "(max_token \<le> length l \<longrightarrow> chat_run (input_events (l @ rest)) new_chat = new_chat\<lparr>ct_status := Leaving\<rparr>) \<and>
     (max_input < length (drop_cr l) \<and> length l < max_token \<longrightarrow>
        input_events (l @ newline # rest) = Line (drop_cr l) # input_events rest \<and>
        ct_sending (chat_turn (Line (drop_cr l)) new_chat) = [drop_cr l] \<and> receive (drop_cr l) v = v)"
proof (intro conjI impI)
  assume "max_token \<le> length l"
  then show "chat_run (input_events (l @ rest)) new_chat = new_chat\<lparr>ct_status := Leaving\<rparr>"
    using scan_lines_too_long [OF assms] by (simp add: input_events_def chat_run_def chat_turn_def new_chat_def)
next
  assume l: "max_input < length (drop_cr l) \<and> length l < max_token"
  then show "input_events (l @ newline # rest) = Line (drop_cr l) # input_events rest"
    using scan_lines_line [OF assms] by (simp add: input_events_def)
  have "drop_cr l \<noteq> []" "drop_cr l \<noteq> ''/bye''" using l by (auto simp: max_input_def)
  then show "ct_sending (chat_turn (Line (drop_cr l)) new_chat) = [drop_cr l]"
    by (simp add: chat_turn_def send_message_def new_chat_def)
  show "receive (drop_cr l) v = v" using l by (simp add: receive_def handle_input_def)
qed

theorem long_lines_end_or_vanish_witness:
  "receive (replicate 20000 CHR ''a'') new_receiver = new_receiver \<and>
   chat_run (input_events (replicate 70000 CHR ''a'')) new_chat = new_chat\<lparr>ct_status := Leaving\<rparr>"
proof -
  have n: "newline \<notin> set (replicate k CHR ''a'')" for k by (auto simp: newline_def)
  have d: "drop_cr (replicate 20000 CHR ''a'') = replicate 20000 CHR ''a''" by (simp add: drop_cr_def last_replicate)
  from long_lines_end_or_vanish [OF n [of 20000], of "[]" new_receiver] long_lines_end_or_vanish [OF n [of 70000], of "[]"]
  show ?thesis unfolding d by (simp add: max_input_def max_token_def)
qed

subsection \<open>Two ends\<close>

text \<open>What the receiving end shows for the bodies that arrive, in their order.\<close>

definition shown_of :: "string list \<Rightarrow> string list" where
  "shown_of bodies = concat (map (\<lambda>b. case handle_input b of Shown m \<Rightarrow> [m] | _ \<Rightarrow> []) bodies)"

lemma receive_shown: "rv_shown (fold receive bodies v) = rv_shown v @ shown_of bodies"
  by (induction bodies arbitrary: v)
     (auto simp: receive_def close_shutdown_def shown_of_def split: reception.splits)

lemma shown_subset: "mset (shown_of bodies) \<subseteq># image_mset trim_space (mset bodies)"
proof (induction bodies)
  case (Cons b bs)
  have "handle_input b = Shown m \<Longrightarrow> m = trim_space b" for m
    by (auto simp: handle_input_def Let_def split: if_splits)
  moreover have "mset (shown_of bs) \<subseteq># add_mset (trim_space b) (image_mset trim_space (mset bs))"
    using Cons by (metis add_mset_add_single mset_subset_eq_add_left subset_mset.order_trans)
  ultimately show ?case
    using Cons by (cases "handle_input b") (auto simp: shown_of_def)
qed (simp add: shown_of_def)

lemma posted_taken: "mset (ct_posted (chat_run es new_chat)) \<subseteq># mset (lines_taken es new_chat)"
proof -
  let ?c = "chat_run es new_chat"
  have "mset (lines_taken es new_chat) = mset (ct_posted ?c) + (mset (ct_sending ?c) + mset (ct_failed ?c))"
    using chat_run_all [of es new_chat] by (simp add: chat_all_def new_chat_def ac_simps)
  then show ?thesis by simp
qed

text \<open>
  C30: between two ends no message is made up or repeated: whatever the interleaving of typing, posting and
  failing, what the peer's screen shows is, as a multiset, part of the lines typed, each stripped of white space
  around it; it is never empty and never the farewell.
\<close>

theorem shown_messages_were_typed:
  "(let shown = rv_shown (fold receive (ct_posted (chat_run es new_chat)) new_receiver) in
      mset shown \<subseteq># image_mset trim_space (mset (lines_taken es new_chat)) \<and> '''' \<notin> set shown \<and> ''/bye'' \<notin> set shown)"
proof -
  let ?p = "ct_posted (chat_run es new_chat)"
  have "mset (shown_of ?p) \<subseteq># image_mset trim_space (mset (lines_taken es new_chat))"
    by (rule subset_mset.trans [OF shown_subset image_mset_subseteq_mono [OF posted_taken]])
  moreover have "'''' \<notin> set (shown_of ?p) \<and> ''/bye'' \<notin> set (shown_of ?p)"
    by (auto simp: shown_of_def handle_input_def Let_def split: if_splits reception.splits)
  ultimately show ?thesis by (simp add: receive_shown new_receiver_def)
qed

text \<open>
  the two ends disagree on what a farewell is: a line that is \<open>/bye\<close> with white space around it is an
  ordinary message to the end that sends it, which goes on chatting, but makes the peer leave.
\<close>

theorem padded_bye_ends_only_peer:
  assumes "trim_space l = ''/bye''" "l \<noteq> ''/bye''" "length l \<le> max_input"
  shows "ct_status (chat_run [Line l, Posted 0] new_chat) = Chatting \<and>
     rv_closed (fold receive (ct_posted (chat_run [Line l, Posted 0] new_chat)) new_receiver) = 1"
proof -
  have "l \<noteq> ''''" using assms(1) by auto
  then show ?thesis
    using assms by (simp add: chat_run_def chat_turn_def send_message_def new_chat_def remove_nth_def receive_def
        handle_input_def close_shutdown_def new_receiver_def Let_def)
qed

theorem padded_bye_ends_only_peer_witness:
  "ct_status (chat_run [Line '' /bye'', Posted 0] new_chat) = Chatting"
proof -
  have "graphic CHR ''/''" "graphic CHR ''e''" by (simp_all add: graphic_def)
  then have "trim_space '' /bye'' = ''/bye''" by (simp add: trim_space_def trim_left_space trim_left_graphic trim_right_graphic)
  from padded_bye_ends_only_peer [OF this] show ?thesis by (simp add: max_input_def)
qed

end
