(* ===== verification/DemoPrograms.thy ===== *)
theory DemoPrograms
  imports HttpInfo Chat
begin

text \<open>
  The demo programs to their end (\<open>cmd/embedded/http\<close>, \<open>tiny-http\<close>, \<open>tiny-chat\<close>): a return of \<open>main\<close> runs the
  deferred \<open>Close\<close> of the node, \<open>os.Exit\<close> does not. They serve until a signal, which is the moment of the return.
\<close>

subsection \<open>Ends\<close>

datatype program_end =
    NoNode               \<comment> \<open>ended before there was a node, or because there is none\<close>
  | NodeShut node        \<comment> \<open>returned, with the closed node\<close>
  | Abrupt node          \<comment> \<open>\<open>os.Exit\<close>, with the node it leaves open\<close>
  | StillRunning node

definition return_from :: "node \<Rightarrow> program_end option" where
  "return_from n = map_option NodeShut (close_node n)"

definition tiny_http_run ::
  "bool \<Rightarrow> node_config \<Rightarrow> bool \<Rightarrow> start_env \<Rightarrow> (nat \<Rightarrow> int \<Rightarrow> api_error option) \<Rightarrow> program_end option" where
  "tiny_http_run tcp_ok generated hangs env ns_listen = (case tiny_http_main tcp_ok generated hangs env ns_listen of
       None \<Rightarrow> None
     | Some (TinyYggListenFailed n) \<Rightarrow> return_from n
     | Some (TinyServing n) \<Rightarrow> return_from n
     | Some _ \<Rightarrow> Some NoNode)"

text \<open>\<open>http_main\<close> gives no node with an exit code: the process ends by \<open>os.Exit(1)\<close>.\<close>

definition http_run ::
  "http_config_error + http_config \<Rightarrow> node_config \<Rightarrow> bool \<Rightarrow> start_env \<Rightarrow> string \<Rightarrow> (int \<Rightarrow> bool) \<Rightarrow>
     (nat \<Rightarrow> int \<Rightarrow> api_error option) \<Rightarrow> (http_exit + program_end) option" where
  "http_run loaded generated hangs env addr listen ns_listen =
     (case http_main loaded generated hangs env addr listen ns_listen of
       None \<Rightarrow> None
     | Some (HttpExit e) \<Rightarrow> Some (Inl e)
     | Some (HttpServing qr n) \<Rightarrow> map_option Inr (return_from n))"

text \<open>How the loop of the chat is left: None while it goes on, otherwise whether by \<open>os.Exit\<close>.\<close>

fun chat_exit :: "chat_event list \<Rightarrow> bool option" where
  "chat_exit [] = None"
| "chat_exit (ShutdownSignal # es) = Some True"
| "chat_exit (ContextDone # es) = Some False"
| "chat_exit (InputClosed # es) = Some False"
| "chat_exit (Line l # es) = (if l = ''/bye'' then Some True else chat_exit es)"
| "chat_exit (e # es) = chat_exit es"

definition chat_program ::
  "(bytes \<Rightarrow> bytes) \<Rightarrow> node_config \<Rightarrow> bool \<Rightarrow> start_env \<Rightarrow> (nat \<Rightarrow> int \<Rightarrow> api_error option) \<Rightarrow> string list \<Rightarrow>
     (bool \<times> string option) list \<Rightarrow> chat_event list \<Rightarrow> program_end option" where
  "chat_program addr_for_key generated hangs env ns_listen lines pings es =
     (case chat_setup addr_for_key generated hangs env ns_listen lines of
        None \<Rightarrow> None
      | Some (_, None) \<Rightarrow> Some NoNode
      | Some (Inl e, Some n) \<Rightarrow> return_from n
      | Some (Inr url, Some n) \<Rightarrow> (case wait_for_peer pings of
           None \<Rightarrow> Some (StillRunning n)
         | Some False \<Rightarrow> return_from n
         | Some True \<Rightarrow> (case chat_exit es of
              None \<Rightarrow> Some (StillRunning n)
            | Some True \<Rightarrow> Some (Abrupt n)
            | Some False \<Rightarrow> return_from n)))"

subsection \<open>Properties\<close>

lemma return_fresh:
  assumes "fresh hangs n"
  shows "\<exists>k. return_from n = Some (NodeShut k) \<and> (hangs \<or> nd_live k = {})"
proof -
  obtain m where "close_node n = Some m" "hangs \<or> nd_live m = {}" using close_fresh [OF assms] by blast
  then show ?thesis by (simp add: return_from_def)
qed

lemma ygg_listen_all_fresh: "fresh hangs n \<Longrightarrow> ygg_listen_all ns_listen ps n = (r, m) \<Longrightarrow> fresh hangs m"
proof (induction ps arbitrary: n)
  case (Cons p ps)
  obtain x k where l: "node_listen ns_listen p n = (x, k)" by (cases "node_listen ns_listen p n")
  have "fresh hangs k" by (rule listen_fresh [OF Cons(2) l])
  then show ?case using Cons(1) [of k] Cons(3) l by (cases x) auto
qed simp

lemma fresh_up: "fresh hangs n \<Longrightarrow> node_up n"
  by (auto simp: fresh_def node_up_def)

lemma tiny_ends:
  "\<exists>r. tiny_http_run tcp_ok g hangs env ns_listen = Some r \<and>
     (r = NoNode \<or> (\<exists>k. r = NodeShut k \<and> (hangs \<or> nd_live k = {})))"
proof -
  let ?c = "plain_config_obj (chat_node_config tiny_peer g) tiny_shutdown_timeout"
  have t: "\<not> hangs \<or> co_core_stop_timeout ?c \<noteq> 0" by (simp add: plain_config_obj_def tiny_shutdown_timeout_def)
  show ?thesis
  proof (rule new_spec [OF t, of g env])
    fix n assume n: "new_node g ?c hangs env = Some (None, n)"
    obtain x m where l: "node_listen ns_listen tiny_port n = (x, m)" by (cases "node_listen ns_listen tiny_port n")
    have "fresh hangs m" by (rule listen_fresh [OF new_fresh [OF n t] l])
    then obtain k where "return_from m = Some (NodeShut k)" "hangs \<or> nd_live k = {}" using return_fresh by blast
    then show ?thesis using n l by (cases x) (auto simp: tiny_http_run_def tiny_http_main_def)
  next
    fix e m assume "new_node g ?c hangs env = Some (Some e, m)"
    then show ?thesis by (simp add: tiny_http_run_def tiny_http_main_def)
  qed
qed

lemma http_serving_fresh:
  assumes "http_main loaded g hangs env addr listen ns_listen = Some (HttpServing qr m)"
  shows "fresh hangs m"
proof -
  obtain nc n and c :: http_config where n: "new_node g (http_config_obj nc) hangs env = Some (None, n)"
      "ygg_listen_all ns_listen (hc_ygg_ports c) n = (None, m)"
    using assms by (auto simp: http_main_def split: sum.splits option.splits prod.splits)
  have "\<not> hangs \<or> co_core_stop_timeout (http_config_obj nc) \<noteq> 0" by (simp add: http_config_obj_def shutdown_timeout_def)
  from ygg_listen_all_fresh [OF new_fresh [OF n(1) this] n(2)] show ?thesis .
qed

lemma http_ends:
  "\<exists>r. http_run (load_config read_file unmarshal path) g hangs env addr listen ns_listen = Some r \<and>
     (isl r \<or> (\<exists>k. r = Inr (NodeShut k) \<and> (hangs \<or> nd_live k = {})))"
proof -
  obtain out where o: "http_main (load_config read_file unmarshal path) g hangs env addr listen ns_listen = Some out"
    using http_main_never_panics [OF refl] by blast
  show ?thesis
  proof (cases out)
    case (HttpServing qr m)
    then obtain k where "return_from m = Some (NodeShut k)" "hangs \<or> nd_live k = {}"
      using return_fresh [OF http_serving_fresh] o by blast
    then show ?thesis using o HttpServing by (simp add: http_run_def)
  qed (use o in \<open>simp add: http_run_def\<close>)
qed

lemma chat_setup_ends:
  obtains (none) e where "chat_setup ak g False env ns_listen lines = Some (Inl e, None)"
  | (node) r n where "chat_setup ak g False env ns_listen lines = Some (r, Some n)" "fresh False n"
proof (cases lines)
  case Nil
  then show thesis using none by (simp add: chat_setup_def)
next
  case (Cons l1 rest)
  let ?c = "plain_config_obj (chat_node_config (trim_space l1) g) 0"
  have t: "\<not> False \<or> co_core_stop_timeout ?c \<noteq> 0" by simp
  show thesis
  proof (cases "trim_space l1 = ''''")
    case True
    then show thesis using none Cons by (simp add: chat_setup_def Let_def)
  next
    case False
    show thesis
    proof (rule new_spec [OF t, of g env])
      fix n assume n: "new_node g ?c False env = Some (None, n)"
      obtain x m where l: "node_listen ns_listen chat_port n = (x, m)" by (cases "node_listen ns_listen chat_port n")
      have "fresh False m" by (rule listen_fresh [OF new_fresh [OF n t] l])
      moreover have "\<exists>r. chat_setup ak g False env ns_listen lines = Some (r, Some m)"
        using Cons False n l by (cases x; cases rest) (simp_all add: chat_setup_def Let_def)
      ultimately show thesis using node by blast
    next
      fix e m assume "new_node g ?c False env = Some (Some e, m)"
      then show thesis using none Cons False by (simp add: chat_setup_def Let_def)
    qed
  qed
qed

lemma chat_ends:
  "\<exists>r. chat_program ak g False env ns_listen lines pings es = Some r \<and> (case r of
      NoNode \<Rightarrow> True
    | NodeShut k \<Rightarrow> nd_live k = {}
    | Abrupt n \<Rightarrow> node_up n \<and> wait_for_peer pings = Some True \<and> chat_exit es = Some True
    | StillRunning n \<Rightarrow> node_up n \<and> (wait_for_peer pings = None \<or> wait_for_peer pings = Some True \<and> chat_exit es = None))"
proof (cases rule: chat_setup_ends [of ak g env ns_listen lines])
  case (node r n)
  obtain k where k: "return_from n = Some (NodeShut k)" "nd_live k = {}" using return_fresh [OF node(2)] by blast
  have u: "node_up n" by (rule fresh_up [OF node(2)])
  show ?thesis
    using node(1) k u by (cases r) (auto simp: chat_program_def split: option.split bool.split)
qed (simp add: chat_program_def)

lemma chat_exit_run: "chat_exit es = None \<longleftrightarrow> ct_status (chat_run es new_chat) = Chatting"
proof -
  have left: "ct_status c \<noteq> Chatting \<Longrightarrow> ct_status (chat_run es c) \<noteq> Chatting" for es c
  proof (induction es arbitrary: c)
    case (Cons e es)
    have "ct_status (chat_turn e c) \<noteq> Chatting"
      using Cons(2) by (cases e) (auto simp: chat_turn_def)
    then show ?case using Cons(1) by (simp add: chat_run_def)
  qed (simp add: chat_run_def)
  have "ct_status c = Chatting \<Longrightarrow> chat_exit es = None \<longleftrightarrow> ct_status (chat_run es c) = Chatting" for c
  proof (induction es arbitrary: c)
    case (Cons e es)
    show ?case
    proof (cases "ct_status (chat_turn e c) = Chatting")
      case True
      then have "chat_exit (e # es) = chat_exit es"
        using Cons(2) by (cases e) (auto simp: chat_turn_def split: if_splits)
      then show ?thesis using Cons(1) [OF True] by (simp add: chat_run_def)
    next
      case False
      then have "chat_exit (e # es) \<noteq> None"
        using Cons(2) by (cases e) (auto simp: chat_turn_def send_message_def split: if_splits)
      then show ?thesis using left [OF False, of es] by (simp add: chat_run_def)
    qed
  qed (simp add: chat_run_def)
  then show ?thesis by (simp add: new_chat_def)
qed


end
