(* ===== verification/AddrText.thy ===== *)
theory AddrText
  imports GoResolve
begin

text \<open>
  The text of an address reads back: \<open>net.ParseIP\<close> inverts \<open>IP.String\<close> on every 16-byte address, through the
  compression of zero groups and the dotted form of IPv4. Programs of the repository pass addresses through this
  text: the chat puts its peer's into a URL, the SOCKS server hands resolved names to the dial function as text,
  and the mobile application reads the node's own.
\<close>

subsection \<open>Groups\<close>

lemma hex_nat_not_Nil [simp]: "hex_nat n \<noteq> []"
  by (subst hex_nat.simps) simp

lemma hex_nat_digits: "c \<in> set (hex_nat n) \<Longrightarrow> \<exists>d < 16. c = hex_digit d"
proof (induction n rule: hex_nat.induct)
  case (1 n)
  have "\<exists>d < 16. hex_digit (n mod 16) = hex_digit d" by (intro exI [of _ "n mod 16"] conjI refl) simp
  with 1 show ?case by (subst (asm) (2) hex_nat.simps) (auto split: if_splits)
qed

lemma hex_nat_no_sep: "CHR '':'' \<notin> set (hex_nat n)" "CHR ''.'' \<notin> set (hex_nat n)" "CHR ''%'' \<notin> set (hex_nat n)"
  "CHR ''['' \<notin> set (hex_nat n)" "CHR '']'' \<notin> set (hex_nat n)" "CHR ''/'' \<notin> set (hex_nat n)"
proof -
  have h: "hex_val CHR '':'' = None" "hex_val CHR ''.'' = None" "hex_val CHR ''%'' = None" "hex_val CHR ''['' = None"
    "hex_val CHR '']'' = None" "hex_val CHR ''/'' = None"
    by (simp_all add: hex_val_def Let_def)
  have "\<exists>v. hex_val c = Some v" if "c \<in> set (hex_nat n)" for c
    using hex_nat_digits [OF that] hex_val_hex_digit by auto
  then show "CHR '':'' \<notin> set (hex_nat n)" "CHR ''.'' \<notin> set (hex_nat n)" "CHR ''%'' \<notin> set (hex_nat n)"
    "CHR ''['' \<notin> set (hex_nat n)" "CHR '']'' \<notin> set (hex_nat n)" "CHR ''/'' \<notin> set (hex_nat n)"
    using h by (metis option.distinct(1))+
qed

lemma hex_num_append: "hex_num a (xs @ ys) = hex_num (hex_num a xs) ys"
  by (induction xs arbitrary: a) simp_all

lemma hex_num_hex_nat: "hex_num 0 (hex_nat n) = n"
proof (induction n rule: hex_nat.induct)
  case (1 n)
  then show ?case by (subst hex_nat.simps) (simp add: hex_num_append hex_val_hex_digit)
qed

lemma hex_nat_short: "n < 16 ^ k \<Longrightarrow> 0 < k \<Longrightarrow> length (hex_nat n) \<le> k"
proof (induction n arbitrary: k rule: hex_nat.induct)
  case (1 n)
  show ?case
  proof (cases "n < 16")
    case True
    then show ?thesis using 1(3) by (subst hex_nat.simps) simp
  next
    case False
    then obtain j where k: "k = Suc j" "0 < j" using 1(2,3) by (cases k; cases "k - 1") auto
    then have "n div 16 < 16 ^ j" using 1(2) by (simp add: less_mult_imp_div_less mult.commute)
    with 1(1) [OF False this k(2)] False k show ?thesis by (subst hex_nat.simps) simp
  qed
qed

lemma hex_run_group:
  assumes "rest = [] \<or> hd rest = CHR '':''"
  shows "hex_run (hex_nat n @ rest) = hex_nat n"
proof -
  have "\<forall>c \<in> set (hex_nat n). hex_val c \<noteq> None"
    using hex_nat_digits hex_val_hex_digit by fastforce
  moreover have "takeWhile (\<lambda>c. hex_val c \<noteq> None) rest = []"
    using assms by (cases rest) (auto simp: hex_val_def Let_def)
  ultimately show ?thesis by (simp add: hex_run_def)
qed

definition group_bytes :: "nat list \<Rightarrow> bytes" where
  "group_bytes hs = concat (map hextet_bytes hs)"

lemma group_bytes_simps [simp]:
  "group_bytes [] = []" "group_bytes (h # hs) = hextet_bytes h @ group_bytes hs"
  "group_bytes (hs @ ks) = group_bytes hs @ group_bytes ks" "length (group_bytes hs) = 2 * length hs"
  by (induction hs) (simp_all add: group_bytes_def)

lemma group_bytes_zero: "group_bytes (replicate n 0) = replicate (2 * n) 0"
  by (induction n) (simp_all add: hextet_bytes_def)

lemma hextet_bytes_pair: "hextet_bytes (256 * unat a + unat b) = [a, b]"
proof -
  have "(256 * unat a + unat b) div 256 = unat a" "(256 * unat a + unat b) mod 256 = unat b"
    using unat_byte_less [of b] by simp_all
  then show ?thesis by (simp add: hextet_bytes_def)
qed

lemma group_bytes_hextets: "even (length bs) \<Longrightarrow> group_bytes (hextets bs) = bs"
  by (induction bs rule: hextets.induct) (simp_all add: hextet_bytes_pair)

lemma hextets_bound: "h \<in> set (hextets bs) \<Longrightarrow> h < 16 ^ 4"
proof (induction bs rule: hextets.induct)
  case (1 a b bs)
  have "256 * unat a + unat b < 16 ^ 4" using unat_byte_less [of a] unat_byte_less [of b] by simp
  then show ?case using 1 by auto
qed simp_all

lemma length_hextets: "length (hextets bs) = length bs div 2"
  by (induction bs rule: hextets.induct) simp_all

subsection \<open>Joined groups\<close>

definition groups :: "nat list \<Rightarrow> string" where
  "groups hs = go_join '':'' (map hex_nat hs)"

lemma groups_simps:
  "groups [] = []" "groups [h] = hex_nat h" "hs \<noteq> [] \<Longrightarrow> groups (h # hs) = hex_nat h @ CHR '':'' # groups hs"
  by (simp_all add: groups_def go_join_Cons)

lemma groups_Cons: "groups (h # hs) = hex_nat h @ (if hs = [] then [] else CHR '':'' # groups hs)"
  by (simp add: groups_simps)

lemma groups_start: "hs \<noteq> [] \<Longrightarrow> groups hs \<noteq> [] \<and> hd (groups hs) \<noteq> CHR '':''"
proof -
  have "hd (hex_nat n) \<noteq> CHR '':''" for n
    using hex_nat_no_sep(1) [of n] hd_in_set [OF hex_nat_not_Nil [of n]] by metis
  then show "hs \<noteq> [] \<Longrightarrow> ?thesis" by (cases hs) (auto simp: groups_Cons)
qed

lemma groups_chars: "c \<in> set (groups hs) \<Longrightarrow> c = CHR '':'' \<or> (\<exists>h. c \<in> set (hex_nat h))"
  by (induction hs) (auto simp: groups_simps(1) groups_Cons split: if_splits)

subsection \<open>Reading joined groups\<close>

lemma loop_group:
  assumes "length ip < 16" "h < 16 ^ 4" "rest = [] \<or> hd rest = CHR '':''"
  shows "ipv6_loop ip ell (hex_nat h @ rest) =
     (case rest of
        [] \<Rightarrow> Some (ip @ hextet_bytes h, ell, [])
      | c # r \<Rightarrow>
          if r = [] then None
          else if hd r \<noteq> CHR '':'' then ipv6_loop (ip @ hextet_bytes h) ell r
          else if ell \<noteq> None then None
          else if tl r = [] then Some (ip @ hextet_bytes h, Some (length ip + 2), [])
          else ipv6_loop (ip @ hextet_bytes h) (Some (length ip + 2)) (tl r))"
proof -
  have r: "hex_run (hex_nat h @ rest) = hex_nat h" by (rule hex_run_group [OF assms(3)])
  have "length (hex_nat h) \<le> 4" using hex_nat_short [OF assms(2)] by simp
  then have u: "ipv6_loop ip ell (hex_nat h @ rest) =
     (case rest of
        [] \<Rightarrow> Some (ip @ hextet_bytes h, ell, [])
      | c # r \<Rightarrow>
          if c = CHR ''.'' then
            if (ell = None \<and> length ip \<noteq> 12) \<or> 16 < length ip + 4 then None
            else (case ipv4_fields [] 0 0 (hex_nat h @ rest) of
                    None \<Rightarrow> None
                  | Some fs \<Rightarrow> Some (ip @ map of_nat fs, ell, []))
          else if c \<noteq> CHR '':'' \<or> r = [] then None
          else if hd r \<noteq> CHR '':'' then ipv6_loop (ip @ hextet_bytes h) ell r
          else if ell \<noteq> None then None
          else if tl r = [] then Some (ip @ hextet_bytes h, Some (length ip + 2), [])
          else ipv6_loop (ip @ hextet_bytes h) (Some (length ip + 2)) (tl r))"
    using assms(1) unfolding ipv6_loop.simps [of ip ell "hex_nat h @ rest"] r hex_num_hex_nat by simp
  show ?thesis unfolding u using assms(3) by (cases rest) simp_all
qed

lemma loop_groups:
  "hs \<noteq> [] \<Longrightarrow> length ip + 2 * length hs \<le> 16 \<Longrightarrow> \<forall>h \<in> set hs. h < 16 ^ 4 \<Longrightarrow>
     ipv6_loop ip ell (groups hs) = Some (ip @ group_bytes hs, ell, [])"
proof (induction hs arbitrary: ip)
  case (Cons h hs)
  show ?case
  proof (cases "hs = []")
    case True
    then show ?thesis using Cons(3,4) loop_group [of ip h "[]" ell] by (simp add: groups_simps)
  next
    case False
    then show ?thesis
      using Cons(1) [OF False, of "ip @ hextet_bytes h"] Cons(3,4) groups_start [OF False]
        loop_group [of ip h "CHR '':'' # groups hs" ell] by (simp add: groups_Cons)
  qed
qed simp

lemma loop_ellipsis:
  "hs \<noteq> [] \<Longrightarrow> length ip + 2 * (length hs + length ks) \<le> 16 \<Longrightarrow> \<forall>h \<in> set hs \<union> set ks. h < 16 ^ 4 \<Longrightarrow>
     ipv6_loop ip None (groups hs @ ''::'' @ groups ks) =
       Some (ip @ group_bytes hs @ group_bytes ks, Some (length ip + 2 * length hs), [])"
proof (induction hs arbitrary: ip)
  case (Cons h hs)
  show ?case
  proof (cases "hs = []")
    case True
    have "ipv6_loop ip None (hex_nat h @ CHR '':'' # CHR '':'' # groups ks) =
        (if groups ks = [] then Some (ip @ hextet_bytes h, Some (length ip + 2), [])
         else ipv6_loop (ip @ hextet_bytes h) (Some (length ip + 2)) (groups ks))"
      using Cons(3,4) loop_group [of ip h "''::'' @ groups ks" None] by simp
    also have "\<dots> = Some (ip @ hextet_bytes h @ group_bytes ks, Some (length ip + 2), [])"
      using Cons(3,4) True loop_groups [of ks "ip @ hextet_bytes h" "Some (length ip + 2)"] groups_start [of ks]
      by (cases "ks = []") (auto simp: groups_simps(1))
    finally show ?thesis using True by (simp add: groups_simps)
  next
    case False
    have n: "groups hs @ ''::'' @ groups ks \<noteq> []" "hd (groups hs @ ''::'' @ groups ks) \<noteq> CHR '':''"
      using groups_start [OF False] by simp_all
    have "ipv6_loop ip None (hex_nat h @ CHR '':'' # groups hs @ ''::'' @ groups ks) =
        ipv6_loop (ip @ hextet_bytes h) None (groups hs @ ''::'' @ groups ks)"
      using Cons(3,4) n loop_group [of ip h "CHR '':'' # groups hs @ ''::'' @ groups ks" None] by simp
    then show ?thesis
      using Cons(1) [OF False, of "ip @ hextet_bytes h"] Cons(3,4) False by (simp add: groups_Cons)
  qed
qed simp

subsection \<open>The compressed run\<close>

definition run_of_zeros :: "nat list \<Rightarrow> nat \<times> nat \<Rightarrow> bool" where
  "run_of_zeros hs r \<longleftrightarrow> (case r of (i, l) \<Rightarrow>
     l = 0 \<or> 2 \<le> l \<and> i + l \<le> length hs \<and> take l (drop i hs) = replicate l 0)"

lemma zeros_at_spec: "zeros_at hs \<le> length hs \<and> take (zeros_at hs) hs = replicate (zeros_at hs) 0"
proof -
  have "zeros_at hs \<le> length hs" by (simp add: zeros_at_def length_takeWhile_le)
  moreover have "take (zeros_at hs) hs = takeWhile (\<lambda>h. h = 0) hs"
    by (simp add: zeros_at_def takeWhile_eq_take [symmetric])
  moreover have "takeWhile (\<lambda>h. h = 0) hs = replicate (zeros_at hs) 0"
    unfolding zeros_at_def by (rule replicate_length_same [symmetric]) (auto dest: set_takeWhileD)
  ultimately show ?thesis by simp
qed

lemma zero_run_from:
  "run_of_zeros hs best \<Longrightarrow> i \<le> length hs \<Longrightarrow> run_of_zeros hs (zero_run i best (drop i hs))"
proof (induction "length hs - i" arbitrary: i best)
  case (Suc n)
  obtain x xs where d: "drop i hs = x # xs" "xs = drop (i + 1) hs"
    using Suc(2) by (metis Suc_eq_plus1 diff_is_0_eq drop_Suc drop_eq_Nil list.exhaust nat.distinct(1) tl_drop list.sel(3))
  let ?l = "zeros_at (x # xs)"
  have l: "i + ?l \<le> length hs" "take ?l (drop i hs) = replicate ?l 0"
    using zeros_at_spec [of "drop i hs"] Suc(2) unfolding d(1) [symmetric] by auto
  have "run_of_zeros hs (if 2 \<le> ?l \<and> snd best < ?l then (i, ?l) else best)"
    using Suc(3) l by (simp add: run_of_zeros_def)
  then have "run_of_zeros hs (zero_run (i + 1) (if 2 \<le> ?l \<and> snd best < ?l then (i, ?l) else best) (drop (i + 1) hs))"
    using Suc(1) [of "i + 1"] Suc(2) by simp
  then show ?case unfolding d(1) zero_run.simps Let_def d(2) [symmetric] .
qed simp

lemma run_of_zeros_bytes:
  assumes "run_of_zeros hs (i, l)" "l \<noteq> 0"
  shows "group_bytes hs = group_bytes (take i hs) @ replicate (2 * l) 0 @ group_bytes (drop (i + l) hs)"
proof -
  have "take l (drop i hs) = replicate l 0" using assms by (simp add: run_of_zeros_def)
  then have "hs = take i hs @ replicate l 0 @ drop (i + l) hs"
    by (metis add.commute append_take_drop_id drop_drop)
  then show ?thesis by (metis group_bytes_simps(3) group_bytes_zero)
qed

subsection \<open>Round trip\<close>

text \<open>The text of groups with an ellipsis for the zeros between them.\<close>

lemma parse_ellipsis:
  assumes "length hs + length ks < 8" "\<forall>h \<in> set hs \<union> set ks. h < 16 ^ 4"
  shows "parse_ipv6 (groups hs @ ''::'' @ groups ks) =
     Some (group_bytes hs @ replicate (16 - 2 * (length hs + length ks)) 0 @ group_bytes ks)"
proof (cases "hs = []")
  case True
  then show ?thesis
    using assms loop_groups [of ks "[]" "Some 0"] groups_start [of ks]
    by (cases "ks = []") (auto simp: parse_ipv6_def ipv6_expand_def groups_simps(1))
next
  case False
  obtain h hs' where h: "hs = h # hs'" using False by (cases hs) auto
  obtain x xs where x: "hex_nat h = x # xs" by (cases "hex_nat h") auto
  have "x \<noteq> CHR '':''" using hex_nat_no_sep(1) [of h] x by auto
  then have "take 2 (groups hs @ ''::'' @ groups ks) \<noteq> ''::''" by (simp add: h groups_Cons x)
  then show ?thesis
    using assms loop_ellipsis [OF False, of "[]" ks] by (simp add: parse_ipv6_def ipv6_expand_def)
qed

lemma parse_groups:
  assumes "length hs = 8" "\<forall>h \<in> set hs. h < 16 ^ 4"
  shows "parse_ipv6 (groups hs) = Some (group_bytes hs)"
proof -
  obtain h hs' where h: "hs = h # hs'" using assms(1) by (cases hs) auto
  obtain x xs where x: "hex_nat h = x # xs" by (cases "hex_nat h") auto
  have "x \<noteq> CHR '':''" using hex_nat_no_sep(1) [of h] x by auto
  then have "take 2 (groups hs) \<noteq> ''::''" by (simp add: h groups_Cons x)
  then show ?thesis
    using assms loop_groups [of hs "[]" None] by (simp add: parse_ipv6_def ipv6_expand_def h)
qed

lemma ipv6_string_groups:
  "ipv6_string b = (case zero_run 0 (0, 0) (hextets b) of (i, l) \<Rightarrow>
     if l = 0 then groups (hextets b) else groups (take i (hextets b)) @ ''::'' @ groups (drop (i + l) (hextets b)))"
  by (simp add: ipv6_string_def groups_def Let_def split: prod.split)

lemma parse_ipv6_string:
  assumes "length b = 16"
  shows "parse_ipv6 (ipv6_string b) = Some b"
proof -
  let ?hs = "hextets b"
  have hs: "length ?hs = 8" "\<forall>h \<in> set ?hs. h < 16 ^ 4" "group_bytes ?hs = b"
    using assms hextets_bound group_bytes_hextets by (auto simp: length_hextets)
  obtain i l where z: "zero_run 0 (0, 0) ?hs = (i, l)" by (cases "zero_run 0 (0, 0) ?hs")
  have r: "run_of_zeros ?hs (i, l)"
    using zero_run_from [of ?hs "(0, 0)" 0] z by (simp add: run_of_zeros_def)
  show ?thesis
  proof (cases "l = 0")
    case True
    then show ?thesis using parse_groups [OF hs(1,2)] hs(3) z by (simp add: ipv6_string_groups)
  next
    case False
    then have l: "2 \<le> l" "i + l \<le> 8" using r hs(1) by (auto simp: run_of_zeros_def)
    then have n: "length (take i ?hs) + length (drop (i + l) ?hs) = 8 - l" by (simp add: hs(1))
    have "\<forall>h \<in> set (take i ?hs) \<union> set (drop (i + l) ?hs). h < 16 ^ 4"
      using hs(2) by (auto dest: in_set_takeD in_set_dropD)
    moreover have "length (take i ?hs) + length (drop (i + l) ?hs) < 8" unfolding n using l by simp
    moreover have "ipv6_string b = groups (take i ?hs) @ ''::'' @ groups (drop (i + l) ?hs)"
      using False z by (simp add: ipv6_string_groups)
    ultimately have "parse_ipv6 (ipv6_string b) =
        Some (group_bytes (take i ?hs) @ replicate (16 - 2 * (8 - l)) 0 @ group_bytes (drop (i + l) ?hs))"
      using parse_ellipsis [of "take i ?hs" "drop (i + l) ?hs"] unfolding n by simp
    moreover have "16 - 2 * (8 - l) = 2 * l" using l by simp
    ultimately show ?thesis using run_of_zeros_bytes [OF r False] hs(3) by simp
  qed
qed

lemma ipv6_string_chars: "c \<in> set (ipv6_string b) \<Longrightarrow> c = CHR '':'' \<or> (\<exists>h. c \<in> set (hex_nat h))"
  by (auto simp: ipv6_string_groups dest: groups_chars split: prod.splits if_splits)

lemma groups_colon: "2 \<le> length hs \<Longrightarrow> CHR '':'' \<in> set (groups hs)"
  by (cases hs) (auto simp: groups_Cons)

lemma ipv6_string_colon: "length b = 16 \<Longrightarrow> CHR '':'' \<in> set (ipv6_string b)"
  using groups_colon [of "hextets b"]
  by (cases "zero_run 0 (0, 0) (hextets b)") (simp add: ipv6_string_groups length_hextets)

lemma find_colon:
  "CHR '':'' \<in> set s \<Longrightarrow> CHR ''.'' \<notin> set s \<Longrightarrow> List.find (\<lambda>c. c = CHR ''.'' \<or> c = CHR '':'') s = Some CHR '':''"
  by (induction s) auto

lemma parse_ip_ipv6_string: "length b = 16 \<Longrightarrow> parse_ip (ipv6_string b) = Some b"
proof -
  assume b: "length b = 16"
  have "CHR ''.'' \<notin> set (ipv6_string b)" "CHR ''%'' \<notin> set (ipv6_string b)"
    using ipv6_string_chars [of _ b] hex_nat_no_sep by fastforce+
  then show ?thesis
    using find_colon [OF ipv6_string_colon [OF b]] parse_ipv6_string [OF b] by (simp add: parse_ip_def)
qed

lemma four_bytes: "length xs = 4 \<Longrightarrow> \<exists>p q r s. xs = [p, q, r, s]"
  by (auto simp: numeral_eq_Suc length_Suc_conv)

lemma to4_cases:
  assumes "length b = 16"
  obtains "to4 (Some b) = None" | p q r s where "to4 (Some b) = Some [p, q, r, s]" "b = v4_in_v6 [p, q, r, s]"
proof (cases "take 12 b = replicate 10 0 @ [255, 255]")
  case True
  have "length (drop 12 b) = 4" using assms by simp
  then obtain p q r s where d: "drop 12 b = [p, q, r, s]" using four_bytes by blast
  have "b = take 12 b @ drop 12 b" by simp
  then have "b = v4_in_v6 [p, q, r, s]" unfolding True d by (simp add: v4_in_v6_def)
  moreover have "to4 (Some b) = Some [p, q, r, s]" using True assms d by (simp add: to4_def)
  ultimately show thesis by (intro that(2))
qed (use that(1) assms in \<open>simp add: to4_def\<close>)

theorem parse_ip_string:
  assumes "length b = 16"
  shows "parse_ip (ip_string (Some b)) = Some b"
  using assms
proof (cases rule: to4_cases)
  case 1
  then show ?thesis using assms parse_ip_ipv6_string [OF assms] by (auto simp: ip_string_def)
next
  case (2 p q r s)
  then show ?thesis using assms parse_ip_dotted [of p q r s] by (auto simp: ip_string_def)
qed

lemma ip_string_plain:
  assumes "length b = 16"
  shows "CHR ''['' \<notin> set (ip_string (Some b)) \<and> CHR '']'' \<notin> set (ip_string (Some b)) \<and> CHR ''/'' \<notin> set (ip_string (Some b))"
  using assms
proof (cases rule: to4_cases)
  case 1
  have "CHR ''['' \<notin> set (ipv6_string b)" "CHR '']'' \<notin> set (ipv6_string b)" "CHR ''/'' \<notin> set (ipv6_string b)"
    using ipv6_string_chars [of _ b] hex_nat_no_sep by fastforce+
  then show ?thesis using assms 1 by (auto simp: ip_string_def)
next
  case (2 p q r s)
  have "CHR ''/'' \<notin> set (dotted p q r s)" by (simp add: dotted_def not_digit_notin is_digit_def)
  then show ?thesis using assms 2 dotted_plain [of p q r s] by (auto simp: ip_string_def)
qed

end
