(* ===== verification/NamedDial.thy ===== *)
theory NamedDial
  imports AddrText Resolver Socks Mobile Chat
begin

text \<open>
  Addresses that travel as text between components: the SOCKS server, as \<open>StartSocks\<close> puts it together
  (\<open>mod/mapping/socks.go\<close>), from a name to the dial on the stack (\<open>src/types/resolver.go\<close>,
  \<open>src/netstack/netstack.go\<close>); the HTTP client of the chat, from the key typed to the dial; and the address the
  mobile bindings show. The SOCKS package and the HTTP client are third-party or library code; of both the model has
  the text of the address they dial: \<open>JoinHostPort\<close> of the resolved address, and the authority of the URL.
\<close>

subsection \<open>The SOCKS server\<close>

text \<open>The options \<open>StartSocks\<close> gives the server: resolver, dial function, and whether the server logs.\<close>

record ('ne, 'le) socks_server =
  sv_resolve :: "string \<Rightarrow> 'le Resolver.resolve_error + ip"
  sv_dial :: "string \<Rightarrow> string \<Rightarrow> int64 \<times> activity \<Rightarrow> ('ne dial_error + nat \<times> string option) \<times> int64 \<times> activity"
  sv_verbose :: bool
  sv_warned :: bool       \<comment> \<open>that no nameserver is set\<close>

text \<open>
  \<open>lookup\<close> is \<open>net.Resolver.LookupIP\<close> over the dial function of the resolver, None for the default one. The stack
  is the one of \<open>GetNetstack\<close> at that moment.
\<close>

definition new_socks_server ::
  "('ne, nat, 'l) gonet \<Rightarrow> (bytes \<Rightarrow> ip) \<Rightarrow>
   ((string \<Rightarrow> string \<Rightarrow> 'ne dial_error + nat) option \<Rightarrow> string \<Rightarrow> 'le + ip list) \<Rightarrow>
   bool \<Rightarrow> string \<Rightarrow> bool \<Rightarrow> ('ne, 'le) socks_server" where
  "new_socks_server g addr_for_key lookup cb nameserver verbose =
     \<lparr>sv_resolve = resolve addr_for_key (lookup (new_name_resolver g nameserver)),
      sv_dial = (\<lambda>network addr. socks_dial cb addr (dial_context g network addr)),
      sv_verbose = verbose, sv_warned = (nameserver = '''')\<rparr>"

text \<open>
  What the SOCKS package does with a request to connect to a name: it has the resolver resolve it, and hands the
  address with the port, in text form, to the dial function. The package is the parameter \<open>connect\<close>; of it this
  much is documented. None is a request that is refused before any dial.
\<close>

type_synonym ('ne, 'le) socks_connect =
  "('ne, 'le) socks_server \<Rightarrow> string \<Rightarrow> nat \<Rightarrow> int64 \<times> activity \<Rightarrow>
   ('ne dial_error + nat \<times> string option) option \<times> int64 \<times> activity"

definition dials_resolved :: "('ne, 'le) socks_connect \<Rightarrow> bool" where
  "dials_resolved connect \<longleftrightarrow> (\<forall>sv name port s a. sv_resolve sv name = Inr a \<longrightarrow>
     connect sv name port s =
       (case sv_dial sv ''tcp'' (join_host_port (ip_string (Some a)) (dec_str port)) s of (r, s1) \<Rightarrow> (Some r, s1)))"

text \<open>What is dialled on the stack for an address in text form.\<close>

lemma dial_address_text:
  assumes "length a = 16" "n < 65536"
  shows "dial_context g ''tcp'' (join_host_port (ip_string (Some a)) (dec_str n)) =
     map_sum TCPErr id (gn_dial_ctx_tcp g \<lparr>fa_nic = 1, fa_addr = a, fa_port = of_nat n\<rparr> IPv6Protocol)"
proof -
  have h: "plain_host (ip_string (Some a))" using ip_string_plain [OF assms(1)] by (simp add: plain_host_def)
  show ?thesis
    using assms by (simp add: dial_context_def convert_endpoint [OF h] convert_to_full_addr_def parse_ip_string to16_def)
qed

text \<open>
  C34: a SOCKS client that asks for the name of a key is connected to the address of that key, at the port it asks
  for, with or without a subdomain in the name and whatever the nameserver: the text in between loses nothing, and
  with a callback the connection is announced and counted, otherwise it is passed through.
\<close>

theorem key_name_reaches_key:
  assumes "dials_resolved connect" "length k = 32" "length (ak k) = 16" "port < 65536"
    and "name = hex_encode k @ ''.pk.ygg'' \<or> name = sub @ ''.'' @ hex_encode k @ ''.pk.ygg''"
  shows "connect (new_socks_server g ak lookup cb ns verbose) name port (ids, act) =
     (case gn_dial_ctx_tcp g \<lparr>fa_nic = 1, fa_addr = ak k, fa_port = of_nat port\<rparr> IPv6Protocol of
        Inl e \<Rightarrow> (Some (Inl (TCPErr e)), ids, act)
      | Inr c \<Rightarrow>
          if cb then
            (case generate_conn_id ''socks'' (join_host_port (ip_string (Some (ak k))) (dec_str port)) ids of (ids', cid) \<Rightarrow>
               (Some (Inr (c, Some cid)), ids',
                \<lparr>act_counter = act_counter act + 1, act_events = act_events act @ [ConnCreated cid ''socks'']\<rparr>))
          else (Some (Inr (c, None)), ids, act))"
proof -
  let ?text = "join_host_port (ip_string (Some (ak k))) (dec_str port)"
  have "sv_resolve (new_socks_server g ak lookup cb ns verbose) name = Inr (ak k)"
    using assms(5) resolve_key [OF assms(2), of ak "lookup (new_name_resolver g ns)" sub]
    unfolding new_socks_server_def by (elim disjE) (simp_all only: socks_server.simps)
  then have "connect (new_socks_server g ak lookup cb ns verbose) name port (ids, act) =
      (case socks_dial cb ?text (dial_context g ''tcp'' ?text) (ids, act) of (r, s) \<Rightarrow> (Some r, s))"
    using assms(1) by (simp add: dials_resolved_def) (simp add: new_socks_server_def)
  moreover have "act_increment (on_created cid ''socks'' act) =
      \<lparr>act_counter = act_counter act + 1, act_events = act_events act @ [ConnCreated cid ''socks'']\<rparr>" for cid
    by (simp add: act_increment_def on_created_def counter_increment_def)
  ultimately show ?thesis
    unfolding dial_address_text [OF assms(3,4)]
    by (auto simp: socks_dial_def split: sum.split prod.split)
qed

definition demo_gonet :: "(unit, nat, unit) gonet" where
  "demo_gonet = \<lparr>gn_dial_ctx_tcp = (\<lambda>fa pn. if fa_addr fa = replicate 16 7 then Inr (unat (fa_port fa)) else Inl ()),
     gn_dial_tcp = (\<lambda>fa pn. Inl ()), gn_dial_udp = (\<lambda>l r pn. Inl ()), gn_listen_tcp = (\<lambda>fa pn. Inr ())\<rparr>"

text \<open>The package as far as it is documented, for the witness.\<close>

definition demo_connect :: "('ne, 'le) socks_connect" where
  "demo_connect sv name port s = (case sv_resolve sv name of
       Inl _ \<Rightarrow> (None, s)
     | Inr a \<Rightarrow> (case sv_dial sv ''tcp'' (join_host_port (ip_string (Some a)) (dec_str port)) s of (r, s1) \<Rightarrow> (Some r, s1)))"

lemma demo_connect_dials: "dials_resolved demo_connect"
  by (simp add: dials_resolved_def demo_connect_def)

theorem key_name_reaches_key_witness:
  "fst (demo_connect (new_socks_server demo_gonet (take 16) (\<lambda>d n. Inl ()) False '''' False)
     (hex_encode (replicate 32 7) @ ''.pk.ygg'') 80 (0, \<lparr>act_counter = 0, act_events = []\<rparr>)) = Some (Inr (80, None))"
proof -
  let ?k = "replicate 32 7 :: bytes"
  have k: "length ?k = 32" "length (take 16 ?k) = 16" "(80 :: nat) < 65536"
    "hex_encode ?k @ ''.pk.ygg'' = hex_encode ?k @ ''.pk.ygg'' \<or> hex_encode ?k @ ''.pk.ygg'' = [] @ ''.'' @ hex_encode ?k @ ''.pk.ygg''"
    by simp_all
  show ?thesis
    using key_name_reaches_key [where k = ?k and ak = "take 16" and g = demo_gonet and sub = "[]" and cb = False and act = "\<lparr>act_counter = 0, act_events = []\<rparr>"
        and lookup = "\<lambda>d n. Inl ()" and ns = "''''" and verbose = False and ids = 0, OF demo_connect_dials k] by (simp add: demo_gonet_def)
qed

subsection \<open>The HTTP client of the chat\<close>

text \<open>The address \<open>net/http\<close> dials for a URL with a port.\<close>

definition http_dial_addr :: "string \<Rightarrow> addr_error + string" where
  "http_dial_addr url =
     map_sum id (\<lambda>(h, p). join_host_port h p) (split_host_port (takeWhile (\<lambda>c. c \<noteq> CHR ''/'') (cut_prefix url ''http://'')))"

text \<open>A request of the client, whose transport dials with the \<open>DialContext\<close> of the node; None is a malformed URL.\<close>

definition chat_client_dial :: "('ne, 'c, 'l) gonet \<Rightarrow> string \<Rightarrow> string \<Rightarrow> ('ne dial_error + 'c) option" where
  "chat_client_dial g url path = (case http_dial_addr (url @ path) of
       Inl _ \<Rightarrow> None
     | Inr addr \<Rightarrow> Some (dial_context g ''tcp'' addr))"

lemma takeWhile_until: "c \<notin> set xs \<Longrightarrow> takeWhile (\<lambda>x. x \<noteq> c) (xs @ c # r) = xs"
  by (induction xs) auto

text \<open>
  C39: the ends of a chat meet: the key a user types, where it is accepted, is dialled at the address of that key
  and the chat port, for the pings as for the messages, and this is where the owner of the key listens.
\<close>

theorem chat_reaches_typed_key:
  assumes "\<And>k. length k = 32 \<Longrightarrow> length (ak k) = 16" "peer_url ak line = Inr url" "path \<in> {''/ping'', ''/input''}"
  shows "\<exists>k. hex_decode (trim_space line) = Inr k \<and> length k = 32 \<and>
     chat_client_dial g url path =
       Some (map_sum TCPErr id (gn_dial_ctx_tcp g \<lparr>fa_nic = 1, fa_addr = ak k, fa_port = 9998\<rparr> IPv6Protocol)) \<and>
     ns_listen_tcp h (Some (ak k)) chat_port = gn_listen_tcp h \<lparr>fa_nic = 1, fa_addr = ak k, fa_port = 9998\<rparr> IPv6Protocol"
proof -
  obtain k where k: "hex_decode (trim_space line) = Inr k" "length k = 32"
      "url = ''http://['' @ ip_string (Some (ak k)) @ '']:9998''"
    using assms(2) by (auto simp: peer_url_def split: sum.splits if_splits)
  let ?a = "ip_string (Some (ak k))"
  have a: "length (ak k) = 16" using assms(1) k(2) by blast
  have d: "dec_str 9998 = ''9998''" by (simp add: dec_str.simps dec_digit_def)
  obtain r where r: "path = CHR ''/'' # r" using assms(3) by auto
  have "CHR ''/'' \<notin> set (''['' @ ?a @ '']:9998'')" using ip_string_plain [OF a] by simp
  then have "takeWhile (\<lambda>c. c \<noteq> CHR ''/'') ((''['' @ ?a @ '']:9998'') @ path) = ''['' @ ?a @ '']:9998''"
    unfolding r by (rule takeWhile_until)
  moreover have "cut_prefix (url @ path) ''http://'' = ''['' @ ?a @ '']:9998'' @ path"
    using cut_prefix_append [of "''http://''" "''['' @ ?a @ '']:9998'' @ path"] by (simp add: k(3) del: cut_prefix_append)
  moreover have "split_host_port (''['' @ ?a @ '']:9998'') = Inr (?a, ''9998'')"
    using ip_string_plain [OF a] split_host_port_bracketed [of ?a "''9998''"] by simp
  ultimately have "http_dial_addr (url @ path) = Inr (join_host_port ?a (dec_str 9998))"
    by (simp add: http_dial_addr_def d)
  then have "chat_client_dial g url path =
      Some (map_sum TCPErr id (gn_dial_ctx_tcp g \<lparr>fa_nic = 1, fa_addr = ak k, fa_port = 9998\<rparr> IPv6Protocol))"
    using dial_address_text [OF a, of 9998 g] by (simp add: chat_client_dial_def)
  moreover have "ns_listen_tcp h (Some (ak k)) chat_port = gn_listen_tcp h \<lparr>fa_nic = 1, fa_addr = ak k, fa_port = 9998\<rparr> IPv6Protocol"
    using a by (simp add: ns_listen_tcp_def convert_to_full_addr_def to16_def chat_port_def)
  ultimately show ?thesis using k by blast
qed

subsection \<open>The address the bindings show\<close>

text \<open>
  the address an application is shown reads back: after \<open>Start\<close> the text of \<open>GetAddress\<close> parses to the address
  of the running core.
\<close>

theorem shown_address_reads_back:
  assumes "\<And>i. length (core_address i) = 16" "mobile_start g socks ns False env y = Some (None, y')"
  shows "\<exists>n i. mb_node y' = Some n \<and> nd_core n = Some i \<and>
     parse_ip (address_text core_address (mb_node y')) = Some (core_address i)"
proof -
  obtain n where n: "new_node g (start_config g socks ns y) False env = Some (None, n)" "mb_node y' = Some n"
    using assms(2) by (auto simp: mobile_start_def split: if_splits option.splits prod.splits)
  have "node_up n"
    by (rule new_spec [of False "start_config g socks ns y" g env]) (use n(1) in \<open>auto simp: node_up_def\<close>)
  then obtain i where "nd_core n = Some i" by (auto simp: node_up_def up_def)
  then show ?thesis using n(2) parse_ip_string [OF assms(1)] by (simp add: address_text_def node_address_def)
qed

lemma hex_digit_graphic: "n < 16 \<Longrightarrow> graphic (hex_digit n)"
  by (simp add: graphic_def hex_digit_def less_Suc_eq numeral_eq_Suc) (elim disjE; simp)

lemma hex_encode_graphic: "c \<in> set (hex_encode bs) \<Longrightarrow> graphic c"
proof (induction bs)
  case (Cons b bs)
  have "unat b div 16 < 16" using unat_byte_less [of b] by simp
  then show ?case using Cons by (auto simp: hex_digit_graphic)
qed simp

lemma trim_hex_encode: "trim_space (hex_encode bs) = hex_encode bs"
proof (cases "hex_encode bs")
  case (Cons c s)
  then have "graphic c" "graphic (last (c # s))" using hex_encode_graphic [of _ bs] by auto
  then show ?thesis by (simp add: trim_space_def Cons trim_left_graphic trim_right_graphic del: last.simps)
qed simp

theorem chat_reaches_typed_key_witness:
  "\<exists>url. peer_url (\<lambda>k. replicate 16 7) (hex_encode (replicate 32 7)) = Inr url \<and> chat_client_dial demo_gonet url ''/ping'' = Some (Inr 9998)"
proof -
  have "\<exists>url. peer_url (\<lambda>k. replicate 16 7) (hex_encode (replicate 32 7)) = Inr url"
    by (simp add: peer_url_def trim_hex_encode hex_decode_encode)
  then obtain url where u: "peer_url (\<lambda>k. replicate 16 7) (hex_encode (replicate 32 7)) = Inr url" ..
  have a: "length ((\<lambda>k. replicate 16 (7 :: byte)) k) = 16" for k :: bytes by simp
  from chat_reaches_typed_key [OF a u, of "''/ping''" demo_gonet demo_gonet] u show ?thesis
    by (auto simp: demo_gonet_def)
qed

theorem shown_address_reads_back_witness:
  "\<exists>y'. mobile_start demo_node_config '':1080'' [] False (demo_env True) new_yggstack = Some (None, y') \<and>
     parse_ip (address_text (\<lambda>i. replicate 16 7) (mb_node y')) = Some (replicate 16 7)"
proof -
  obtain n where n: "mobile_start demo_node_config '':1080'' [] False (demo_env True) new_yggstack =
      Some (None, new_yggstack\<lparr>mb_node := Some n\<rparr>)"
    using demo_mobile_start by blast
  have "length ((\<lambda>i. replicate 16 (7 :: byte)) i) = 16" for i :: nat by simp
  from shown_address_reads_back [OF this n] n show ?thesis by auto
qed

end
