(* ===== verification/CloseCallers.thy ===== *)
theory CloseCallers
  imports CloseRace WakeTrigger
begin

text \<open>
  \<open>Close\<close> as a whole (\<open>mod/yggstack/yggstack.go\<close>): any number of callers, among them the goroutine \<open>New\<close> leaves
  behind, which waits for the context and then calls \<open>Close\<close>; the \<open>sync.Once\<close> they meet in; and the function it
  runs once, which stops the low power manager and then the components. Meanwhile the application may cancel its
  context, clients may meet the wake trigger, and the goroutine of the manager may be stopping the components. The
  wake listener that goroutine opens after it has stopped them, and a start of the components, are left to \<open>CloseRace\<close>
  (\<open>close_during_sleep_leaks_wake_listener\<close>, \<open>close_races_wake\<close>).
\<close>

subsection \<open>State and steps\<close>

text \<open>Where the function inside \<open>closeOnce.Do\<close> is, and how far the \<open>sync.Once\<close> is.\<close>

datatype close_body =
    CancelRoot | CloseWakeListener | AwaitHandlers   \<comment> \<open>\<open>o.cancel()\<close>, the two parts of \<open>lowPower.Stop\<close>\<close>
  | StopAt stage                                     \<comment> \<open>\<open>stopComponents\<close>\<close>

datatype once_state = OnceFresh | OnceBusy close_body | OnceDone

text \<open>A caller of \<open>Close\<close>; the goroutine of \<open>New\<close> starts before the call.\<close>

datatype caller = AwaitsContext | AtOnce | InsideOnce | CallerBack

record closing =
  cl_node :: node
  cl_trigger :: "trigger option"   \<comment> \<open>None: \<open>lowPower\<close> is nil\<close>
  cl_once :: once_state
  cl_sleep :: stage                \<comment> \<open>a \<open>StopComponents\<close> of the goroutine of the manager\<close>
  cl_callers :: "caller list"

definition closing_start :: "node \<Rightarrow> trigger option \<Rightarrow> caller list \<Rightarrow> closing" where
  "closing_start n w cs = \<lparr>cl_node = n, cl_trigger = w, cl_once = OnceFresh, cl_sleep = AtSignal, cl_callers = cs\<rparr>"

definition cancel_root :: "node \<Rightarrow> node" where
  "cancel_root n = n\<lparr>nd_root_cancelled := True\<rparr>"

text \<open>
  One step of the function. The context of the manager is a child of the node's and ends with it. A wait that
  cannot return is no step.
\<close>

fun body_step :: "close_body \<Rightarrow> closing \<Rightarrow> closing option" where
  "body_step CancelRoot s = Some (s\<lparr>cl_node := cancel_root (cl_node s),
     cl_once := OnceBusy (if cl_trigger s = None then StopAt AtSignal else CloseWakeListener)\<rparr>)"
| "body_step CloseWakeListener s =
     Some (s\<lparr>cl_trigger := map_option close_trigger (cl_trigger s), cl_once := OnceBusy AwaitHandlers\<rparr>)"
| "body_step AwaitHandlers s =
     (if pred_option wait_returns (cl_trigger s) then Some (s\<lparr>cl_once := OnceBusy (StopAt AtSignal)\<rparr>) else None)"
| "body_step (StopAt st) s = (case st of
       Returned r \<Rightarrow> Some (s\<lparr>cl_once := OnceDone\<rparr>)
     | _ \<Rightarrow> map_option (\<lambda>(st', m). s\<lparr>cl_node := m, cl_once := OnceBusy (StopAt st')\<rparr>) (stage_step st (cl_node s)))"

text \<open>One step of a caller: the first at the \<open>sync.Once\<close> runs the function, the others wait until it is done.\<close>

definition enter_once :: "closing \<Rightarrow> closing" where
  "enter_once s = s\<lparr>cl_once := OnceBusy CancelRoot, cl_node := (cl_node s)\<lparr>nd_close_once := True\<rparr>\<rparr>"

fun caller_step :: "caller \<Rightarrow> closing \<Rightarrow> (caller \<times> closing) option" where
  "caller_step AwaitsContext s = (if nd_root_cancelled (cl_node s) then Some (AtOnce, s) else None)"
| "caller_step AtOnce s = (case cl_once s of
       OnceFresh \<Rightarrow> Some (InsideOnce, enter_once s)
     | OnceBusy b \<Rightarrow> None
     | OnceDone \<Rightarrow> Some (CallerBack, s))"
| "caller_step InsideOnce s = (if cl_once s = OnceDone then Some (CallerBack, s) else None)"
| "caller_step CallerBack s = None"

inductive close_move :: "closing \<Rightarrow> closing \<Rightarrow> bool" where
  body: "cl_once s = OnceBusy b \<Longrightarrow> body_step b s = Some t \<Longrightarrow> close_move s t"
| caller: "i < length (cl_callers s) \<Longrightarrow> caller_step (cl_callers s ! i) s = Some (c, t) \<Longrightarrow>
    close_move s (t\<lparr>cl_callers := (cl_callers s)[i := c]\<rparr>)"

text \<open>What others do meanwhile.\<close>

inductive close_event :: "closing \<Rightarrow> closing \<Rightarrow> bool" where
  context_ends: "close_event s (s\<lparr>cl_node := cancel_root (cl_node s)\<rparr>)"
| trigger_moves: "cl_trigger s = Some w \<Longrightarrow> e \<noteq> CloseListener \<Longrightarrow>
    close_event s (s\<lparr>cl_trigger := Some (trigger_turn e w)\<rparr>)"
| manager_stops: "stage_step (cl_sleep s) (cl_node s) = Some (b, m) \<Longrightarrow>
    close_event s (s\<lparr>cl_node := m, cl_sleep := b\<rparr>)"

text \<open>Runs, by the number of moves of the callers.\<close>

inductive close_run :: "nat \<Rightarrow> closing \<Rightarrow> closing \<Rightarrow> bool" where
  start: "close_run 0 s s"
| event: "close_run k s t \<Longrightarrow> close_event t u \<Longrightarrow> close_run k s u"
| move: "close_run k s t \<Longrightarrow> close_move t u \<Longrightarrow> close_run (Suc k) s u"

subsection \<open>The number of moves\<close>

fun body_left :: "close_body \<Rightarrow> nat" where
  "body_left CancelRoot = 7"
| "body_left CloseWakeListener = 6"
| "body_left AwaitHandlers = 5"
| "body_left (StopAt st) = stages_left st + 1"

fun once_left :: "once_state \<Rightarrow> nat" where
  "once_left OnceFresh = 7"
| "once_left (OnceBusy b) = body_left b"
| "once_left OnceDone = 0"

fun caller_left :: "caller \<Rightarrow> nat" where
  "caller_left AwaitsContext = 3"
| "caller_left AtOnce = 2"
| "caller_left InsideOnce = 1"
| "caller_left CallerBack = 0"

definition moves_left :: "closing \<Rightarrow> nat" where
  "moves_left s = once_left (cl_once s) + sum_list (map caller_left (cl_callers s))"

lemma body_step_cases:
  assumes "body_step b s = Some t"
  obtains "b = CancelRoot" "t = s\<lparr>cl_node := cancel_root (cl_node s),
        cl_once := OnceBusy (if cl_trigger s = None then StopAt AtSignal else CloseWakeListener)\<rparr>"
    | "b = CloseWakeListener" "t = s\<lparr>cl_trigger := map_option close_trigger (cl_trigger s), cl_once := OnceBusy AwaitHandlers\<rparr>"
    | "b = AwaitHandlers" "pred_option wait_returns (cl_trigger s)" "t = s\<lparr>cl_once := OnceBusy (StopAt AtSignal)\<rparr>"
    | r where "b = StopAt (Returned r)" "t = s\<lparr>cl_once := OnceDone\<rparr>"
    | st st' m where "b = StopAt st" "stage_step st (cl_node s) = Some (st', m)"
        "t = s\<lparr>cl_node := m, cl_once := OnceBusy (StopAt st')\<rparr>"
proof (cases b)
  case (StopAt st)
  show ?thesis
  proof (cases "\<exists>r. st = Returned r")
    case True
    then show ?thesis using assms StopAt that(4) by auto
  next
    case False
    then have "map_option (\<lambda>(st', m). s\<lparr>cl_node := m, cl_once := OnceBusy (StopAt st')\<rparr>) (stage_step st (cl_node s)) = Some t"
      using assms StopAt by (cases st) auto
    then show ?thesis using StopAt that(5) by auto
  qed
qed (use assms that in \<open>auto split: if_splits\<close>)

lemma caller_step_cases:
  assumes "caller_step c s = Some (d, t)"
  obtains "c = AwaitsContext" "nd_root_cancelled (cl_node s)" "d = AtOnce" "t = s"
    | "c = AtOnce" "cl_once s = OnceFresh" "d = InsideOnce" "t = enter_once s"
    | "c = AtOnce \<or> c = InsideOnce" "cl_once s = OnceDone" "d = CallerBack" "t = s"
  using assms by (cases c) (auto split: if_splits once_state.splits)

lemma body_step_keeps:
  "body_step b s = Some t \<Longrightarrow> cl_callers t = cl_callers s \<and> cl_sleep t = cl_sleep s"
  by (elim body_step_cases) simp_all

lemma body_step_less: "body_step b s = Some t \<Longrightarrow> once_left (cl_once t) < body_left b"
  by (elim body_step_cases) (auto dest: stage_step_less)

lemma caller_step_less:
  "caller_step c s = Some (d, t) \<Longrightarrow> caller_left d < caller_left c \<and> once_left (cl_once t) \<le> once_left (cl_once s)"
  by (elim caller_step_cases) (auto simp: enter_once_def)

lemma sum_list_caller_update:
  "i < length cs \<Longrightarrow> caller_left d < caller_left (cs ! i) \<Longrightarrow>
     sum_list (map caller_left (cs[i := d])) < sum_list (map caller_left cs)"
  by (induction cs arbitrary: i) (auto split: nat.splits)

lemma move_less: "close_move s t \<Longrightarrow> moves_left t < moves_left s"
proof (induction rule: close_move.induct)
  case (body s b t)
  then show ?case using body_step_less [OF body(2)] body_step_keeps [OF body(2)] by (simp add: moves_left_def)
next
  case (caller i s c t)
  then show ?case using caller_step_less [OF caller(2)] sum_list_caller_update [OF caller(1)] by (simp add: moves_left_def add_le_less_mono)
qed

lemma event_left: "close_event s t \<Longrightarrow> moves_left t = moves_left s"
  by (induction rule: close_event.induct) (simp_all add: moves_left_def)

lemma run_left: "close_run k s t \<Longrightarrow> k + moves_left t \<le> moves_left s"
  by (induction rule: close_run.induct) (auto dest: move_less event_left)

lemma callers_start_left: "sum_list (map caller_left cs) \<le> 3 * length cs"
proof (induction cs)
  case (Cons c cs)
  then show ?case by (cases c) simp_all
qed simp

subsection \<open>What holds at any time\<close>

text \<open>The stage of the stop that the function inside the \<open>sync.Once\<close> is at.\<close>

fun once_stage :: "once_state \<Rightarrow> stage" where
  "once_stage (OnceBusy (StopAt st)) = st"
| "once_stage OnceDone = Returned None"
| "once_stage _ = AtSignal"

fun past_cancel :: "once_state \<Rightarrow> bool" where
  "past_cancel OnceFresh = False"
| "past_cancel (OnceBusy b) = (b \<noteq> CancelRoot)"
| "past_cancel OnceDone = True"

definition listener_off :: "trigger option \<Rightarrow> bool" where
  "listener_off w = pred_option (\<lambda>w. \<not> wt_listener w) w"

definition handlers_off :: "trigger option \<Rightarrow> bool" where
  "handlers_off w = pred_option (\<lambda>w. \<not> wt_listener w \<and> wt_wg w = 0) w"

fun trigger_reached :: "once_state \<Rightarrow> trigger option \<Rightarrow> bool" where
  "trigger_reached (OnceBusy AwaitHandlers) w = listener_off w"
| "trigger_reached (OnceBusy (StopAt st)) w = handlers_off w"
| "trigger_reached OnceDone w = handlers_off w"
| "trigger_reached _ w = True"

fun caller_ok :: "once_state \<Rightarrow> caller \<Rightarrow> bool" where
  "caller_ok k InsideOnce = (k \<noteq> OnceFresh)"
| "caller_ok k CallerBack = (k = OnceDone)"
| "caller_ok k _ = True"

definition close_inv :: "(res_kind \<times> nat) set \<Rightarrow> closing \<Rightarrow> bool" where
  "close_inv L s \<longleftrightarrow> stop_race_inv L (cl_node s, once_stage (cl_once s), cl_sleep s) \<and>
     (past_cancel (cl_once s) \<longrightarrow> nd_root_cancelled (cl_node s)) \<and>
     trigger_reached (cl_once s) (cl_trigger s) \<and> list_all (caller_ok (cl_once s)) (cl_callers s)"

text \<open>What the steps do to the part of \<open>CloseRace\<close>.\<close>

lemma stop_race_frame:
  assumes "stop_race_inv L (n, a, b)"
  shows "stop_race_inv L (cancel_root n, a, b)" "stop_race_inv L (n\<lparr>nd_close_once := x\<rparr>, a, b)"
proof -
  have q: "quiet n \<Longrightarrow> quiet (cancel_root n)" "quiet n \<Longrightarrow> quiet (n\<lparr>nd_close_once := x\<rparr>)"
    by (erule quiet_mono; simp add: cancel_root_def)+
  have sg: "signalled n \<Longrightarrow> signalled (cancel_root n)" "signalled n \<Longrightarrow> signalled (n\<lparr>nd_close_once := x\<rparr>)"
    using q by (simp_all add: signalled_def) (simp add: cancel_root_def)
  have r: "stop_reached c n \<Longrightarrow> stop_reached c (cancel_root n)" "stop_reached c n \<Longrightarrow> stop_reached c (n\<lparr>nd_close_once := x\<rparr>)" for c
    using sg by (cases c; simp add: cancel_root_def cleared_def)+
  have g: "gor_ok (cancel_root n) = gor_ok n" "gor_ok (n\<lparr>nd_close_once := x\<rparr>) = gor_ok n"
    by (rule ext, rename_tac g, case_tac g; simp add: cancel_root_def)+
  have l: "ledger L (cancel_root n) = ledger L n" "ledger L (n\<lparr>nd_close_once := x\<rparr>) = ledger L n"
    by (simp_all add: ledger_def owned_def cancel_root_def)
  show "stop_race_inv L (cancel_root n, a, b)"
    using assms r(1) g(1) l(1) by (simp add: stop_race_inv_def gors_ok_def) (simp add: cancel_root_def)
  show "stop_race_inv L (n\<lparr>nd_close_once := x\<rparr>, a, b)"
    using assms r(2) g(2) l(2) by (simp add: stop_race_inv_def gors_ok_def)
qed

lemma stage_step_root:
  "stop_stage a \<Longrightarrow> \<not> nd_hangs n \<Longrightarrow> stage_step a n = Some (b, m) \<Longrightarrow> nd_root_cancelled m = nd_root_cancelled n"
  by (erule (2) stop_stage_cases) (simp_all add: stop_signal_eq torn_down_def)

lemma listener_off_turn:
  "listener_off (Some w) \<Longrightarrow> listener_off (Some (trigger_turn e w))"
  "handlers_off (Some w) \<Longrightarrow> handlers_off (Some (trigger_turn e w))"
  using closed_turn [of w e] by (auto simp: listener_off_def handlers_off_def)

lemma trigger_reached_turn:
  "trigger_reached c (Some w) \<Longrightarrow> trigger_reached c (Some (trigger_turn e w))"
  by (cases "(c, Some w)" rule: trigger_reached.cases) (auto intro: listener_off_turn)

lemma callers_mono:
  "list_all (caller_ok c) cs \<Longrightarrow> (\<And>x. caller_ok c x \<Longrightarrow> caller_ok d x) \<Longrightarrow> list_all (caller_ok d) cs"
  by (auto simp: list_all_iff)

lemma caller_ok_busy: "caller_ok (OnceBusy b) x \<Longrightarrow> caller_ok (OnceBusy d) x"
  "caller_ok (OnceBusy b) x \<Longrightarrow> caller_ok OnceDone x" "caller_ok OnceFresh x \<Longrightarrow> caller_ok (OnceBusy b) x"
  by (cases x; simp)+

lemma close_inv_body:
  assumes i: "close_inv L s" and b: "cl_once s = OnceBusy b" and t: "body_step b s = Some t"
  shows "close_inv L t"
proof -
  note h = i [unfolded close_inv_def b]
  have cs: "list_all (caller_ok (OnceBusy d)) (cl_callers s)" "list_all (caller_ok OnceDone) (cl_callers s)" for d
    using h callers_mono caller_ok_busy(1,2) by blast+
  from t show ?thesis
  proof (cases rule: body_step_cases)
    case 1
    then show ?thesis
      using h cs stop_race_frame(1) [of L "cl_node s"] by (simp add: close_inv_def handlers_off_def) (simp add: cancel_root_def)
  next
    case 2
    then show ?thesis
      using h cs by (cases "cl_trigger s") (simp_all add: close_inv_def listener_off_def close_trigger_def)
  next
    case 3
    then show ?thesis
      using h cs by (cases "cl_trigger s") (simp_all add: close_inv_def listener_off_def handlers_off_def wait_returns_def)
  next
    case (4 r)
    then have "r = None" using h by (simp add: stop_race_inv_def)
    then show ?thesis using 4 h cs by (simp add: close_inv_def)
  next
    case (5 st st' m)
    have st: "stop_stage st" "\<not> nd_hangs (cl_node s)" using h 5(1) by (simp_all add: stop_race_inv_def)
    have "nd_root_cancelled m" using stage_step_root [OF st 5(2)] h 5(1) by simp
    moreover have "stop_race_inv L (m, st', cl_sleep s)" using stop_race_step [OF _ 5(2)] h 5(1) by simp
    ultimately show ?thesis using 5 h cs by (simp add: close_inv_def)
  qed
qed

lemma close_inv_caller:
  assumes i: "close_inv L s" and n: "i < length (cl_callers s)" and t: "caller_step (cl_callers s ! i) s = Some (c, t)"
  shows "close_inv L (t\<lparr>cl_callers := (cl_callers s)[i := c]\<rparr>)"
proof -
  note h = i [unfolded close_inv_def]
  have up: "list_all (caller_ok d) ((cl_callers s)[i := c])" if "list_all (caller_ok d) (cl_callers s)" "caller_ok d c" for d
    using that set_update_subset_insert [of "cl_callers s" i c] by (auto simp: list_all_iff)
  from t show ?thesis
  proof (cases rule: caller_step_cases)
    case 1
    then show ?thesis using h up by (simp add: close_inv_def)
  next
    case 2
    have "list_all (caller_ok (OnceBusy CancelRoot)) (cl_callers s)"
      using h 2 callers_mono caller_ok_busy(3) by metis
    then show ?thesis
      using h 2 up stop_race_frame(2) [of L "cl_node s"] by (simp add: close_inv_def enter_once_def)
  next
    case 3
    then show ?thesis using h up by (simp add: close_inv_def)
  qed
qed

lemma close_inv_event:
  assumes i: "close_inv L s" and e: "close_event s t"
  shows "close_inv L t"
  using e i
proof (induction rule: close_event.induct)
  case (context_ends s)
  then show ?case using stop_race_frame(1) [of L "cl_node s"] by (simp add: close_inv_def) (simp add: cancel_root_def)
next
  case (trigger_moves s w e)
  then show ?case using trigger_reached_turn by (simp add: close_inv_def)
next
  case (manager_stops s b m)
  then have h: "stop_race_inv L (cl_node s, once_stage (cl_once s), cl_sleep s)" by (simp add: close_inv_def)
  then have "stop_stage (cl_sleep s)" "\<not> nd_hangs (cl_node s)" by (simp_all add: stop_race_inv_def)
  from stage_step_root [OF this manager_stops(1)]
    stop_race_inv_swap [OF stop_race_step [OF stop_race_inv_swap [OF h] manager_stops(1)]] manager_stops(2)
  show ?case by (simp add: close_inv_def)
qed

lemma close_inv_move: "close_move s t \<Longrightarrow> close_inv L s \<Longrightarrow> close_inv L t"
  by (induction rule: close_move.induct) (auto intro: close_inv_body close_inv_caller)

lemma close_inv_run: "close_run k s t \<Longrightarrow> close_inv L s \<Longrightarrow> close_inv L t"
  by (induction rule: close_run.induct) (auto intro: close_inv_move close_inv_event)

subsection \<open>No caller waits for ever\<close>

definition all_back :: "closing \<Rightarrow> bool" where
  "all_back s \<longleftrightarrow> list_all (\<lambda>c. c = CallerBack) (cl_callers s)"

text \<open>\<open>Close\<close> has been called, or will be because the context has ended.\<close>

definition close_called :: "closing \<Rightarrow> bool" where
  "close_called s \<longleftrightarrow> cl_once s \<noteq> OnceFresh \<or> nd_root_cancelled (cl_node s) \<or> AtOnce \<in> set (cl_callers s)"

text \<open>The one wait that is not for the node: \<open>Stop\<close> of the manager waits for the handlers of wake connections.\<close>

definition awaiting :: "closing \<Rightarrow> bool" where
  "awaiting s \<longleftrightarrow> cl_once s = OnceBusy AwaitHandlers \<and> \<not> pred_option wait_returns (cl_trigger s)"

lemma caller_moves:
  "c \<in> set (cl_callers s) \<Longrightarrow> caller_step c s \<noteq> None \<Longrightarrow> \<exists>t. close_move s t"
  by (metis caller in_set_conv_nth option.exhaust prod.exhaust)

lemma close_progress:
  assumes i: "close_inv L s" and c: "close_called s" and b: "\<not> all_back s"
  shows "(\<exists>t. close_move s t) \<or> awaiting s"
proof -
  obtain x where x: "x \<in> set (cl_callers s)" "x \<noteq> CallerBack" using b by (auto simp: all_back_def list_all_iff)
  have ok: "caller_ok (cl_once s) x" using i x(1) by (simp add: close_inv_def list_all_iff)
  show ?thesis
  proof (cases "cl_once s")
    case OnceFresh
    have "(\<exists>y \<in> set (cl_callers s). y = AtOnce) \<or> (nd_root_cancelled (cl_node s) \<and> x = AwaitsContext)"
      using c OnceFresh x ok by (cases x) (auto simp: close_called_def)
    then show ?thesis using caller_moves [of _ s] x(1) OnceFresh by auto
  next
    case OnceDone
    then have "caller_step x s \<noteq> None" using i x(2) by (cases x) (simp_all add: close_inv_def)
    then show ?thesis using caller_moves x(1) by blast
  next
    case (OnceBusy d)
    show ?thesis
    proof (cases "body_step d s")
      case (Some t)
      then show ?thesis using close_move.body [OF OnceBusy] by blast
    next
      case None
      have "stage_step st (cl_node s) \<noteq> None" if "d = StopAt st" "\<And>r. st \<noteq> Returned r" for st
        using i that OnceBusy
        by (cases st) (auto simp: close_inv_def stop_race_inv_def wait_eq teardown_torn_down signalled_def)
      then have "d = AwaitHandlers" using None by (cases d) (force split: stage.splits)+
      then show ?thesis using None OnceBusy by (simp add: awaiting_def split: if_splits)
    qed
  qed
qed

lemma close_called_move: "close_move s t \<Longrightarrow> close_called s \<Longrightarrow> close_called t"
proof (induction rule: close_move.induct)
  case (body s b t)
  then have "cl_once t \<noteq> OnceFresh" by (auto elim: body_step_cases)
  then show ?case by (simp add: close_called_def)
next
  case (caller i s c t)
  from caller(2) show ?case
    by (rule caller_step_cases) (use caller(3) in \<open>auto simp: close_called_def enter_once_def in_set_conv_nth nth_list_update\<close>)
qed

lemma close_run_trans: "close_run k t u \<Longrightarrow> close_run j s t \<Longrightarrow> close_run (j + k) s u"
  by (induction rule: close_run.induct) (auto intro: close_run.intros)

lemma handlers_end:
  assumes "cl_trigger s = Some w"
  shows "close_run 0 s (s\<lparr>cl_trigger := Some (w\<lparr>wt_wg := 0, wt_handled := wt_handled w + wt_wg w\<rparr>)\<rparr>)"
  using assms
proof (induction "wt_wg w" arbitrary: s w)
  case 0
  then have "s\<lparr>cl_trigger := Some (w\<lparr>wt_wg := 0, wt_handled := wt_handled w + wt_wg w\<rparr>)\<rparr> = s"
    by (cases s, cases w) simp
  then show ?case by (simp add: close_run.start)
next
  case (Suc n)
  let ?w = "trigger_turn HandlerEnds w"
  have w: "wt_wg ?w = n" "?w\<lparr>wt_wg := 0, wt_handled := wt_handled ?w + wt_wg ?w\<rparr> = w\<lparr>wt_wg := 0, wt_handled := wt_handled w + wt_wg w\<rparr>"
    using Suc(2) by (simp_all add: trigger_turn_def)
  have "close_run 0 s (s\<lparr>cl_trigger := Some ?w\<rparr>)"
    using close_run.event [OF close_run.start close_event.trigger_moves [OF Suc(3), of HandlerEnds]] by simp
  from close_run_trans [OF Suc(1) [of ?w "s\<lparr>cl_trigger := Some ?w\<rparr>"] this] w show ?case by simp
qed

lemma close_finishes:
  assumes "close_inv L s" "close_called s"
  shows "\<exists>k t. close_run k s t \<and> all_back t"
  using assms
proof (induction "moves_left s" arbitrary: s rule: less_induct)
  case less
  have mv: ?case if "close_run 0 s r" "close_move r t" "close_inv L r" "close_called r" "moves_left r = moves_left s" for r t
  proof -
    have "close_inv L t" "close_called t" "moves_left t < moves_left s"
      using that close_inv_move close_called_move move_less by metis+
    from less(1) [OF this(3,1,2)] obtain k u where "close_run k t u" "all_back u" by blast
    moreover have "close_run 1 s t" using close_run.move [OF that(1,2)] by simp
    ultimately show ?thesis using close_run_trans by blast
  qed
  consider "all_back s" | t where "close_move s t" | "awaiting s"
    using close_progress [OF less(2,3)] by blast
  then show ?case
  proof cases
    case 1
    then show ?thesis using close_run.start by blast
  next
    case 2
    then show ?thesis using mv [OF close_run.start] less(2,3) by blast
  next
    case 3
    then obtain w where w: "cl_trigger s = Some w" "cl_once s = OnceBusy AwaitHandlers"
      by (cases "cl_trigger s") (auto simp: awaiting_def)
    let ?s = "s\<lparr>cl_trigger := Some (w\<lparr>wt_wg := 0, wt_handled := wt_handled w + wt_wg w\<rparr>)\<rparr>"
    have "close_move ?s (?s\<lparr>cl_once := OnceBusy (StopAt AtSignal)\<rparr>)"
      by (rule close_move.body [where b = AwaitHandlers]) (simp_all add: w wait_returns_def)
    moreover have "close_inv L ?s" using less(2) w by (simp add: close_inv_def listener_off_def)
    moreover have "close_called ?s" "moves_left ?s = moves_left s"
      by (simp_all add: close_called_def moves_left_def w)
    ultimately show ?thesis using mv [OF handlers_end [OF w(1)]] by blast
  qed
qed

lemma closing_start_inv:
  assumes "node_up n \<or> node_down n" "\<not> nd_hangs n" "list_all (\<lambda>c. c \<in> {AwaitsContext, AtOnce}) cs"
  shows "\<exists>L. close_inv L (closing_start n w cs) \<and> L = nd_live n - owned n"
proof -
  obtain L where L: "ledger L n" "gors_ok n"
    using assms(1) by (auto simp: node_up_def node_down_def up_def down_def gors_ok_def)
  have "list_all (caller_ok OnceFresh) cs" using assms(3) by (auto simp: list_all_iff)
  then have "close_inv L (closing_start n w cs)"
    using L assms(2) by (simp add: close_inv_def closing_start_def stop_race_inv_def)
  moreover have "L = nd_live n - owned n" using L(1) by (auto simp: ledger_def)
  ultimately show ?thesis by blast
qed

text \<open>What a caller of \<open>Close\<close> may rely on when it is back.\<close>

definition shut :: "(res_kind \<times> nat) set \<Rightarrow> closing \<Rightarrow> bool" where
  "shut L s \<longleftrightarrow> cleared (cl_node s) \<and> nd_live (cl_node s) = L \<and> nd_goroutines (cl_node s) = [] \<and>
     nd_closers (cl_node s) = [] \<and> nd_root_cancelled (cl_node s) \<and> handlers_off (cl_trigger s)"

lemma done_shut: "close_inv L s \<Longrightarrow> cl_once s = OnceDone \<Longrightarrow> shut L s"
  using owned_cleared [of "cl_node s"] by (auto simp: close_inv_def shut_def stop_race_inv_def signalled_def ledger_def)



subsection \<open>A caller by itself\<close>

lemma close_run_move: "close_move s t \<Longrightarrow> close_run k t u \<Longrightarrow> close_run (Suc k) s u"
  using close_run_trans [OF _ close_run.move [OF close_run.start]] by fastforce

lemma body_moves:
  "cl_once s = OnceBusy b \<Longrightarrow> body_step b s = Some t \<Longrightarrow> close_run k t u \<Longrightarrow> close_run (Suc k) s u"
  using close_run_move close_move.body by blast

lemma first_caller_moves:
  "cl_callers s = [c] \<Longrightarrow> caller_step c s = Some (d, t) \<Longrightarrow> close_run k (t\<lparr>cl_callers := [d]\<rparr>) u \<Longrightarrow> close_run (Suc k) s u"
  using close_run_move [OF close_move.caller [of 0 s d t]] by simp

text \<open>A single call that nothing interrupts does what \<open>close_node\<close> of \<open>Node\<close> does.\<close>

lemma close_alone:
  assumes "\<not> nd_close_once n" "close_node n = Some m"
  shows "\<exists>s. close_run 7 (closing_start n None [AtOnce]) s \<and> all_back s \<and> cl_node s = m"
proof -
  let ?n = "enter_close n"
  obtain x where x: "wait_components (stop_signal ?n) = Some x" "stop_teardown x = Some m"
    using assms by (auto simp: close_node_def stop_components_def enter_close_def bind_eq_Some_conv)
  let ?at = "\<lambda>k m c. \<lparr>cl_node = m, cl_trigger = None, cl_once = k, cl_sleep = AtSignal, cl_callers = [c]\<rparr>"
  have 6: "close_run 1 (?at OnceDone m InsideOnce) (?at OnceDone m CallerBack)"
    using first_caller_moves [OF _ _ close_run.start, of "?at OnceDone m InsideOnce" InsideOnce] by simp
  have 5: "close_run 2 (?at (OnceBusy (StopAt (Returned None))) m InsideOnce) (?at OnceDone m CallerBack)"
    using body_moves [OF _ _ 6, of "?at (OnceBusy (StopAt (Returned None))) m InsideOnce"] by (simp add: numeral_2_eq_2)
  have 4: "close_run 3 (?at (OnceBusy (StopAt AtTeardown)) x InsideOnce) (?at OnceDone m CallerBack)"
    using body_moves [OF _ _ 5, of "?at (OnceBusy (StopAt AtTeardown)) x InsideOnce"] x(2) by (simp add: numeral_3_eq_3 numeral_2_eq_2)
  have 3: "close_run 4 (?at (OnceBusy (StopAt AtWait)) (stop_signal ?n) InsideOnce) (?at OnceDone m CallerBack)"
    using body_moves [OF _ _ 4, of "?at (OnceBusy (StopAt AtWait)) (stop_signal ?n) InsideOnce"] x(1) by (simp add: eval_nat_numeral)
  have 2: "close_run 5 (?at (OnceBusy (StopAt AtSignal)) ?n InsideOnce) (?at OnceDone m CallerBack)"
    using body_moves [OF _ _ 3, of "?at (OnceBusy (StopAt AtSignal)) ?n InsideOnce"] by (simp add: eval_nat_numeral)
  have 1: "close_run 6 (?at (OnceBusy CancelRoot) (n\<lparr>nd_close_once := True\<rparr>) InsideOnce) (?at OnceDone m CallerBack)"
    using body_moves [OF _ _ 2, of "?at (OnceBusy CancelRoot) (n\<lparr>nd_close_once := True\<rparr>) InsideOnce" CancelRoot]
    by (simp add: eval_nat_numeral cancel_root_def enter_close_def)
  have "close_run 7 (closing_start n None [AtOnce]) (?at OnceDone m CallerBack)"
    using first_caller_moves [of "closing_start n None [AtOnce]" AtOnce InsideOnce "enter_once (closing_start n None [AtOnce])" 6] 1
    by (simp add: eval_nat_numeral enter_once_def closing_start_def)
  then show ?thesis by (intro exI [of _ "?at OnceDone m CallerBack"]) (simp add: all_back_def)
qed

end
