(* ===== verification/DialRace.thy ===== *)
theory DialRace
  imports StopRace
begin

text \<open>
  Stopping the components while a forwarding goroutine dials. The accept loop of \<open>StartLocalTCP\<close>
  (\<open>mod/mapping/tcp.go\<close>) calls \<open>ns.DialTCP\<close>, which takes no context; \<open>stopComponents\<close> (\<open>mod/yggstack/func.go\<close>)
  waits for the loop before it closes the netstack, the one thing that would end the call. When a dial returns by
  itself is up to the network stack: the dials in a set \<open>hung\<close> do not.
\<close>

record dial_race =
  dr_race :: race
  dr_dials :: "nat set"     \<comment> \<open>goroutines inside \<open>ns.DialTCP\<close>\<close>
  dr_netstack :: bool       \<comment> \<open>the netstack is open\<close>

text \<open>A goroutine that dials takes no other step; the netstack is closed after the wait of the stop.\<close>

inductive dial_step :: "nat set \<Rightarrow> dial_race \<Rightarrow> dial_race \<Rightarrow> bool" for hung where
  races: "race_step (dr_race s) r \<Longrightarrow> \<forall>i \<in> dr_dials s. rc_pcs r ! i = rc_pcs (dr_race s) ! i \<Longrightarrow>
     dial_step hung s (s\<lparr>dr_race := r\<rparr>)"
| dials: "i < length (rc_pcs (dr_race s)) \<Longrightarrow> rc_pcs (dr_race s) ! i = Serving \<Longrightarrow> i \<in> rc_open (dr_race s) \<Longrightarrow>
     i \<notin> dr_dials s \<Longrightarrow> dial_step hung s (s\<lparr>dr_dials := insert i (dr_dials s)\<rparr>)"
| dial_returns: "i \<in> dr_dials s \<Longrightarrow> i \<notin> hung \<Longrightarrow> dial_step hung s (s\<lparr>dr_dials := dr_dials s - {i}\<rparr>)"
| closes_netstack: "rc_stop (dr_race s) = Stopped \<Longrightarrow> dial_step hung s (s\<lparr>dr_netstack := False\<rparr>)"

abbreviation dial_steps :: "nat set \<Rightarrow> dial_race \<Rightarrow> dial_race \<Rightarrow> bool" where
  "dial_steps hung \<equiv> (dial_step hung)\<^sup>*\<^sup>*"

text \<open>A goroutine that dials is at its loop, so a stop that is past its wait has met no dial.\<close>

definition dial_inv :: "dial_race \<Rightarrow> bool" where
  "dial_inv s \<longleftrightarrow> (\<forall>i \<in> dr_dials s. i < length (rc_pcs (dr_race s)) \<and> rc_pcs (dr_race s) ! i = Serving) \<and>
     (dr_dials s \<noteq> {} \<longrightarrow> rc_stop (dr_race s) \<noteq> Stopped \<and> dr_netstack s)"

lemma race_step_length: "race_step r u \<Longrightarrow> length (rc_pcs u) = length (rc_pcs r)"
  by (erule race_stepE) simp_all

lemma race_step_stops:
  "race_step r u \<Longrightarrow> rc_stop u = Stopped \<Longrightarrow> rc_stop r \<noteq> Stopped \<Longrightarrow> list_all (\<lambda>p. p = Finished) (rc_pcs r)"
  by (erule race_stepE) simp_all

definition no_listener_after :: "dial_race \<Rightarrow> bool" where
  "no_listener_after s \<longleftrightarrow> (rc_stop (dr_race s) = Stopped \<longrightarrow> list_all (\<lambda>p. p = Finished) (rc_pcs (dr_race s))) \<and>
     (\<not> dr_netstack s \<longrightarrow> rc_stop (dr_race s) = Stopped)"

lemma race_step_stopped:
  "race_step r u \<Longrightarrow> rc_stop r = Stopped \<Longrightarrow> list_all (\<lambda>p. p = Finished) (rc_pcs r) \<Longrightarrow> False"
  by (erule race_stepE) (auto simp: list_all_length)

lemma dial_inv_step:
  assumes "dial_step hung s t" "dial_inv s" "no_listener_after s"
  shows "dial_inv t \<and> no_listener_after t"
  using assms
proof (induction rule: dial_step.induct)
  case (races s r)
  have l: "length (rc_pcs r) = length (rc_pcs (dr_race s))" by (rule race_step_length [OF races(1)])
  have ns: "rc_stop (dr_race s) \<noteq> Stopped" using race_step_stopped [OF races(1)] races(4) by (auto simp: no_listener_after_def)
  have st: "list_all (\<lambda>p. p = Finished) (rc_pcs (dr_race s))" if "rc_stop r = Stopped"
    using race_step_stops [OF races(1) that ns] .
  have "list_all (\<lambda>p. p = Finished) (rc_pcs r)" if "rc_stop r = Stopped"
    using races(1) that ns by (cases rule: race_step.cases) simp_all
  moreover have "dr_dials s = {}" if "rc_stop r = Stopped"
    using st [OF that] races(3) by (fastforce simp: dial_inv_def list_all_length)
  moreover have "dr_netstack s" using ns races(4) by (auto simp: no_listener_after_def)
  ultimately show ?case using races(2,3) l by (auto simp: dial_inv_def no_listener_after_def)
next
  case (dials i s)
  then have "rc_stop (dr_race s) \<noteq> Stopped" by (auto simp: no_listener_after_def list_all_length)
  then show ?case using dials by (auto simp: dial_inv_def no_listener_after_def)
qed (auto simp: dial_inv_def no_listener_after_def)

lemma hung_dial_stays: "dial_step hung s t \<Longrightarrow> i \<in> hung \<Longrightarrow> i \<in> dr_dials s \<Longrightarrow> i \<in> dr_dials t"
  by (induction rule: dial_step.induct) auto

text \<open>The goroutines that serve, with nothing dialled yet.\<close>

definition dial_start :: "race \<Rightarrow> dial_race" where
  "dial_start r = \<lparr>dr_race = r, dr_dials = {}, dr_netstack = True\<rparr>"

lemma dial_reach:
  assumes "dial_steps hung (dial_start r) s" "rc_stop r \<noteq> Stopped"
  shows "dial_inv s \<and> no_listener_after s"
  using assms(1)
proof (induction rule: rtranclp_induct)
  case base
  then show ?case using assms(2) by (simp add: dial_inv_def no_listener_after_def dial_start_def)
next
  case (step s t)
  then show ?case using dial_inv_step by blast
qed

text \<open>
  C40: a stop waits for every dial in progress: while one does not return, the stop is not past its wait and
  the netstack, whose closing would end the dial, stays open, in every continuation. \<open>Close\<close>, and with it
  \<open>Stop\<close> of the bindings, takes as long as a connection attempt.
\<close>

theorem stop_waits_for_dial:
  assumes "rc_stop r \<noteq> Stopped" "dial_steps hung (dial_start r) s" "i \<in> hung" "i \<in> dr_dials s" "dial_steps hung s t"
  shows "i \<in> dr_dials t \<and> rc_stop (dr_race t) \<noteq> Stopped \<and> dr_netstack t"
proof -
  have "i \<in> dr_dials t" using assms(5,4)
  proof (induction rule: rtranclp_induct)
    case (step t u)
    then show ?case using hung_dial_stays [OF step(2) assms(3)] by blast
  qed simp
  moreover have "dial_steps hung (dial_start r) t" using assms(2,5) by simp
  then have "dial_inv t" using dial_reach [OF _ assms(1)] by blast
  ultimately show ?thesis by (auto simp: dial_inv_def)
qed

theorem stop_waits_for_dial_witness:
  "\<exists>t. dial_steps {0} (dial_start \<lparr>rc_pcs = [Serving], rc_open = {0}, rc_closers = [0], rc_stop = Idle\<rparr>) t \<and>
     rc_stop (dr_race t) = Waiting \<and> 0 \<in> dr_dials t \<and> dr_netstack t"
proof -
  let ?r = "\<lparr>rc_pcs = [Serving], rc_open = {0}, rc_closers = [0], rc_stop = Idle\<rparr>"
  let ?s = "(dial_start ?r)\<lparr>dr_dials := {0}\<rparr>"
  let ?t = "?s\<lparr>dr_race := ?r\<lparr>rc_open := {}, rc_closers := [], rc_stop := Waiting\<rparr>\<rparr>"
  have s: "dial_steps {0} (dial_start ?r) ?s"
    using dials [of 0 "dial_start ?r" "{0}"] by (auto simp: dial_start_def)
  have 1: "dial_step {0} ?s (?s\<lparr>dr_race := ?r\<lparr>rc_stop := Cancelled\<rparr>\<rparr>)"
    by (rule races) (use stop_cancel [of ?r] in \<open>simp_all add: dial_start_def\<close>)
  have 2: "dial_step {0} (?s\<lparr>dr_race := ?r\<lparr>rc_stop := Cancelled\<rparr>\<rparr>) ?t"
    using races [of "?s\<lparr>dr_race := ?r\<lparr>rc_stop := Cancelled\<rparr>\<rparr>" _ "{0}", OF stop_drain] by (simp add: dial_start_def)
  have t: "dial_steps {0} ?s ?t" using 1 2 by (meson converse_rtranclp_into_rtranclp r_into_rtranclp)
  have "rc_stop ?r \<noteq> Stopped" "(0::nat) \<in> {0}" "0 \<in> dr_dials ?s" by simp_all
  from stop_waits_for_dial [OF this(1) s this(2,3) t] s t show ?thesis
    by (intro exI [of _ ?t]) simp
qed

end
