(* ===== verification/UdpWire.thy ===== *)
theory UdpWire
  imports UdpRelay
begin

text \<open>
  The data of UDP forwarding in every interleaving: the steps of \<open>UdpSessions\<close>, in which the receive loop and the
  cleanup take turns at each access they share, with the buffer of the loop, and with one \<open>ReverseProxyUDP\<close>
  goroutine per session, which reads and writes in separate steps. \<open>UdpRelay\<close> has the same handlers without
  interference.
\<close>

subsection \<open>State and steps\<close>

datatype back_pc = BackOff | BackRead | BackHeld bytes   \<comment> \<open>not running, in \<open>Read\<close>, before \<open>WriteTo\<close>\<close>

record udp_wire =
  uw_sys :: udp_sys
  uw_buf :: bytes                               \<comment> \<open>\<open>buf[:n]\<close> of the loop\<close>
  uw_back :: "nat \<Rightarrow> back_pc"
  uw_got :: "(string \<times> bytes) list"             \<comment> \<open>what \<open>ReadFrom\<close> returned, with the source\<close>
  uw_up :: "(nat \<times> bytes) list"                 \<comment> \<open>written to the connection of a session\<close>
  uw_heard :: "(nat \<times> bytes) list"              \<comment> \<open>what the goroutine of a session read\<close>
  uw_down :: "(nat \<times> string \<times> bytes) list"      \<comment> \<open>handed to \<open>WriteTo\<close>, by which session, with the address\<close>

definition udp_wire_init :: "int64 \<Rightarrow> int64 \<Rightarrow> udp_wire" where
  "udp_wire_init c0 ids = \<lparr>uw_sys = udp_init c0 ids, uw_buf = [], uw_back = (\<lambda>_. BackOff), uw_got = [], uw_up = [],
     uw_heard = [], uw_down = []\<rparr>"

text \<open>The key and session the loop works on.\<close>

fun loop_on :: "loop_pc \<Rightarrow> (string \<times> nat) option" where
  "loop_on (LStore k sid) = Some (k, sid)"
| "loop_on (LTouch k sid) = Some (k, sid)"
| "loop_on (LWrite k sid) = Some (k, sid)"
| "loop_on (LClose k sid) = Some (k, sid)"
| "loop_on _ = None"

text \<open>The steps of \<open>udp_step\<close> that move no data: those of the cleanup leave the position of the loop as it is.\<close>

fun moves_no_data :: "loop_pc \<Rightarrow> loop_pc \<Rightarrow> bool" where
  "moves_no_data LRead q = (q = LRead \<or> q = LExit)"
| "moves_no_data (LStore k sid) q = (q = LStore k sid)"
| "moves_no_data (LWrite k sid) q = (q = LWrite k sid \<or> q = LClose k sid)"
| "moves_no_data p q = True"

inductive wire_step :: "nat \<Rightarrow> udp_cfg \<Rightarrow> udp_wire \<Rightarrow> udp_wire \<Rightarrow> bool" for mtu cfg where
  receive: "us_loop (uw_sys s) = LRead \<Longrightarrow> udp_step cfg (uw_sys s) t \<Longrightarrow> loop_on (us_loop t) = Some (k, sid) \<Longrightarrow>
     take mtu raw \<noteq> [] \<Longrightarrow>
     wire_step mtu cfg s (s\<lparr>uw_sys := t, uw_buf := take mtu raw, uw_got := uw_got s @ [(k, take mtu raw)]\<rparr>)"
| undialled: "us_loop (uw_sys s) = LRead \<Longrightarrow> sm_load (ud_map (uw_sys s)) k = None \<Longrightarrow> take mtu raw \<noteq> [] \<Longrightarrow>
     wire_step mtu cfg s (s\<lparr>uw_buf := take mtu raw, uw_got := uw_got s @ [(k, take mtu raw)]\<rparr>)"
| stored: "us_loop (uw_sys s) = LStore k sid \<Longrightarrow> udp_step cfg (uw_sys s) t \<Longrightarrow> us_loop t = LTouch k sid \<Longrightarrow>
     wire_step mtu cfg s (s\<lparr>uw_sys := t, uw_back := (uw_back s)(sid := BackRead)\<rparr>)"
| written_up: "us_loop (uw_sys s) = LWrite k sid \<Longrightarrow> udp_step cfg (uw_sys s) t \<Longrightarrow> us_loop t = LRead \<Longrightarrow>
     wire_step mtu cfg s (s\<lparr>uw_sys := t, uw_up := uw_up s @ [(sid, uw_buf s)]\<rparr>)"
| other: "udp_step cfg (uw_sys s) t \<Longrightarrow> moves_no_data (us_loop (uw_sys s)) (us_loop t) \<Longrightarrow>
     wire_step mtu cfg s (s\<lparr>uw_sys := t\<rparr>)"
| back_read: "uw_back s sid = BackRead \<Longrightarrow> \<not> us_conn_closed (ud_heap (uw_sys s) sid) \<Longrightarrow> take mtu raw \<noteq> [] \<Longrightarrow>
     wire_step mtu cfg s (s\<lparr>uw_back := (uw_back s)(sid := BackHeld (take mtu raw)), uw_heard := uw_heard s @ [(sid, take mtu raw)]\<rparr>)"
| back_ends: "uw_back s sid = BackRead \<Longrightarrow> wire_step mtu cfg s (s\<lparr>uw_back := (uw_back s)(sid := BackOff)\<rparr>)"
| back_write: "uw_back s sid = BackHeld d \<Longrightarrow> q = BackRead \<or> q = BackOff \<Longrightarrow>
     wire_step mtu cfg s (s\<lparr>uw_back := (uw_back s)(sid := q),
       uw_down := uw_down s @ [(sid, us_remote (ud_heap (uw_sys s) sid), d)]\<rparr>)"

definition wire_reach :: "nat \<Rightarrow> udp_cfg \<Rightarrow> int64 \<Rightarrow> int64 \<Rightarrow> udp_wire \<Rightarrow> bool" where
  "wire_reach mtu cfg c0 ids s \<longleftrightarrow> (wire_step mtu cfg)\<^sup>*\<^sup>* (udp_wire_init c0 ids) s"

lemma wire_reach_induct [consumes 1, case_names init step]:
  assumes "wire_reach mtu cfg c0 ids s" "P (udp_wire_init c0 ids)" "\<And>s t. P s \<Longrightarrow> wire_step mtu cfg s t \<Longrightarrow> P t"
  shows "P s"
  using assms(1) unfolding wire_reach_def by (induction rule: rtranclp_induct) (auto intro: assms)

subsection \<open>The sessions below\<close>

text \<open>Forgetting the data, the steps are those of the sessions, and none of these is lost.\<close>

lemma wire_step_sys: "wire_step mtu cfg s t \<Longrightarrow> uw_sys t = uw_sys s \<or> udp_step cfg (uw_sys s) (uw_sys t)"
  by (induction rule: wire_step.induct) simp_all

lemma wire_sessions: "wire_reach mtu cfg c0 ids s \<Longrightarrow> udp_reach cfg c0 ids (uw_sys s)"
proof (induction rule: wire_reach_induct)
  case init
  then show ?case by (simp add: udp_wire_init_def reach_init)
next
  case (step s t)
  then show ?case using wire_step_sys reach_step by metis
qed

lemma udp_step_loop:
  "udp_step cfg s t \<Longrightarrow> us_loop t = us_loop s \<or>
     (us_loop s = LRead \<and> (us_loop t = LExit \<or> (\<exists>k sid. us_loop t = LTouch k sid \<or> us_loop t = LStore k sid))) \<or>
     (\<exists>k sid. us_loop s = LStore k sid \<and> us_loop t = LTouch k sid \<or> us_loop s = LTouch k sid \<and> us_loop t = LWrite k sid \<or>
        us_loop s = LWrite k sid \<and> (us_loop t = LRead \<or> us_loop t = LClose k sid) \<or>
        us_loop s = LClose k sid \<and> us_loop t = LDelete k) \<or>
     (\<exists>k. us_loop s = LDelete k \<and> us_loop t = LRead)"
  by (induction rule: udp_step.induct) (simp_all add: udp_effects udp_create_pcs)

lemma moves_no_data_same: "moves_no_data p p"
  by (cases p) simp_all

lemma wire_follows:
  assumes "udp_step cfg (uw_sys s) t" "0 < mtu"
  shows "\<exists>u. wire_step mtu cfg s u \<and> uw_sys u = t"
proof -
  have d: "take mtu [0 :: 8 word] \<noteq> []" using assms(2) by (cases mtu) simp_all
  consider (same) "moves_no_data (us_loop (uw_sys s)) (us_loop t)"
    | (read) k sid where "us_loop (uw_sys s) = LRead" "loop_on (us_loop t) = Some (k, sid)"
    | (store) k sid where "us_loop (uw_sys s) = LStore k sid" "us_loop t = LTouch k sid"
    | (wrote) k sid where "us_loop (uw_sys s) = LWrite k sid" "us_loop t = LRead"
    using udp_step_loop [OF assms(1)] moves_no_data_same by fastforce
  then show ?thesis
  proof cases
    case same
    from wire_step.other [OF assms(1) this] show ?thesis by (intro exI conjI) (assumption, simp)
  next
    case (read k sid)
    from wire_step.receive [OF read(1) assms(1) read(2) d] show ?thesis by (intro exI conjI) (assumption, simp)
  next
    case (store k sid)
    from wire_step.stored [OF store(1) assms(1) store(2)] show ?thesis by (intro exI conjI) (assumption, simp)
  next
    case (wrote k sid)
    from wire_step.written_up [OF wrote(1) assms(1) wrote(2)] show ?thesis by (intro exI conjI) (assumption, simp)
  qed
qed

subsection \<open>Upstream\<close>

definition sent_up :: "udp_wire \<Rightarrow> (string \<times> bytes) list" where
  "sent_up s = map (\<lambda>(sid, d). (us_remote (ud_heap (uw_sys s) sid), d)) (uw_up s)"

text \<open>What the loop has written comes from datagrams before the one it is on.\<close>

definition on_hand :: "loop_pc \<Rightarrow> bytes \<Rightarrow> (string \<times> bytes) list" where
  "on_hand p d = (case loop_on p of None \<Rightarrow> [] | Some (k, sid) \<Rightarrow> [(k, d)])"

definition up_ok :: "udp_wire \<Rightarrow> bool" where
  "up_ok s \<longleftrightarrow> (\<forall>x \<in> set (uw_up s). fst x < ud_next (uw_sys s)) \<and>
     (\<exists>g. uw_got s = g @ on_hand (us_loop (uw_sys s)) (uw_buf s) \<and> subseq (sent_up s) g)"

lemma sent_up_eq: "sent_up s = map (\<lambda>x. (us_remote (ud_heap (uw_sys s) (fst x)), snd x)) (uw_up s)"
  by (simp add: sent_up_def case_prod_beta)

lemma sent_up_step:
  assumes "udp_step cfg (uw_sys s) t" "\<forall>x \<in> set (uw_up s). fst x < ud_next (uw_sys s)"
  shows "map (\<lambda>x. (us_remote (ud_heap t (fst x)), snd x)) (uw_up s) = sent_up s"
    "\<forall>x \<in> set (uw_up s). fst x < ud_next t"
proof -
  note r = udp_step_remote [OF assms(1)]
  show "map (\<lambda>x. (us_remote (ud_heap t (fst x)), snd x)) (uw_up s) = sent_up s"
    unfolding sent_up_eq by (rule map_cong) (use r assms(2) in simp_all)
  show "\<forall>x \<in> set (uw_up s). fst x < ud_next t" using r assms(2) by (meson less_le_trans)
qed

lemma subseq_longer: "subseq xs ys \<Longrightarrow> subseq xs (ys @ zs)"
  by (rule subseq_order.order_trans) auto

lemma loop_refs_on: "loop_on p = Some (k, sid) \<Longrightarrow> (k, sid) \<in> loop_refs p"
  by (cases p) (simp_all add: loop_refs_def)

lemma refs_on: "refs_ok s \<Longrightarrow> loop_on (us_loop s) = Some (k, sid) \<Longrightarrow> sid < ud_next s \<and> us_remote (ud_heap s sid) = k"
  using loop_refs_on [of "us_loop s" k sid] unfolding refs_ok_def udp_refs_def by blast

lemma other_on_hand:
  assumes "udp_step cfg s t" "moves_no_data (us_loop s) (us_loop t)"
  shows "on_hand (us_loop t) d = on_hand (us_loop s) d \<or> on_hand (us_loop t) d = []"
  using udp_step_loop [OF assms(1)] assms(2) by (auto simp: on_hand_def)

lemma up_ok_after:
  assumes "udp_step cfg (uw_sys s) t" "up_ok s"
    "uw_sys u = t" "uw_up u = uw_up s" "uw_got u = uw_got s @ x @ on_hand (us_loop t) (uw_buf u)"
  shows "up_ok u"
proof -
  have b: "\<forall>x \<in> set (uw_up s). fst x < ud_next (uw_sys s)" using assms(2) by (simp add: up_ok_def)
  note k = sent_up_step [OF assms(1) b]
  have "sent_up u = sent_up s" unfolding sent_up_eq [of u] using k(1) by (simp add: assms(3,4))
  moreover have "subseq (sent_up s) (uw_got s @ x)"
    using assms(2) by (auto simp: up_ok_def intro: subseq_longer)
  ultimately show ?thesis using k(2) by (simp add: up_ok_def assms(3-5))
qed

lemma up_ok_on_hand:
  assumes "udp_step cfg (uw_sys s) t" "up_ok s" "uw_sys u = t" "uw_up u = uw_up s" "uw_got u = uw_got s" "uw_buf u = uw_buf s"
    "on_hand (us_loop t) (uw_buf s) = on_hand (us_loop (uw_sys s)) (uw_buf s) \<or> on_hand (us_loop t) (uw_buf s) = []"
  shows "up_ok u"
proof -
  have b: "\<forall>x \<in> set (uw_up s). fst x < ud_next (uw_sys s)" using assms(2) by (simp add: up_ok_def)
  note k = sent_up_step [OF assms(1) b]
  have "sent_up u = sent_up s" unfolding sent_up_eq [of u] using k(1) by (simp add: assms(3,4))
  moreover obtain g where "uw_got s = g @ on_hand (us_loop (uw_sys s)) (uw_buf s)" "subseq (sent_up s) g"
    using assms(2) by (auto simp: up_ok_def)
  ultimately show ?thesis using k(2) assms(3-7) subseq_longer by (auto simp: up_ok_def)
qed

lemma up_ok_step:
  assumes "wire_step mtu cfg s t" "refs_ok (uw_sys s)" "up_ok s"
  shows "up_ok t"
  using assms
proof (induction rule: wire_step.induct)
  case (receive s t k sid raw)
  show ?case by (rule up_ok_after [OF receive(2,6), where x = "[]"]) (simp_all add: on_hand_def receive(3))
next
  case (undialled s k raw)
  then show ?case by (auto simp: up_ok_def sent_up_def on_hand_def intro: subseq_longer)
next
  case (stored s k sid t)
  show ?case by (rule up_ok_on_hand [OF stored(2,5)]) (simp_all add: on_hand_def stored(1,3))
next
  case (written_up s k sid t)
  obtain g where g: "uw_got s = g @ [(k, uw_buf s)]" "subseq (sent_up s) g"
    and b: "\<forall>x \<in> set (uw_up s). fst x < ud_next (uw_sys s)"
    using written_up by (auto simp: up_ok_def on_hand_def)
  note u = sent_up_step [OF written_up(2) b]
  have "sid < ud_next (uw_sys s)" "us_remote (ud_heap (uw_sys s) sid) = k"
    using refs_on [OF written_up(4), of k sid] written_up(1) by simp_all
  then have k: "sid < ud_next t" "us_remote (ud_heap t sid) = k" using udp_step_remote [OF written_up(2)] by auto
  let ?u = "s\<lparr>uw_sys := t, uw_up := uw_up s @ [(sid, uw_buf s)]\<rparr>"
  have "sent_up ?u = sent_up s @ [(k, uw_buf s)]" using u(1) k(2) by (simp add: sent_up_eq [of ?u])
  then show ?case using u(2) k(1) g written_up(3) by (simp add: up_ok_def on_hand_def)
next
  case (other s t)
  show ?case by (rule up_ok_on_hand [OF other(1,4)]) (simp_all add: other_on_hand [OF other(1,2)])
qed (simp_all add: up_ok_def sent_up_def)

subsection \<open>Replies\<close>

text \<open>The datagram the goroutine of a session has read and not written.\<close>

fun held :: "back_pc \<Rightarrow> bytes list" where
  "held (BackHeld d) = [d]"
| "held _ = []"

definition heard_by :: "nat \<Rightarrow> udp_wire \<Rightarrow> bytes list" where
  "heard_by sid s = map snd (filter (\<lambda>x. fst x = sid) (uw_heard s))"

definition replied_by :: "nat \<Rightarrow> udp_wire \<Rightarrow> bytes list" where
  "replied_by sid s = map (snd \<circ> snd) (filter (\<lambda>x. fst x = sid) (uw_down s))"

definition down_ok :: "udp_wire \<Rightarrow> bool" where
  "down_ok s \<longleftrightarrow>
     (\<forall>sid. replied_by sid s @ held (uw_back s sid) = heard_by sid s) \<and>
     (\<forall>sid. uw_back s sid \<noteq> BackOff \<longrightarrow> sid < ud_next (uw_sys s)) \<and>
     (\<forall>k sid. us_loop (uw_sys s) = LStore k sid \<longrightarrow> uw_back s sid = BackOff) \<and>
     (\<forall>(sid, a, d) \<in> set (uw_down s). sid < ud_next (uw_sys s) \<and> a = us_remote (ud_heap (uw_sys s) sid)) \<and>
     (\<forall>sid < ud_next (uw_sys s). us_remote (ud_heap (uw_sys s) sid) \<in> fst ` set (uw_got s))"

lemma udp_step_created:
  "udp_step cfg s t \<Longrightarrow> ud_next t = ud_next s \<or>
     (us_loop s = LRead \<and> ud_next t = Suc (ud_next s) \<and> us_loop t = LStore (us_remote (ud_heap t (ud_next s))) (ud_next s))"
proof (induction rule: udp_step.induct)
  case (load_miss s k now sid t)
  then show ?case using udp_create_next [of cfg k now s] udp_create_heap [of cfg k now s] by auto
qed (simp_all add: udp_effects)

lemma udp_step_stores:
  "udp_step cfg s t \<Longrightarrow> us_loop t = LStore k sid \<Longrightarrow> us_loop s = LStore k sid \<or> sid = ud_next s"
proof (induction rule: udp_step.induct)
  case (load_miss s k now sid t)
  then show ?case using udp_create_next [of cfg k now s] by auto
qed (simp_all add: udp_effects)

lemma replied_heard_eq:
  "uw_down u = uw_down s \<Longrightarrow> replied_by sid u = replied_by sid s" "uw_heard u = uw_heard s \<Longrightarrow> heard_by sid u = heard_by sid s"
  by (simp_all add: replied_by_def heard_by_def)

lemma down_ok_after:
  assumes s: "udp_step cfg (uw_sys s) t" "down_ok s"
    and u: "uw_sys u = t" "uw_back u = uw_back s" "uw_down u = uw_down s" "uw_heard u = uw_heard s"
    and got: "set (uw_got s) \<subseteq> set (uw_got u)"
      "\<And>k. us_loop (uw_sys s) = LRead \<Longrightarrow> us_loop t = LStore k (ud_next (uw_sys s)) \<Longrightarrow> k \<in> fst ` set (uw_got u)"
  shows "down_ok u"
proof -
  note r = udp_step_remote [OF s(1)]
  note d = s(2) [unfolded down_ok_def]
  have 1: "\<forall>sid. replied_by sid u @ held (uw_back u sid) = heard_by sid u"
    using d replied_heard_eq(1) [OF u(3)] replied_heard_eq(2) [OF u(4)] by (simp add: u(2))
  have 2: "\<forall>sid. uw_back u sid \<noteq> BackOff \<longrightarrow> sid < ud_next t" using d r u(2) by (metis less_le_trans)
  have 3: "uw_back u sid = BackOff" if "us_loop t = LStore k sid" for k sid
    using udp_step_stores [OF s(1) that] d u(2) by (metis less_irrefl)
  have 4: "\<forall>(sid, a, x) \<in> set (uw_down u). sid < ud_next t \<and> a = us_remote (ud_heap t sid)"
    using d r u(3) by fastforce
  have 5: "us_remote (ud_heap t sid) \<in> fst ` set (uw_got u)" if i: "sid < ud_next t" for sid
  proof (cases "sid < ud_next (uw_sys s)")
    case True
    then have "us_remote (ud_heap t sid) \<in> fst ` set (uw_got s)" using d r by simp
    then show ?thesis using got(1) by blast
  next
    case False
    then have "sid = ud_next (uw_sys s)" "us_loop (uw_sys s) = LRead" "us_loop t = LStore (us_remote (ud_heap t sid)) (ud_next (uw_sys s))"
      using udp_step_created [OF s(1)] i by (auto simp: less_Suc_eq)
    then show ?thesis using got(2) by simp
  qed
  show ?thesis using 1 2 3 4 5 by (simp add: down_ok_def u(1))
qed

lemma back_update:
  assumes "down_ok s" "uw_back s i \<noteq> BackOff" "held q = []"
  shows "down_ok (s\<lparr>uw_back := (uw_back s)(i := q),
      uw_down := uw_down s @ map (\<lambda>d. (i, us_remote (ud_heap (uw_sys s) i), d)) (held (uw_back s i))\<rparr>)"
  using assms by (auto simp: down_ok_def replied_by_def heard_by_def filter_map comp_def map_idI split: if_splits)

lemma down_ok_step:
  assumes "wire_step mtu cfg s t" "refs_ok (uw_sys s)" "down_ok s"
  shows "down_ok t"
  using assms
proof (induction rule: wire_step.induct)
  case (receive s t k sid raw)
  show ?case by (rule down_ok_after [OF receive(2,6)]) (use receive(3) in auto)
next
  case (undialled s k raw)
  then show ?case by (auto simp: down_ok_def replied_by_def heard_by_def)
next
  case (stored s k sid t)
  have d: "down_ok (s\<lparr>uw_sys := t\<rparr>)" by (rule down_ok_after [OF stored(2,5)]) (use stored(1) in simp_all)
  have "sid < ud_next (uw_sys s)" using refs_on [OF stored(4), of k sid] stored(1) by simp
  then have "uw_back s sid = BackOff" "sid < ud_next t"
    using stored(1,5) udp_step_remote [OF stored(2)] by (simp_all add: down_ok_def)
  moreover from this(1) have "replied_by sid s = heard_by sid s"
    using stored(5) by (auto simp: down_ok_def dest: spec [of _ sid])
  ultimately show ?case using d stored(3) by (auto simp: down_ok_def replied_by_def heard_by_def)
next
  case (written_up s k sid t)
  show ?case by (rule down_ok_after [OF written_up(2,5)]) (use written_up(1) in simp_all)
next
  case (other s t)
  show ?case by (rule down_ok_after [OF other(1,4)]) (use other(2) in simp_all)
next
  case (back_read s sid raw)
  then have "replied_by sid s = heard_by sid s" by (auto simp: down_ok_def dest: spec [of _ sid])
  with back_read show ?case by (auto simp: down_ok_def replied_by_def heard_by_def)
next
  case (back_ends s sid)
  then show ?case using back_update [of s sid BackOff] by simp
next
  case (back_write s sid d q)
  then show ?case using back_update [of s sid q] by auto
qed

subsection \<open>Properties\<close>

lemma wire_reach_ok: "wire_reach mtu cfg c0 ids s \<Longrightarrow> up_ok s \<and> down_ok s"
proof -
  assume r: "wire_reach mtu cfg c0 ids s"
  have "wire_reach mtu cfg c0 ids s \<and> up_ok s \<and> down_ok s"
    using r
  proof (induction rule: wire_reach_induct)
    case init
    show ?case
      by (simp add: wire_reach_def up_ok_def down_ok_def udp_wire_init_def udp_init_def on_hand_def sent_up_def replied_by_def heard_by_def)
  next
    case (step s t)
    then have "udp_inv cfg c0 (uw_sys s)" by (meson udp_reach_inv wire_sessions)
    then have "refs_ok (uw_sys s)" by (simp add: udp_inv_def)
    then show ?case
      using step up_ok_step [OF step(2)] down_ok_step [OF step(2)] by (auto simp: wire_reach_def intro: rtranclp.rtrancl_into_rtrancl)
  qed
  then show ?thesis by simp
qed

text \<open>
  C17: in every interleaving of the receive loop, the cleanup and the goroutines of the sessions, nothing is made
  up, repeated, reordered or sent to the wrong place. Upstream, what was written for the sources is a subsequence
  of the datagrams they sent, cut to the MTU. On the way back, each session has passed on exactly the datagrams its
  connection yielded, in order, except for one it may still hold, and all of them to the source of the session,
  which has sent a datagram.
\<close>

theorem wire_keeps_datagrams:
  assumes "wire_reach mtu cfg c0 ids s"
  shows "subseq (sent_up s) (uw_got s) \<and>
     (\<forall>sid. replied_by sid s @ held (uw_back s sid) = heard_by sid s) \<and>
     (\<forall>(sid, a, d) \<in> set (uw_down s). a = us_remote (ud_heap (uw_sys s) sid) \<and> a \<in> fst ` set (uw_got s))"
proof -
  have o: "up_ok s" "down_ok s" using wire_reach_ok [OF assms] by simp_all
  have "subseq (sent_up s) (uw_got s)" using o(1) by (auto simp: up_ok_def intro: subseq_longer)
  with o(2) show ?thesis by (fastforce simp: down_ok_def)
qed

text \<open>A run in which a datagram goes up and its reply comes back.\<close>

lemma wire_demo: "\<exists>s. wire_reach 1500 demo_udp 0 0 s \<and> uw_got s = [(''a'', [1])] \<and> sent_up s = [(''a'', [1])] \<and>
   uw_down s = [(0, ''a'', [9])]"
proof -
  let ?i = "udp_wire_init 0 0"
  let ?y = "uw_sys ?i"
  obtain sid t where c: "udp_create demo_udp ''a'' 0 ?y = (sid, t)" by (cases "udp_create demo_udp ''a'' 0 ?y")
  have t: "sid = 0" "us_remote (ud_heap t 0) = ''a''" "\<not> us_conn_closed (ud_heap t 0)"
    using c by (auto simp: udp_create_def demo_udp_def udp_wire_init_def udp_init_def)
  let ?y1 = "t\<lparr>us_loop := LStore ''a'' 0\<rparr>"
  let ?y2 = "(udp_store ''a'' 0 ?y1)\<lparr>us_loop := LTouch ''a'' 0\<rparr>"
  let ?y3 = "(udp_touch 0 5 ?y2)\<lparr>us_loop := LWrite ''a'' 0\<rparr>"
  let ?y4 = "?y3\<lparr>us_loop := LRead\<rparr>"
  have y: "udp_step demo_udp ?y ?y1" "udp_step demo_udp ?y1 ?y2" "udp_step demo_udp ?y2 ?y3" "udp_step demo_udp ?y3 ?y4"
    using udp_step.load_miss [OF _ _ c] t udp_step.store [of ?y1 "''a''" 0 demo_udp]
      udp_step.touch [of ?y2 "''a''" 0 demo_udp 5] udp_step.write_ok [of ?y3 "''a''" 0 demo_udp]
    by (simp_all add: udp_wire_init_def udp_init_def new_session_map_def sm_load_def udp_write_ok_def udp_effects)
  let ?s1 = "?i\<lparr>uw_sys := ?y1, uw_buf := [1], uw_got := [(''a'', [1])]\<rparr>"
  let ?s2 = "?s1\<lparr>uw_sys := ?y2, uw_back := (\<lambda>_. BackOff)(0 := BackRead)\<rparr>"
  let ?s3 = "?s2\<lparr>uw_sys := ?y3\<rparr>"
  let ?s4 = "?s3\<lparr>uw_sys := ?y4, uw_up := [(0, [1])]\<rparr>"
  let ?s5 = "?s4\<lparr>uw_back := (\<lambda>_. BackOff)(0 := BackHeld [9]), uw_heard := [(0, [9])]\<rparr>"
  let ?s6 = "?s5\<lparr>uw_back := (\<lambda>_. BackOff)(0 := BackRead), uw_down := [(0, ''a'', [9])]\<rparr>"
  have f: "us_loop ?y = LRead" "uw_got ?i = []" "uw_up ?i = []" "uw_back ?i = (\<lambda>_. BackOff)" "uw_heard ?i = []" "uw_down ?i = []"
    by (simp_all add: udp_wire_init_def udp_init_def)
  have h: "us_remote (ud_heap ?y4 0) = ''a''" "\<not> us_conn_closed (ud_heap ?y4 0)" using t by (simp_all add: udp_effects)
  have "wire_step 1500 demo_udp ?i ?s1" using wire_step.receive [OF f(1) y(1), of "''a''" 0 1500 "[1]"] f by simp
  moreover have "wire_step 1500 demo_udp ?s1 ?s2" using wire_step.stored [of ?s1 "''a''" 0 demo_udp ?y2 1500] y(2) f by simp
  moreover have "wire_step 1500 demo_udp ?s2 ?s3" using wire_step.other [of demo_udp ?s2 ?y3 1500] y(3) by simp
  moreover have "wire_step 1500 demo_udp ?s3 ?s4" using wire_step.written_up [of ?s3 "''a''" 0 demo_udp ?y4 1500] y(4) f by simp
  moreover have "wire_step 1500 demo_udp ?s4 ?s5" using wire_step.back_read [of ?s4 0 1500 "[9]" demo_udp] h f by simp
  moreover have "wire_step 1500 demo_udp ?s5 ?s6" using wire_step.back_write [of ?s5 0 "[9]" BackRead 1500 demo_udp] h f by simp
  ultimately have "wire_reach 1500 demo_udp 0 0 ?s6"
    unfolding wire_reach_def by (meson rtranclp.rtrancl_refl rtranclp.rtrancl_into_rtrancl)
  moreover have "sent_up ?s6 = [(''a'', [1])]" using h(1) by (simp add: sent_up_def)
  ultimately show ?thesis by (intro exI [of _ ?s6]) simp
qed

theorem wire_keeps_datagrams_witness:
  "\<exists>s. wire_reach 1500 demo_udp 0 0 s \<and> uw_down s = [(0, ''a'', [9])] \<and> subseq (sent_up s) (uw_got s) \<and>
     heard_by 0 s = [[9]] @ held (uw_back s 0)"
proof -
  obtain s where s: "wire_reach 1500 demo_udp 0 0 s" "uw_down s = [(0, ''a'', [9])]" using wire_demo by blast
  from wire_keeps_datagrams [OF s(1)] s show ?thesis
    by (intro exI [of _ s]) (auto simp: replied_by_def dest: spec [of _ 0])
qed

end
