(* ===== verification/UdpAwake.thy ===== *)
theory UdpAwake
  imports UdpSessions NodeLife
begin

text \<open>
  UDP forwarding and the low power manager together: both use the connection counter of the node, the sessions to
  count themselves in and out (\<open>mod/mapping/udp.go\<close>), the manager to see on its tick whether the node is idle
  (\<open>mod/lowpower/manager.go\<close>). Other connections come and go meanwhile.
\<close>

subsection \<open>State and steps\<close>

record awake_sys =
  aw_manager :: "(node, config_obj) manager"
  aw_udp :: udp_sys
  aw_others :: nat     \<comment> \<open>tracked connections of other components\<close>

definition shared_count :: "udp_sys \<Rightarrow> nat \<Rightarrow> int64" where
  "shared_count s others = act_counter (ud_act s) + of_nat others"

definition set_count :: "int64 \<Rightarrow> (node, config_obj) manager \<Rightarrow> (node, config_obj) manager" where
  "set_count c m = m\<lparr>lm_node := (lm_node m)\<lparr>nd_count := c\<rparr>\<rparr>"

inductive awake_step :: "udp_cfg \<Rightarrow> awake_sys \<Rightarrow> awake_sys \<Rightarrow> bool" for cfg where
  forwards: "udp_step cfg (aw_udp a) t \<Longrightarrow>
    awake_step cfg a (a\<lparr>aw_udp := t, aw_manager := set_count (shared_count t (aw_others a)) (aw_manager a)\<rparr>)"
| others_change: "k < 2 ^ 62 \<Longrightarrow>
    awake_step cfg a (a\<lparr>aw_others := k, aw_manager := set_count (shared_count (aw_udp a) k) (aw_manager a)\<rparr>)"
| manager_turn: "ev \<noteq> DoneEvent \<Longrightarrow> run_turn node_control_obj ev (aw_manager a) = Some m \<Longrightarrow>
    awake_step cfg a (a\<lparr>aw_manager := m\<rparr>)"

subsection \<open>A forgotten session\<close>

lemma sint_small: "n < 2 ^ 63 \<Longrightarrow> sint (of_nat n :: int64) = int n"
  by (simp add: signed_of_nat signed_take_bit_int_eq_self)

definition awake_inv :: "udp_cfg \<Rightarrow> nat \<Rightarrow> awake_sys \<Rightarrow> bool" where
  "awake_inv cfg sid a \<longleftrightarrow> udp_inv cfg 0 (aw_udp a) \<and> orphan sid (aw_udp a) \<and> aw_others a < 2 ^ 62 \<and>
     lm_state (aw_manager a) = FullPower \<and>
     nd_count (lm_node (aw_manager a)) = shared_count (aw_udp a) (aw_others a)"

lemma shared_count_positive:
  assumes "udp_inv cfg 0 s" "orphan sid s" "uc_callback cfg" "ud_next s < 2 ^ 62" "k < 2 ^ 62"
  shows "0 < sint (shared_count s k)"
proof -
  have "open_sessions s \<subseteq> {..<ud_next s}" by (auto simp: open_sessions_def)
  then have c: "card (open_sessions s) \<le> ud_next s" using card_mono [of "{..<ud_next s}"] by fastforce
  have "0 < card (open_sessions s)" using assms(2) by (auto simp: orphan_def card_gt_0_iff)
  moreover have "shared_count s k = of_nat (card (open_sessions s) + k)"
    using assms(1,3) by (simp add: shared_count_def udp_inv_def udp_accounts_def)
  moreover have "card (open_sessions s) + k < 2 ^ 63" using c assms(4,5) by simp
  ultimately show ?thesis using sint_small [of "card (open_sessions s) + k"] by simp
qed

lemma awake_next: "awake_step cfg a b \<Longrightarrow> ud_next (aw_udp a) \<le> ud_next (aw_udp b)"
  by (induction rule: awake_step.induct) (auto dest: udp_step_remote)

lemma awake_turn:
  assumes "ev \<noteq> DoneEvent" "run_turn node_control_obj ev m = Some m'" "lm_state m = FullPower" "0 < sint (nd_count (lm_node m))"
  shows "lm_state m' = FullPower \<and> lm_node m' = lm_node m"
  using assms
  by (cases ev) (auto simp: run_turn_def run_tick_def node_control_obj_def node_active_connections_def
      transition_to_full_power_def stop_manager_def close_wake_listener_def touch_activity_def Let_def split: if_splits)

lemma set_count_fields [simp]:
  "lm_state (set_count c m) = lm_state m" "nd_count (lm_node (set_count c m)) = c"
  by (simp_all add: set_count_def)

lemma awake_step_inv:
  assumes "awake_step cfg a b" "awake_inv cfg sid a" "uc_callback cfg" "ud_next (aw_udp a) < 2 ^ 62"
  shows "awake_inv cfg sid b \<and> (\<exists>c. lm_node (aw_manager b) = (lm_node (aw_manager a))\<lparr>nd_count := c\<rparr>)"
  using assms
proof (induction rule: awake_step.induct)
  case (forwards a t)
  then have "udp_inv cfg 0 t" "orphan sid t"
    using udp_step_inv orphan_step [OF forwards(1)] by (auto simp: awake_inv_def udp_inv_def)
  then show ?case using forwards(2) by (auto simp: awake_inv_def set_count_def)
next
  case (others_change k a)
  then show ?case by (auto simp: awake_inv_def set_count_def)
next
  case (manager_turn ev a m)
  have "0 < sint (nd_count (lm_node (aw_manager a)))"
    using shared_count_positive [of cfg "aw_udp a" sid "aw_others a"] manager_turn(3-5) by (simp add: awake_inv_def)
  with awake_turn [OF manager_turn(1,2)] manager_turn(3)
  have m: "lm_state m = FullPower" "lm_node m = lm_node (aw_manager a)" by (simp_all add: awake_inv_def)
  have "lm_node (aw_manager a) = (lm_node (aw_manager a))\<lparr>nd_count := nd_count (lm_node (aw_manager a))\<rparr>" by simp
  with m manager_turn(3) show ?case
    by (intro conjI exI [of _ "nd_count (lm_node (aw_manager a))"]) (simp_all add: awake_inv_def)
qed

lemma awake_steps_inv:
  assumes "(awake_step cfg)\<^sup>*\<^sup>* a b" "awake_inv cfg sid a" "uc_callback cfg" "ud_next (aw_udp b) < 2 ^ 62"
  shows "awake_inv cfg sid b \<and> (\<exists>c. lm_node (aw_manager b) = (lm_node (aw_manager a))\<lparr>nd_count := c\<rparr>)"
  using assms(1,4)
proof (induction rule: rtranclp_induct)
  case base
  have "lm_node (aw_manager a) = (lm_node (aw_manager a))\<lparr>nd_count := nd_count (lm_node (aw_manager a))\<rparr>" by simp
  then show ?case using assms(2) by blast
next
  case (step b d)
  have n: "ud_next (aw_udp b) < 2 ^ 62" using awake_next [OF step(2)] step(4) by simp
  obtain c where b: "awake_inv cfg sid b" "lm_node (aw_manager b) = (lm_node (aw_manager a))\<lparr>nd_count := c\<rparr>"
    using step(3) n by blast
  from awake_step_inv [OF step(2) b(1) assms(3) n] obtain c' where
    "awake_inv cfg sid d" "lm_node (aw_manager d) = (lm_node (aw_manager b))\<lparr>nd_count := c'\<rparr>" by blast
  then show ?case unfolding b(2) by auto
qed

subsection \<open>Properties\<close>

text \<open>
  C24: one forgotten UDP session keeps the node from ever sleeping again: whatever the forwarding, the other
  connections and the manager do from then on, however long nobody sends anything, the manager stays at full power,
  the components stay as they are, and every tick only renews the time of the last activity.
\<close>

theorem orphan_keeps_node_awake:
  assumes "udp_reach cfg 0 ids s" "orphan sid s" "uc_callback cfg" "lm_state m = FullPower" "k < 2 ^ 62"
    "(awake_step cfg)\<^sup>*\<^sup>* \<lparr>aw_manager = set_count (shared_count s k) m, aw_udp = s, aw_others = k\<rparr> b"
    "ud_next (aw_udp b) < 2 ^ 62"
  shows "lm_state (aw_manager b) = FullPower \<and> (\<exists>c. lm_node (aw_manager b) = (lm_node m)\<lparr>nd_count := c\<rparr>) \<and>
     (\<forall>now env. run_turn node_control_obj (TickEvent now env) (aw_manager b) = Some (touch_activity now (aw_manager b)))"
proof -
  let ?a = "\<lparr>aw_manager = set_count (shared_count s k) m, aw_udp = s, aw_others = k\<rparr>"
  have "awake_inv cfg sid ?a"
    using udp_reach_inv [OF assms(1)] assms(2,4,5) by (simp add: awake_inv_def)
  from awake_steps_inv [OF assms(6) this assms(3,7)] obtain c where
    b: "awake_inv cfg sid b" "lm_node (aw_manager b) = (lm_node m)\<lparr>nd_count := c\<rparr>"
    by (auto simp: set_count_def)
  have "0 < sint (nd_count (lm_node (aw_manager b)))"
    using shared_count_positive [of cfg "aw_udp b" sid "aw_others b"] b(1) assms(3,7) by (simp add: awake_inv_def)
  then have "run_turn node_control_obj (TickEvent now env) (aw_manager b) = Some (touch_activity now (aw_manager b))" for now env
    using b(1) by (simp add: run_turn_def run_tick_def awake_inv_def node_control_obj_def node_active_connections_def)
  with b show ?thesis by (auto simp: awake_inv_def)
qed

theorem orphan_keeps_node_awake_witness:
  "\<exists>s. udp_reach (orphan_cfg ''udp'' 1000) 0 0 s \<and> ud_map s = [] \<and>
     run_turn node_control_obj (TickEvent 1000000 (demo_sleep_env True False)) (set_count (shared_count s 0) demo_manager) =
       Some (touch_activity 1000000 (set_count (shared_count s 0) demo_manager))"
proof -
  obtain s where s: "udp_reach (orphan_cfg ''udp'' 1000) 0 0 s" "ud_map s = []" "orphan 1 s" "ud_next s = 2"
    using orphan_run [of "''udp''" 1000 0 0] by blast
  have f: "lm_state demo_manager = FullPower"
    by (simp add: demo_manager_def new_low_power_def new_manager_def set_orig_config_def new_defaults_def demo_config_def)
  let ?a = "\<lparr>aw_manager = set_count (shared_count s 0) demo_manager, aw_udp = s, aw_others = 0\<rparr>"
  have "(awake_step (orphan_cfg ''udp'' 1000))\<^sup>*\<^sup>* ?a ?a" by simp
  from orphan_keeps_node_awake [OF s(1,3) _ f _ this] s show ?thesis by (intro exI [of _ s]) simp
qed

end
