(* ===== verification/Endpoints.thy ===== *)
theory Endpoints
  imports Cli Mobile NetAddr
begin

text \<open>
  From the mappings of the command line and of the bindings to the endpoints of the userspace network stack
  (\<open>src/netstack/netstack.go\<close>): what the forwarding code hands to \<open>DialTCP\<close>, \<open>DialUDP\<close>, \<open>ListenTCP\<close> and
  \<open>ListenUDP\<close> becomes a full address with a 16-bit port.
\<close>

text \<open>The endpoint of the stack for an address: its 16 bytes, or no address at all, and its port.\<close>

definition stack_addr :: "bytes \<Rightarrow> 16 word \<Rightarrow> full_address" where
  "stack_addr b q = \<lparr>fa_nic = 1, fa_addr = b, fa_port = q\<rparr>"

definition exact_port :: "int \<Rightarrow> 16 word \<Rightarrow> bool" where
  "exact_port p q \<longleftrightarrow> uint q = p"

lemma uint_port: "0 \<le> p \<Longrightarrow> p \<le> 65535 \<Longrightarrow> uint (word_of_int p :: 16 word) = p"
  by (simp add: uint_word_of_int)

lemma convert_exact:
  assumes "0 \<le> p" "p \<le> 65535"
  shows "\<exists>q. exact_port p q \<and>
     convert_to_full_addr ip p = (stack_addr (case to16 ip of None \<Rightarrow> [] | Some b \<Rightarrow> b) q, IPv6Protocol)"
  using uint_port [OF assms] by (auto simp: convert_to_full_addr_def stack_addr_def exact_port_def)

lemmas ns_calls = ns_dial_tcp_def ns_dial_udp_def ns_listen_tcp_def ns_listen_udp_def

lemma local_exact:
  assumes "local_mapping_ok l m"
  shows "\<exists>b q. length b = 16 \<and> addr_ip m = Some b \<and> to4 (Some b) = None \<and> exact_port (addr_port m) q \<and> q \<noteq> 0 \<and>
     ns_dial_tcp gn (addr_ip m) (addr_port m) = gn_dial_tcp gn (stack_addr b q) IPv6Protocol \<and>
     ns_dial_udp gn (addr_ip m) (addr_port m) = gn_dial_udp gn None (Some (stack_addr b q)) IPv6Protocol"
proof -
  obtain b where b: "addr_ip m = Some b" "length b = 16" "to4 (Some b) = None" and p: "1 \<le> addr_port m" "addr_port m \<le> 65535"
    using assms by (auto simp: local_mapping_ok_def valid_ports_def)
  obtain q where q: "exact_port (addr_port m) q" "convert_to_full_addr (addr_ip m) (addr_port m) = (stack_addr b q, IPv6Protocol)"
    using convert_exact [of "addr_port m" "addr_ip m"] p b by (auto simp: to16_def)
  have "q \<noteq> 0" using q(1) p(1) by (auto simp: exact_port_def)
  with b q show ?thesis by (intro exI [of _ b] exI [of _ q]) (simp add: ns_calls)
qed

lemma remote_exact:
  assumes "addr_ip l = None" "1 \<le> addr_port l" "addr_port l \<le> 65535"
  shows "\<exists>q. exact_port (addr_port l) q \<and> q \<noteq> 0 \<and>
     ns_listen_tcp gn (addr_ip l) (addr_port l) = gn_listen_tcp gn (stack_addr [] q) IPv6Protocol \<and>
     ns_listen_udp gn (addr_ip l) (addr_port l) = gn_dial_udp gn (Some (stack_addr [] q)) None IPv6Protocol"
proof -
  obtain q where q: "exact_port (addr_port l) q" "convert_to_full_addr (addr_ip l) (addr_port l) = (stack_addr [] q, IPv6Protocol)"
    using convert_exact [of "addr_port l" "addr_ip l"] assms by (auto simp: to16_def)
  have "q \<noteq> 0" using q(1) assms(2) by (auto simp: exact_port_def)
  with q show ?thesis by (intro exI [of _ q]) (simp add: ns_calls)
qed


text \<open>
  The bindings accept more, an address may be missing or IPv4 and the port of a local mapping may be 0
  (\<open>mobile_mapping_destination_unchecked\<close>), but their ports do not wrap either.
\<close>

theorem bindings_ports_exact:
  assumes "mobile_ok y"
  shows "(\<forall>m \<in> set (mb_local_tcps y). \<exists>q. exact_port (addr_port (tcp_mapped m)) q \<and>
        ns_dial_tcp gn (addr_ip (tcp_mapped m)) (addr_port (tcp_mapped m)) =
          gn_dial_tcp gn (stack_addr (case to16 (addr_ip (tcp_mapped m)) of None \<Rightarrow> [] | Some b \<Rightarrow> b) q) IPv6Protocol) \<and>
     (\<forall>m \<in> set (mb_remote_tcps y). \<exists>q. exact_port (addr_port (tcp_listen m)) q \<and> q \<noteq> 0 \<and>
        ns_listen_tcp gn (addr_ip (tcp_listen m)) (addr_port (tcp_listen m)) = gn_listen_tcp gn (stack_addr [] q) IPv6Protocol)"
proof (intro conjI ballI)
  fix m assume "m \<in> set (mb_local_tcps y)"
  then have "addr_ok (tcp_mapped m)" using assms by (auto simp: mobile_ok_def mappings_ok_def list_all_iff tcp_addrs_ok_def)
  then obtain q where "exact_port (addr_port (tcp_mapped m)) q" "convert_to_full_addr (addr_ip (tcp_mapped m)) (addr_port (tcp_mapped m)) =
      (stack_addr (case to16 (addr_ip (tcp_mapped m)) of None \<Rightarrow> [] | Some b \<Rightarrow> b) q, IPv6Protocol)"
    using convert_exact unfolding addr_ok_def by blast
  then show "\<exists>q. exact_port (addr_port (tcp_mapped m)) q \<and>
        ns_dial_tcp gn (addr_ip (tcp_mapped m)) (addr_port (tcp_mapped m)) =
          gn_dial_tcp gn (stack_addr (case to16 (addr_ip (tcp_mapped m)) of None \<Rightarrow> [] | Some b \<Rightarrow> b) q) IPv6Protocol"
    by (intro exI [of _ q]) (simp add: ns_calls)
next
  fix m assume "m \<in> set (mb_remote_tcps y)"
  then have "exposes_port (tcp_listen m)" using assms by (auto simp: mobile_ok_def mappings_ok_def list_all_iff)
  then show "\<exists>q. exact_port (addr_port (tcp_listen m)) q \<and> q \<noteq> 0 \<and>
        ns_listen_tcp gn (addr_ip (tcp_listen m)) (addr_port (tcp_listen m)) = gn_listen_tcp gn (stack_addr [] q) IPv6Protocol"
    using remote_exact [of "tcp_listen m" gn] by (auto simp: exposes_port_def)
qed


end
