(* ===== verification/Bridges.thy ===== *)
theory Bridges
  imports Mobile Peers
begin

text \<open>
  The loggers a node can have, the bridge of the bindings and the one that discards everything
  (\<open>mod/yggstack/logger.go\<close>), and what the goroutines of the two bridges (\<open>cmd/embedded/mobile/callbacks.go\<close>)
  make of the order of the calls: a bridge starts a goroutine for every message and every peer count.
\<close>

subsection \<open>Loggers\<close>

fun severity :: "log_method \<Rightarrow> int" where
  "severity Traceln = log_level_trace"
| "severity Debugf = log_level_debug" | "severity Debugln = log_level_debug"
| "severity Warnf = log_level_warn" | "severity Warnln = log_level_warn"
| "severity Errorf = log_level_error" | "severity Errorln = log_level_error"
| "severity _ = log_level_info"

text \<open>What comes of a sequence of messages.\<close>

definition log_lines :: "(log_method \<Rightarrow> string \<Rightarrow> 's \<Rightarrow> (nat \<times> string) option) \<Rightarrow> 's \<Rightarrow>
    (log_method \<times> string) list \<Rightarrow> (nat \<times> string) list" where
  "log_lines call s es = List.map_filter (\<lambda>(m, msg). call m msg s) es"

text \<open>What the components rely on of the logger they are given.\<close>

locale logger =
  fixes call :: "log_method \<Rightarrow> string \<Rightarrow> 's \<Rightarrow> (nat \<times> string) option"
  assumes louder: "call m msg s = Some x \<Longrightarrow> severity m \<le> severity m' \<Longrightarrow> \<exists>y. call m' msg' s = Some y"
    and whole: "call m msg s = Some (c, out) \<Longrightarrow> \<exists>p. out = p @ msg"
    and one_target: "call m msg s = Some (c, out) \<Longrightarrow> call m' msg' s = Some (c', out') \<Longrightarrow> c = c'"
begin

lemma severity_bounds: "0 \<le> severity m \<and> severity m \<le> 4"
  by (cases m) (simp_all add: log_levels)

text \<open>A logger has a level: exactly the messages from it upwards come through.\<close>

lemma has_level: "\<exists>k. \<forall>m msg. call m msg s \<noteq> None \<longleftrightarrow> k \<le> severity m"
proof (cases "\<exists>m msg. call m msg s \<noteq> None")
  case False
  then have "call m msg s \<noteq> None \<longleftrightarrow> 5 \<le> severity m" for m msg
    using severity_bounds [of m] by auto
  then show ?thesis by blast
next
  case True
  define P where "P k \<longleftrightarrow> (\<exists>m msg. call m msg s \<noteq> None \<and> severity m = int k)" for k
  obtain m0 msg0 where m0: "call m0 msg0 s \<noteq> None" using True by blast
  have "P (nat (severity m0))" using m0 severity_bounds [of m0] by (auto simp: P_def)
  then have l: "P (Least P)" by (rule LeastI)
  then obtain m1 msg1 where m1: "call m1 msg1 s \<noteq> None" "severity m1 = int (Least P)" by (auto simp: P_def)
  have "call m msg s \<noteq> None \<longleftrightarrow> int (Least P) \<le> severity m" for m msg
  proof
    assume c: "call m msg s \<noteq> None"
    then have "P (nat (severity m))" using severity_bounds [of m] by (auto simp: P_def)
    then show "int (Least P) \<le> severity m" using Least_le [of P] severity_bounds [of m] by fastforce
  next
    assume "int (Least P) \<le> severity m"
    then show "call m msg s \<noteq> None" using louder m1 by (metis not_Some_eq)
  qed
  then show ?thesis by blast
qed

lemma lines_level:
  "\<exists>k. \<forall>es. length (log_lines call s es) = length (filter (\<lambda>(m, msg). k \<le> severity m) es) \<and>
     list_all2 (\<lambda>(c, out) (m, msg). \<exists>p. out = p @ msg) (log_lines call s es) (filter (\<lambda>(m, msg). k \<le> severity m) es)"
proof -
  obtain k where k: "\<And>m msg. call m msg s \<noteq> None \<longleftrightarrow> k \<le> severity m" using has_level by blast
  have "list_all2 (\<lambda>(c, out) (m, msg). \<exists>p. out = p @ msg) (log_lines call s es) (filter (\<lambda>(m, msg). k \<le> severity m) es)" for es
  proof (induction es)
    case (Cons e es)
    obtain m msg where e: "e = (m, msg)" by (cases e)
    show ?case
    proof (cases "call m msg s")
      case None
      then show ?thesis using Cons k [of m msg] by (simp add: log_lines_def map_filter_simps e)
    next
      case (Some x)
      obtain c out where x: "x = (c, out)" by (cases x)
      have "k \<le> severity m" "\<exists>p. out = p @ msg" using Some k [of m msg] whole [of m msg s c out] by (simp_all add: x)
      then show ?thesis using Cons Some by (simp add: log_lines_def map_filter_simps e x)
    qed
  qed (simp add: log_lines_def map_filter_simps)
  then show ?thesis using list_all2_lengthD by blast
qed

end

text \<open>The logger of a node: \<open>New\<close> takes the discarding one where the configuration has none.\<close>

datatype node_logger = NoopLogger | BridgeLogger log_bridge

fun noop_call :: "log_method \<Rightarrow> string \<Rightarrow> (nat \<times> string) option" where
  "noop_call Printf msg = None" | "noop_call Println msg = None"
| "noop_call Infof msg = None" | "noop_call Infoln msg = None"
| "noop_call Warnf msg = None" | "noop_call Warnln msg = None"
| "noop_call Errorf msg = None" | "noop_call Errorln msg = None"
| "noop_call Debugf msg = None" | "noop_call Debugln msg = None"
| "noop_call Traceln msg = None"

definition node_logger_of :: "log_bridge option \<Rightarrow> node_logger" where
  "node_logger_of l = (case l of None \<Rightarrow> NoopLogger | Some b \<Rightarrow> BridgeLogger b)"

fun node_log :: "log_method \<Rightarrow> string \<Rightarrow> node_logger \<Rightarrow> (nat \<times> string) option" where
  "node_log m msg NoopLogger = noop_call m msg"
| "node_log m msg (BridgeLogger b) = log_call m msg b"

lemma noop_call_None [simp]: "noop_call m msg = None"
  by (cases m) simp_all

lemma log_call_some: "log_call m msg b = Some (c, out) \<longleftrightarrow> lb_cb b = Some c \<and> lb_level b \<le> severity m \<and>
    (\<exists>p. out = p @ msg \<and> log_call m [] b = Some (c, p))"
  by (cases m) (auto simp: emit_def split: option.splits)

lemma log_call_passes: "(\<exists>x. log_call m msg b = Some x) \<longleftrightarrow> lb_cb b \<noteq> None \<and> lb_level b \<le> severity m"
  by (cases m) (auto simp: emit_def split: option.splits)

interpretation bridge_log: logger log_call
proof
  fix m m' msg msg' c out c' out' x b
  show "log_call m msg b = Some x \<Longrightarrow> severity m \<le> severity m' \<Longrightarrow> \<exists>y. log_call m' msg' b = Some y"
    by (meson log_call_passes order_trans)
  show "log_call m msg b = Some (c, out) \<Longrightarrow> \<exists>p. out = p @ msg"
    using log_call_some [of m msg b c out] by blast
  show "log_call m msg b = Some (c, out) \<Longrightarrow> log_call m' msg' b = Some (c', out') \<Longrightarrow> c = c'"
    using log_call_some [of m msg b c out] log_call_some [of m' msg' b c' out'] by (metis option.inject)
qed

interpretation node_log: logger node_log
proof
  fix m m' msg msg' c out c' out' x and s :: node_logger
  show "node_log m msg s = Some x \<Longrightarrow> severity m \<le> severity m' \<Longrightarrow> \<exists>y. node_log m' msg' s = Some y"
    using bridge_log.louder by (cases s) auto
  show "node_log m msg s = Some (c, out) \<Longrightarrow> \<exists>p. out = p @ msg"
    using bridge_log.whole by (cases s) auto
  show "node_log m msg s = Some (c, out) \<Longrightarrow> node_log m' msg' s = Some (c', out') \<Longrightarrow> c = c'"
    using bridge_log.one_target by (cases s) auto
qed

text \<open>
  every logger a node can have is a level: from it upwards each message comes out once, whole and in order, with
  at most a prefix before it, and nothing else does; the discarding logger lets nothing through.
\<close>

theorem node_logger_is_a_level:
  "(\<exists>k. \<forall>es. length (log_lines node_log l es) = length (filter (\<lambda>(m, msg). k \<le> severity m) es) \<and>
      list_all2 (\<lambda>(c, out) (m, msg). \<exists>p. out = p @ msg) (log_lines node_log l es) (filter (\<lambda>(m, msg). k \<le> severity m) es)) \<and>
   log_lines node_log (node_logger_of None) es = []"
proof
  show "log_lines node_log (node_logger_of None) es = []"
    by (induction es) (auto simp: log_lines_def node_logger_of_def map_filter_simps)
qed (rule node_log.lines_level)

subsection \<open>Goroutines of the bridges\<close>

text \<open>Goroutines that have been started and have not run, and what those that have run delivered.\<close>

record 'a spawned =
  sp_pending :: "'a list"
  sp_done :: "'a list"

datatype 'a go_event = Go 'a | RunsNext nat   \<comment> \<open>a \<open>go\<close> statement; one of the goroutines runs\<close>

fun go_turn :: "'a go_event \<Rightarrow> 'a spawned \<Rightarrow> 'a spawned" where
  "go_turn (Go x) s = s\<lparr>sp_pending := sp_pending s @ [x]\<rparr>"
| "go_turn (RunsNext i) s =
     (if i < length (sp_pending s)
      then s\<lparr>sp_pending := take i (sp_pending s) @ drop (Suc i) (sp_pending s), sp_done := sp_done s @ [sp_pending s ! i]\<rparr>
      else s)"

definition go_run :: "'a go_event list \<Rightarrow> 'a spawned" where
  "go_run es = fold go_turn es \<lparr>sp_pending = [], sp_done = []\<rparr>"

definition go_starts :: "'a go_event list \<Rightarrow> 'a list" where
  "go_starts es = List.map_filter (\<lambda>e. case e of Go x \<Rightarrow> Some x | RunsNext i \<Rightarrow> None) es"

lemma mset_without: "i < length xs \<Longrightarrow> add_mset (xs ! i) (mset (take i xs) + mset (drop (Suc i) xs)) = mset xs"
proof -
  assume "i < length xs"
  then have "xs = take i xs @ xs ! i # drop (Suc i) xs" by (rule id_take_nth_drop)
  then have "mset xs = mset (take i xs @ xs ! i # drop (Suc i) xs)" by (rule arg_cong)
  then show ?thesis by simp
qed

lemma go_run_mset: "mset (sp_done (go_run es)) + mset (sp_pending (go_run es)) = mset (go_starts es)"
proof -
  have "mset (sp_done (fold go_turn es s)) + mset (sp_pending (fold go_turn es s)) =
      mset (sp_done s) + mset (sp_pending s) + mset (go_starts es)" for s :: "'a spawned"
  proof (induction es arbitrary: s)
    case (Cons e es)
    show ?case
    proof (cases e)
      case (Go x)
      then show ?thesis using Cons by (simp add: go_starts_def map_filter_simps)
    next
      case (RunsNext i)
      then show ?thesis using Cons mset_without [of i "sp_pending s"]
        by (auto simp: go_starts_def map_filter_simps add_mset_commute)
    qed
  qed (simp add: go_starts_def map_filter_simps)
  then show ?thesis by (simp add: go_run_def)
qed

lemma go_pending: "fold go_turn (map Go xs) s = s\<lparr>sp_pending := sp_pending s @ xs\<rparr>"
  by (induction xs arbitrary: s) simp_all

lemma go_in_order:
  "mset ys = mset (sp_pending s) \<Longrightarrow> \<exists>is. fold go_turn (map RunsNext is) s = s\<lparr>sp_pending := [], sp_done := sp_done s @ ys\<rparr>"
proof (induction ys arbitrary: s)
  case Nil
  then have "fold go_turn (map RunsNext []) s = s\<lparr>sp_pending := [], sp_done := sp_done s @ []\<rparr>" by (cases s) simp
  then show ?case by blast
next
  case (Cons y ys)
  have "y \<in> set (sp_pending s)" using Cons.prems by (metis list.set_intros(1) set_mset_mset)
  then obtain i where i: "i < length (sp_pending s)" "sp_pending s ! i = y" by (auto simp: in_set_conv_nth)
  let ?t = "go_turn (RunsNext i) s"
  have "add_mset y (mset ys) = add_mset y (mset (sp_pending ?t))"
    using Cons.prems mset_without [OF i(1)] i by simp
  then have "mset ys = mset (sp_pending ?t)" by simp
  from Cons.IH [OF this] obtain "is" where "fold go_turn (map RunsNext is) ?t = ?t\<lparr>sp_pending := [], sp_done := sp_done ?t @ ys\<rparr>"
    by blast
  then have "fold go_turn (map RunsNext (i # is)) s = s\<lparr>sp_pending := [], sp_done := sp_done s @ y # ys\<rparr>"
    using i by simp
  then show ?case by blast
qed

lemma go_any_order:
  "(\<exists>es. go_starts es = xs \<and> go_run es = \<lparr>sp_pending = [], sp_done = ys\<rparr>) \<longleftrightarrow> mset ys = mset xs"
proof
  show "\<exists>es. go_starts es = xs \<and> go_run es = \<lparr>sp_pending = [], sp_done = ys\<rparr> \<Longrightarrow> mset ys = mset xs"
    using go_run_mset by (metis add.right_neutral mset.simps(1) spawned.select_convs)
  assume y: "mset ys = mset xs"
  let ?s = "\<lparr>sp_pending = xs, sp_done = []\<rparr>"
  obtain "is" where r: "fold go_turn (map RunsNext is) ?s = \<lparr>sp_pending = [], sp_done = ys\<rparr>"
    using go_in_order [of ys ?s] y by auto
  have "go_starts (map Go xs @ map RunsNext is) = xs"
  proof -
    have "go_starts (map RunsNext is) = ([] :: 'a list)" by (induction "is") (simp_all add: go_starts_def map_filter_simps)
    moreover have "go_starts (map Go xs @ zs) = xs @ go_starts zs" for zs
      by (induction xs) (simp_all add: go_starts_def map_filter_simps)
    ultimately show ?thesis by simp
  qed
  moreover have "go_run (map Go xs @ map RunsNext is) = \<lparr>sp_pending = [], sp_done = ys\<rparr>"
    using r by (simp add: go_run_def go_pending)
  ultimately show "\<exists>es. go_starts es = xs \<and> go_run es = \<lparr>sp_pending = [], sp_done = ys\<rparr>" by blast
qed

definition peer_reports :: "nat option \<Rightarrow> (int \<times> int) list \<Rightarrow> (nat \<times> int \<times> int) list" where
  "peer_reports cb calls = List.map_filter (\<lambda>counts. pb_on_peer_count_changed counts cb) calls"

lemma peer_reports_some: "peer_reports (Some c) calls = map (Pair c) calls"
  by (induction calls) (simp_all add: peer_reports_def pb_on_peer_count_changed_def map_filter_simps)


end
