(* ===== verification/Spec2Isabelle.thy ===== *)
theory Spec2Isabelle
  imports MappingSpec NetAddr Resolver Activity Proxies UdpSessions TcpForward Socks LowPower WakeTrigger Node NodeLife
    StopRace CloseRace SocketFile Peers NodePeers UdpRelay Nic Netstack Mobile Cli HttpDemo HttpInfo HttpPlain Chat DemoPrograms AddrText NamedDial
    CloseCallers DialRace UdpWire UdpAwake Endpoints Bridges
begin

text \<open>
  Verification library for yggstack, a userspace Yggdrasil node: it runs the Yggdrasil core on a gVisor
  network stack and reaches it through a SOCKS5 proxy and through TCP and UDP port forwarding, and can put
  itself to sleep while nobody uses it.

  \<^bold>\<open>Parts and theories\<close>, in the order the program composes them:

  \<^item> \<open>GoPrelude\<close>, \<open>GoStrings\<close>, \<open>GoText\<close>, \<open>GoNet\<close>, \<open>GoResolve\<close>, \<open>GoPath\<close>, \<open>GoJson\<close>: what the code uses of Go and its
    standard library: results as sums, strings (\<open>Split\<close>, \<open>Cut\<close>, \<open>Atoi\<close>, decimal and hexadecimal, \<open>TrimSpace\<close>,
    \<open>ToLower\<close>), \<open>net.SplitHostPort\<close>, \<open>JoinHostPort\<close>, \<open>ParseIP\<close>, \<open>To4\<close>, \<open>To16\<close>, \<open>IP.String\<close>, \<open>ResolveTCPAddr\<close> over a
    lookup of names, \<open>path.Clean\<close> and \<open>Join\<close>, and \<open>json.Marshal\<close> of a list of strings with a reader for it. \<open>AddrText\<close>: \<open>ParseIP\<close> inverts \<open>IP.String\<close>.
  \<^item> \<open>MappingSpec\<close>: \<open>src/types/mapping.go\<close>, the text of port mappings, its parser and the four flag types.
  \<^item> \<open>NetAddr\<close>: \<open>src/netstack/netstack.go\<close>, addresses handed to gVisor. The gVisor dial and listen functions are
    the record \<open>gonet\<close>, a parameter.
  \<^item> \<open>Resolver\<close>: \<open>src/types/resolver.go\<close>, names of the form \<open><hex key>.pk.ygg\<close> and the choice of the
    nameserver. The address of a key (yggdrasil's \<open>address\<close> package) and DNS are parameters.
  \<^item> \<open>Activity\<close>: \<open>mod/activity\<close>, the connection counter, tracked connections, connection ids; the interfaces
    \<open>close_once\<close> and \<open>counted_close\<close> of everything the program shuts down under \<open>sync.Once\<close>.
  \<^item> \<open>Proxies\<close>: \<open>src/types/tcpproxy.go\<close> as a step relation of the caller and its two copiers, and
    \<open>src/types/udpproxy.go\<close> as a run over the results of its reads.
  \<^item> \<open>UdpSessions\<close>: \<open>mod/mapping/udp.go\<close>, \<open>udp_session.go\<close>, \<open>udp_session_func.go\<close>. The interface \<open>session_map\<close>
    and its association list; sessions in a heap; \<open>udp_step\<close>, the interleaving of the receive loop and the
    cleanup, one rule per access to shared state; \<open>udp_packet\<close>, \<open>udp_sweep\<close>, \<open>udp_final_close\<close>, the same
    accesses without interference, which are runs of \<open>udp_step\<close>. \<open>UdpRelay\<close> adds the datagrams: what the loop
    writes upstream for each source and what the \<open>ReverseProxyUDP\<close> goroutines send back, as an extension of the
    record of sessions that reuses its operations. \<open>UdpWire\<close> has the datagrams in every interleaving: \<open>udp_step\<close> with the
    buffer of the loop and one goroutine per session. \<open>UdpAwake\<close> joins the sessions to the low power manager through
    the connection counter they share.
  \<^item> \<open>TcpForward\<close>: \<open>mod/mapping/tcp.go\<close>. Both accept loops provide the interface \<open>accept_loop\<close>, from which
    their common properties follow.
  \<^item> \<open>Socks\<close>: \<open>mod/mapping/socks.go\<close>, \<open>func.go\<close>. The answers of the operating system are the record \<open>socks_env\<close>.
  \<^item> \<open>LowPower\<close>: \<open>mod/lowpower\<close>. The manager as a function of the events \<open>Run\<close> selects, over the methods of
    \<open>NodeControlInterface\<close> (\<open>node_ops\<close>); the locale \<open>node_control\<close> states what it relies on. \<open>WakeTrigger\<close> has the
    goroutines of its listener: the accept loop, its handlers, and the shutdown that waits for them. \<open>SocketFile\<close>
    has the file of a SOCKS address that is a Unix path, over what SOCKS, the stop of the components, the wake
    trigger and the manager do to it.
  \<^item> \<open>Node\<close>: \<open>mod/yggstack\<close>. Construction, start, stop, rollback, \<open>Close\<close> and the API, over a ledger of live
    objects; \<open>NodeControlObj\<close> provides \<open>node_control\<close>, \<open>Close\<close> provides \<open>close_once\<close>.
  \<^item> \<open>NodeLife\<close>: the life cycle of the node, alone and under the manager. \<open>StopRace\<close>: \<open>stopComponents\<close> against the
    forwarding goroutines that are still starting, as a step relation. \<open>DialRace\<close>: the same with dials in progress. \<open>CloseRace\<close>: \<open>Close\<close> against the goroutine
    of the manager, which may be stopping or starting the components; the calls interleave by their sections
    under the lock and their waits. \<open>CloseCallers\<close>: \<open>Close\<close> with its \<open>sync.Once\<close> and any number of callers, the
    goroutine \<open>New\<close> leaves behind among them, over the stages of \<open>CloseRace\<close> and the trigger of \<open>WakeTrigger\<close>.
  \<^item> \<open>Peers\<close>: \<open>mod/peers\<close>, guards, exported records, and the monitor of the peer count. \<open>NodePeers\<close>: the peer methods
    of the node (\<open>func_peers.go\<close>) and its adapter for the forwarding code (\<open>node_mapping.go\<close>).
  \<^item> \<open>Nic\<close>: \<open>src/netstack/yggdrasil.go\<close>, the link endpoint between gVisor and the core. \<open>Netstack\<close>: creation and
    shutdown of stack and endpoint, by the objects and goroutines that exist.
  \<^item> \<open>Mobile\<close>: \<open>cmd/embedded/mobile\<close>, the object an application holds, with its log and peer bridges; sequences of
    its calls are \<open>mobile_run\<close>.
  \<^item> \<open>Cli\<close>: \<open>cmd/yggstack/main.go\<close>, from the flags to the configuration of the node or the text printed instead. This
    theory composes it with the node: \<open>cli_run\<close>.
  \<^item> \<open>HttpDemo\<close>, \<open>HttpInfo\<close>: \<open>cmd/embedded/http\<close>, the file handlers, the information endpoint with its cache, and the
    set-up of the servers. \<open>HttpPlain\<close>: the plain handler with the file server of \<open>net/http\<close> behind it, the QR and
    information handlers, and one request through the mux, \<open>serve_site\<close>.
  \<^item> \<open>Chat\<close>: \<open>cmd/embedded/tiny-chat\<close>, from the bytes of the input to what the peer shows, and \<open>tiny-http\<close>. \<open>DemoPrograms\<close>: the
    three demos to the end of their processes.
  \<^item> \<open>NamedDial\<close>: addresses that travel as text between components: the SOCKS server with the resolver and the dial
    function \<open>StartSocks\<close> gives it, over what the SOCKS package documents (\<open>dials_resolved\<close>), the HTTP client of the
    chat, and the address the bindings show. \<open>Endpoints\<close>: from the mappings of the flags and the bindings to the full
    addresses of the stack.
  \<^item> \<open>Bridges\<close>: \<open>mod/yggstack/logger.go\<close> and the bridges of the bindings. The interface \<open>logger\<close>, which the bridge and
    the discarding logger provide, and the goroutines a bridge starts for each message and each peer count.

  \<^bold>\<open>State.\<close> Go structs are records with the fields the code keeps; pointers shared between goroutines are
  numbers into a heap (sessions) or ledger (components). Third-party objects have no inside: the ledger
  \<open>nd_live\<close> says which of them exist, the fields which are referred to, and a leak is a live object no field
  refers to. The atomic counters are 64-bit words; peer counts, times and durations are integers.
  Nondeterminism of the environment (does a dial, a listen, a write succeed; what a read returns; which goroutine
  moves) is an input of the operation or a choice of the step relation. The state of a core, where its peers matter,
  is a parameter type kept beside the node under the core's number.

  \<^bold>\<open>What the lemmas show.\<close> The parser inverts the rendering of specifications and accumulates only valid
  mappings; names resolve to the address of their key without DNS, and a SOCKS client, like the chat's, is connected
  there. Proxies and forwarding loops close or hand
  over every connection exactly once, terminate, back off as intended, and give back the connection counter; the
  UDP accounts hold in every interleaving, and the relay of datagrams refines the session model: in every
  interleaving nothing is made up or reordered, and replies go to the source they belong to. What the flags ask for is
  dialled and listened on exactly. A node that is closed, or whose construction fails, leaves nothing
  behind; under the low power manager it never blocks, is in step with the manager's state and falls asleep in time; \<open>Close\<close> and a node falling
  asleep release everything in any interleaving, no caller of \<open>Close\<close> is back before that, and the socket file follows the open listener. The peer
  monitor reports exactly the changes; the link endpoint keeps packets in order and its references balanced.
  The mobile object is well formed after every sequence of calls and can always be stopped; every run of the
  command line program ends with nothing live; the demo's file handler serves files under its root only, closes them,
  and its chunks reassemble, and so does the plain one serve its root only; what a chat shows has been typed; a demo that
  returns has shut its node; the cache of the information endpoint is fresh and bounds the load on the core.

  Several theorems state what the code does where that is hardly meant: a failing wake-up leaks its netstack
  (\<open>failed_start_leaks_netstack\<close>), a wake request during a failing sleep starts a running node
  (\<open>wake_during_failed_sleep_leaks_core\<close>), \<open>Close\<close> does not wait for a wake-up
  (\<open>close_during_wake_leaves_node_running\<close>, \<open>close_races_wake\<close>) and hangs or leaks where one starts between its two
  sections (\<open>late_wake_breaks_close\<close>), a \<open>Close\<close> during a falling asleep leaks the wake listener
  (\<open>close_during_sleep_leaks_wake_listener\<close>), a pending wake request restarts a closed node
  (\<open>pending_wake_restarts_closed_node\<close>), a \<open>New\<close> that fails late can make the goroutine of the peer monitor panic
  (\<open>failed_new_can_panic\<close>), the wake trigger takes the socket path from a live program
  (\<open>wake_trigger_takes_others_socket\<close>), the wake handler looks at a stale readiness channel
  (\<open>first_wake_connection_dropped\<close>, \<open>later_wake_dials_itself\<close>), UDP sessions can be orphaned
  (\<open>udp_cleanup_can_orphan\<close>, \<open>udp_shutdown_can_leak\<close>), which keeps the node awake for good
  (\<open>orphan_keeps_node_awake\<close>), or silenced by one error (\<open>read_error_silences_session\<close>), a stop that overtakes a starting goroutine hangs
  (\<open>early_stop_can_hang\<close>), a stop takes as long as a dial in progress (\<open>stop_waits_for_dial\<close>), one accept error makes a sleeping node deaf (\<open>accept_error_makes_trigger_deaf\<close>), a netstack
  that could not be created leaves a goroutine (\<open>failed_netstack_keeps_goroutine\<close>), peers added at run time are lost in
  sleep (\<open>runtime_peers_lost_on_wake\<close>), a loaded private key is not the node's key
  (\<open>loaded_key_is_not_the_nodes_key\<close>), the bindings count no connection (\<open>bindings_count_no_connection\<close>)
  and tell the application of peers and messages in any order (\<open>bridges_keep_no_order\<close>), a huge session timeout makes the cleanup panic (\<open>session_timeout_exact_iff\<close>), a
  growing file makes the handler panic (\<open>chunked_panics_iff_file_grew\<close>), a directory called \<open>index.html\<close> lists the
  one it is in (\<open>plain_lists_iff\<close>), the ends of a chat disagree on farewells and long lines
  (\<open>padded_bye_ends_only_peer\<close>, \<open>long_lines_end_or_vanish\<close>), and some malformed input is taken silently
  (\<open>unmatched_bracket_listens_everywhere\<close>, \<open>leading_text_ignored\<close>, \<open>dial_context_port_wraps\<close>,
  \<open>nameserver_without_port_unreachable\<close>).

  \<^bold>\<open>Termination.\<close> No definition uses fuel. Loops of the code are structural recursions over the inputs they
  consume, recursions with a measure (the chunks of a file, the lines of an input, the stages of a call), or step
  relations: \<open>ProxyTCP\<close>, the stop, two calls that interleave, and the callers of \<open>Close\<close> are shown to end by a measure. Calls that may block
  (\<open>Wait\<close>, \<open>core.Stop\<close>) or panic have the value None when they do, and the theorems on the node, the bindings and
  the programs show Some.

  \<^bold>\<open>Not modelled.\<close> The copying inside \<open>io.Copy\<close> beyond order and completeness; the text of log messages, and
  what the components log; a wake-up during \<open>Close\<close> with more than one caller, beyond \<open>CloseRace\<close>; the setters of the
  link endpoint with empty bodies; floating-point rounding in the peer and
  information records; symbolic links below the root of the file handlers, the headers and text of error pages and
  listings, and the conditional and range requests of \<open>net/http\<close>; the pixels of the QR code; other programs at the
  socket path beyond one that binds it while the node starts; the third party: core, gVisor, the SOCKS server, QUIC,
  DNS, the encoders; interface declarations; the printing of the programs beyond the choice of what is printed.
\<close>

subsection \<open>The command line program as a whole\<close>

datatype cli_result = BadFlag map_error | CliDone cli_outcome | NewPanicked start_error node | NodeClosed node

text \<open>
  \<open>main\<close> from the flags to the end of the process: the node, once started, runs until a signal and is closed. With
  an error of \<open>New\<close> the program panics. None is a run that does not end.
\<close>

definition cli_run :: "cli_env \<Rightarrow> node_config \<Rightarrow> bool \<Rightarrow> start_env \<Rightarrow> map_flag list \<Rightarrow> flags \<Rightarrow> cli_result option" where
  "cli_run env g hangs senv args f = (case parse_map_flags args no_map_flags of
       Inl e \<Rightarrow> Some (BadFlag e)
     | Inr m \<Rightarrow> (case cli_main env g (f\<lparr>fl_maps := m\<rparr>) of
         RunNode cfg \<Rightarrow> (case new_node g cfg hangs senv of
             None \<Rightarrow> None
           | Some (Some e, n) \<Rightarrow> Some (NewPanicked e n)
           | Some (None, n) \<Rightarrow> map_option NodeClosed (close_node n))
       | out \<Rightarrow> Some (CliDone out)))"

fun left_over :: "cli_result \<Rightarrow> (res_kind \<times> nat) set" where
  "left_over (NewPanicked e n) = nd_live n"
| "left_over (NodeClosed n) = nd_live n"
| "left_over _ = {}"


lemma demo_cli_run:
  "\<exists>n. cli_run demo_cli_env (demo_node_config\<lparr>nc_private_key := replicate 64 1\<rparr>) False (demo_env True) []
     (default_flags\<lparr>fl_autoconf := True\<rparr>) = Some (NodeClosed n)"
  by (simp add: cli_run_def cli_main_def choose_config_def query_def default_flags_def cfg_admin_none_def public_key_of_def
     no_map_flags_def cli_config_obj_def node_eval demo_defs)


subsection \<open>Connections of the mobile bindings\<close>

text \<open>
  the bindings count no connection: \<open>Start\<close> gives the node no activity callback, and without one neither the TCP
  loops nor the SOCKS proxy nor the UDP sessions, in any interleaving, change the counter, whatever they serve. So
  \<open>ActiveConnections\<close>, zero after \<open>Start\<close>, stays zero.
\<close>

theorem bindings_count_no_connection:
  assumes "mobile_start g socks ns False env y = Some (None, y')" "cb = co_activity_callback (start_config g socks ns y)"
    and "udp_reach \<lparr>uc_callback = cb, uc_prefix = p, uc_timeout = t\<rparr> c ids u"
  shows "mobile_active_connections (mb_node y') = 0 \<and>
     act_counter (tl_act (tcp_run (local_tcp_turn cb mapped) evs (tcp_start c ids))) = c \<and>
     act_counter (tl_act (tcp_run (remote_tcp_turn cb) evs (tcp_start c ids))) = c \<and>
     act_counter (snd (snd (socks_dial cb addr dialled (ids, a)))) = act_counter a \<and>
     act_counter (ud_act u) = c"
proof -
  have cb: "cb = False" using assms(2) by (simp add: start_config_def)
  obtain n where "new_node g (start_config g socks ns y) False env = Some (None, n)" "mb_node y' = Some n"
    using assms(1) by (auto simp: mobile_start_def split: if_splits option.splits prod.splits)
  then have "mobile_active_connections (mb_node y') = 0"
    using new_frame(2) by (simp add: mobile_active_connections_def node_active_connections_def)
  moreover have "act_counter (ud_act u) = c"
    using udp_reach_inv [OF assms(3)] by (simp add: udp_inv_def udp_accounts_def cb)
  ultimately show ?thesis
    by (simp add: cb tcp_untracked tcp_start_def socks_dial_def split: sum.split)
qed

theorem bindings_count_no_connection_witness:
  "\<exists>y'. mobile_start demo_node_config '':1080'' [] False (demo_env True) new_yggstack = Some (None, y') \<and>
     mobile_active_connections (mb_node y') = 0 \<and>
     act_counter (tl_act (tcp_run (local_tcp_turn False ''x'') [accept_event.Accepted 1 ''a'' (Some 2)] (tcp_start 0 0))) = 0"
proof -
  obtain n where n: "mobile_start demo_node_config '':1080'' [] False (demo_env True) new_yggstack = Some (None, new_yggstack\<lparr>mb_node := Some n\<rparr>)"
    using demo_mobile_start by blast
  have cb: "False = co_activity_callback (start_config demo_node_config '':1080'' [] new_yggstack)" by (simp add: start_config_def)
  show ?thesis
    using bindings_count_no_connection [OF n cb reach_init, where c = 0 and ids = 0 and mapped = "''x''" and evs = "[accept_event.Accepted 1 ''a'' (Some 2)]"] n
    by blast
qed

end
